(* ===== verification/Go_Prelude.thy ===== *)
theory Go_Prelude
  imports Main "HOL-Library.Word" "HOL-Library.Char_ord" "HOL-Library.List_Lexorder"
    "HOL-Library.Sublist" "HOL-Library.Code_Target_Nat"
begin

text \<open>
  The vocabulary shared by all components: Go errors as values, the parts of the Go
  standard library packages \<open>strings\<close>, \<open>strconv\<close>, \<open>errors\<close> and \<open>slices\<close> that the
  program uses, and two generic interfaces, a printer with a matching parser
  (\<open>text_codec\<close>) and a state machine with an invariant (\<open>invariant_machine\<close>).

  A Go string is a list of bytes (\<^typ>\<open>string\<close>), compared byte by byte as Go does.
\<close>

named_theorems go_defs \<open>definitions of Go library operations, for unfolding\<close>
named_theorems result_dest \<open>destruction rules for results of fallible operations\<close>

section \<open>Errors as values\<close>

text \<open>
  The API server classifies the errors it returns. The predicates
  \<open>apierrors.IsNotFound\<close>, \<open>IsForbidden\<close>, \<open>IsConflict\<close> and \<open>meta.IsNoMatchError\<close> read
  that classification, also through wrapped errors.
\<close>

datatype api_reason = RNotFound | RForbidden | RNoMatch | RConflict | ROther

datatype goerror =
    Err string
  | Wrap string goerror
  | ApiErr api_reason string
  | ErrNotImplemented
  | ErrNotExist string
  | ErrWriteFailed string
  | ErrCanceled
  | ErrPanic string

text \<open>
  \<open>Err\<close> is \<open>errors.New\<close> or \<open>fmt.Errorf\<close> without \<open>%w\<close>, \<open>Wrap t e\<close> is
  \<open>fmt.Errorf("t: %w", e)\<close>, and \<open>ErrPanic\<close> is a run-time panic, which unwinds to the
  caller like an error does.
\<close>

type_synonym 'a result = "goerror + 'a"

fun Error :: "goerror \<Rightarrow> string" where
  "Error (Err s) = s"
| "Error (Wrap s e) = s @ '': '' @ Error e"
| "Error (ApiErr r s) = s"
| "Error ErrNotImplemented = ''not implemented''"
| "Error (ErrNotExist s) = s @ '': no such file or directory''"
| "Error (ErrWriteFailed s) = s"
| "Error ErrCanceled = ''context canceled''"
| "Error (ErrPanic s) = s"

fun root_cause :: "goerror \<Rightarrow> goerror" where
  "root_cause (Wrap s e) = root_cause e"
| "root_cause e = e"

definition api_is :: "api_reason \<Rightarrow> goerror \<Rightarrow> bool" where
  "api_is r e = (case root_cause e of ApiErr r' _ \<Rightarrow> r' = r | _ \<Rightarrow> False)"

definition IsNotImplemented :: "goerror \<Rightarrow> bool" where
  "IsNotImplemented e = (root_cause e = ErrNotImplemented)"

definition IsNotExist :: "goerror \<Rightarrow> bool" where
  "IsNotExist e = (case root_cause e of ErrNotExist _ \<Rightarrow> True | _ \<Rightarrow> False)"

definition IsWriteFailed :: "goerror \<Rightarrow> bool" where
  "IsWriteFailed e = (case root_cause e of ErrWriteFailed _ \<Rightarrow> True | _ \<Rightarrow> False)"

lemma api_is_Wrap [simp]: "api_is r (Wrap s e) = api_is r e"
  by (simp add: api_is_def)

lemma api_is_ApiErr [simp]: "api_is r (ApiErr r' s) \<longleftrightarrow> r' = r"
  by (simp add: api_is_def)

lemma IsNotImplemented_simps [simp]:
  "IsNotImplemented (Wrap s e) = IsNotImplemented e" "IsNotImplemented ErrNotImplemented"
  "\<not> IsNotImplemented (Err s)" "\<not> IsNotImplemented (ApiErr r s)"
  by (simp_all add: IsNotImplemented_def)

lemma IsWriteFailed_simps [simp]:
  "IsWriteFailed (Wrap s e) = IsWriteFailed e" "IsWriteFailed (ErrWriteFailed s)"
  "\<not> IsWriteFailed (Err s)" "\<not> IsWriteFailed (ApiErr r s)"
  by (simp_all add: IsWriteFailed_def)

definition is_ok :: "'e + 'a \<Rightarrow> bool" where
  "is_ok r = (case r of Inl _ \<Rightarrow> False | Inr _ \<Rightarrow> True)"

lemma is_ok_simps [simp]: "\<not> is_ok (Inl e)" "is_ok (Inr x)"
  by (simp_all add: is_ok_def)

lemma is_ok_iff: "is_ok r \<longleftrightarrow> (\<exists>x. r = Inr x)"
  by (cases r) auto

section \<open>Package strings\<close>

definition HasPrefix :: "string \<Rightarrow> string \<Rightarrow> bool" where
  "HasPrefix s p = (length p \<le> length s \<and> take (length p) s = p)"

definition TrimPrefix :: "string \<Rightarrow> string \<Rightarrow> string" where
  "TrimPrefix s p = (if HasPrefix s p then drop (length p) s else s)"

definition CutPrefix :: "string \<Rightarrow> string \<Rightarrow> string \<times> bool" where
  "CutPrefix s p = (if HasPrefix s p then (drop (length p) s, True) else (s, False))"

definition HasSuffix :: "string \<Rightarrow> string \<Rightarrow> bool" where
  "HasSuffix s p = (length p \<le> length s \<and> drop (length s - length p) s = p)"

definition TrimSuffix :: "string \<Rightarrow> string \<Rightarrow> string" where
  "TrimSuffix s p = (if HasSuffix s p then take (length s - length p) s else s)"

definition TrimRight :: "string \<Rightarrow> string \<Rightarrow> string" where
  "TrimRight s cutset = rev (dropWhile (\<lambda>c. c \<in> set cutset) (rev s))"

definition is_space :: "char \<Rightarrow> bool" where
  "is_space c = (c \<in> set [CHR '' '', CHR 0x09, CHR 0x0A, CHR 0x0B, CHR 0x0C, CHR 0x0D])"

definition TrimSpace :: "string \<Rightarrow> string" where
  "TrimSpace s = rev (dropWhile is_space (rev (dropWhile is_space s)))"

fun Split :: "string \<Rightarrow> char \<Rightarrow> string list" where
  "Split [] c = [[]]"
| "Split (x # xs) c =
     (if x = c then [] # Split xs c
      else (case Split xs c of [] \<Rightarrow> [[x]] | y # ys \<Rightarrow> (x # y) # ys))"

fun Join :: "string list \<Rightarrow> string \<Rightarrow> string" where
  "Join [] sep = []"
| "Join [x] sep = x"
| "Join (x # y # ys) sep = x @ sep @ Join (y # ys) sep"

fun fields_aux :: "string \<Rightarrow> string \<Rightarrow> string list" where
  "fields_aux acc [] = (if acc = [] then [] else [rev acc])"
| "fields_aux acc (c # cs) =
     (if is_space c then (if acc = [] then [] else [rev acc]) @ fields_aux [] cs
      else fields_aux (c # acc) cs)"

definition Fields :: "string \<Rightarrow> string list" where
  "Fields s = fields_aux [] s"

lemmas [go_defs] = HasPrefix_def TrimPrefix_def CutPrefix_def HasSuffix_def TrimSuffix_def
  TrimRight_def is_space_def TrimSpace_def Fields_def

lemma HasPrefix_append [simp]: "HasPrefix (p @ s) p"
  by (simp add: HasPrefix_def)

lemma HasPrefix_iff: "HasPrefix s p \<longleftrightarrow> (\<exists>t. s = p @ t)"
  by (metis HasPrefix_append HasPrefix_def append_take_drop_id)

lemma TrimPrefix_append [simp]: "TrimPrefix (p @ s) p = s"
  by (simp add: TrimPrefix_def)

lemma HasPrefix_Nil [simp]: "HasPrefix s []"
  by (simp add: HasPrefix_def)

lemma Split_neq_Nil [simp]: "Split s c \<noteq> []"
  by (cases s) (auto split: list.splits)

lemma Split_nosep: "c \<notin> set s \<Longrightarrow> Split s c = [s]"
  by (induction s) auto

lemma Split_append: "c \<notin> set s \<Longrightarrow> Split (s @ c # t) c = s # Split t c"
  by (induction s) auto

lemma Split_Join:
  "xs \<noteq> [] \<Longrightarrow> \<forall>x \<in> set xs. c \<notin> set x \<Longrightarrow> Split (Join xs [c]) c = xs"
proof (induction xs "[c]" rule: Join.induct)
  case (2 x)
  then show ?case by (simp add: Split_nosep)
next
  case (3 x y ys)
  then show ?case by (simp add: Split_append)
qed simp

lemma Split_pieces: "x \<in> set (Split s c) \<Longrightarrow> c \<notin> set x"
  by (induction s arbitrary: x) (auto split: if_splits list.splits)

lemma set_Join: "set (Join xs sep) \<subseteq> (\<Union>x \<in> set xs. set x) \<union> set sep"
  by (induction xs sep rule: Join.induct) auto

lemma dropWhile_noop: "\<forall>c \<in> set s. \<not> P c \<Longrightarrow> dropWhile P s = s"
  by (cases s) auto

lemma TrimSpace_noop: "\<forall>c \<in> set s. \<not> is_space c \<Longrightarrow> TrimSpace s = s"
  by (simp add: TrimSpace_def dropWhile_noop)

lemma TrimRight_noop: "\<forall>c \<in> set s. c \<notin> set cs \<Longrightarrow> TrimRight s cs = s"
  by (simp add: TrimRight_def dropWhile_noop)

section \<open>Package strconv: decimal numbers, booleans\<close>

definition is_digit :: "char \<Rightarrow> bool" where
  "is_digit c = (48 \<le> (of_char c :: nat) \<and> (of_char c :: nat) \<le> 57)"

definition digit_val :: "char \<Rightarrow> nat" where
  "digit_val c = of_char c - 48"

definition digit_char :: "nat \<Rightarrow> char" where
  "digit_char n = char_of (48 + n)"

fun Itoa :: "nat \<Rightarrow> string" where
  "Itoa n = (if n < 10 then [digit_char n] else Itoa (n div 10) @ [digit_char (n mod 10)])"

declare Itoa.simps [simp del]

definition atoi_digits :: "string \<Rightarrow> nat" where
  "atoi_digits s = foldl (\<lambda>v c. 10 * v + digit_val c) 0 s"

lemma is_digit_digit_char [simp]: "n < 10 \<Longrightarrow> is_digit (digit_char n)"
  by (simp add: is_digit_def digit_char_def)

lemma digit_val_digit_char [simp]: "n < 10 \<Longrightarrow> digit_val (digit_char n) = n"
  by (simp add: digit_val_def digit_char_def)

lemma digit_val_le: "is_digit c \<Longrightarrow> digit_val c \<le> 9"
  unfolding is_digit_def digit_val_def by linarith

lemma Itoa_digits: "\<forall>c \<in> set (Itoa n). is_digit c"
proof (induction n rule: Itoa.induct)
  case (1 n)
  then show ?case by (cases "n < 10") (auto simp: Itoa.simps [of n])
qed

lemma Itoa_neq_Nil [simp]: "Itoa n \<noteq> []"
  by (simp add: Itoa.simps [of n])

lemma atoi_Itoa [simp]: "atoi_digits (Itoa n) = n"
proof (induction n rule: Itoa.induct)
  case (1 n)
  then show ?case by (cases "n < 10") (auto simp: Itoa.simps [of n] atoi_digits_def)
qed

lemma Itoa_inject [simp]: "Itoa m = Itoa n \<longleftrightarrow> m = n"
  by (metis atoi_Itoa)

text \<open>A decimal numeral never starts with a superfluous zero.\<close>

lemma hd_Itoa: "10 \<le> n \<Longrightarrow> digit_val (hd (Itoa n)) \<noteq> 0"
proof (induction n rule: Itoa.induct)
  case (1 n)
  show ?case
  proof (cases "n div 10 < 10")
    case True
    with "1.prems" show ?thesis by (simp add: Itoa.simps [of n] Itoa.simps [of "n div 10"])
  next
    case False
    with 1 show ?thesis by (simp add: Itoa.simps [of n])
  qed
qed

definition FormatBool :: "bool \<Rightarrow> string" where
  "FormatBool b = (if b then ''true'' else ''false'')"

definition ParseBool :: "string \<Rightarrow> bool option" where
  "ParseBool s =
     (if s \<in> set [''1'', ''t'', ''T'', ''TRUE'', ''true'', ''True''] then Some True
      else if s \<in> set [''0'', ''f'', ''F'', ''FALSE'', ''false'', ''False''] then Some False
      else None)"

lemma ParseBool_FormatBool [simp]: "ParseBool (FormatBool b) = Some b"
  by (simp add: ParseBool_def FormatBool_def)

section \<open>Printers with matching parsers\<close>

text \<open>
  A component that writes a value as text for another component to read relies on one
  law: parsing what was printed gives the value back.
\<close>

locale text_codec =
  fixes pr :: "'a \<Rightarrow> string"
    and ps :: "string \<Rightarrow> 'a option"
    and wf :: "'a \<Rightarrow> bool"
  assumes parse_print: "wf x \<Longrightarrow> ps (pr x) = Some x"
begin

lemma print_inject: "wf x \<Longrightarrow> wf y \<Longrightarrow> pr x = pr y \<longleftrightarrow> x = y"
  by (metis option.inject parse_print)

lemma parse_print_list: "\<forall>x \<in> set xs. wf x \<Longrightarrow> map ps (map pr xs) = map Some xs"
  by (simp add: parse_print)

lemma distinct_print: "\<forall>x \<in> set xs. wf x \<Longrightarrow> distinct xs \<Longrightarrow> distinct (map pr xs)"
  by (auto simp: distinct_map inj_on_def print_inject)

end

section \<open>State machines with an invariant\<close>

text \<open>
  A component whose operations are steps on its state keeps an invariant when the initial
  state has it and every step preserves it; then every sequence of operations does. The
  predicate \<open>ok\<close> says what is assumed of the events.
\<close>

locale event_machine =
  fixes init :: 's
    and step :: "'e \<Rightarrow> 's \<Rightarrow> 's"
    and ok :: "'e \<Rightarrow> bool"
    and inv :: "'s \<Rightarrow> bool"
  assumes inv_init: "inv init"
    and ok_step: "inv s \<Longrightarrow> ok e \<Longrightarrow> inv (step e s)"
begin

lemma ok_run: "inv s \<Longrightarrow> list_all ok es \<Longrightarrow> inv (fold step es s)"
  by (induction es arbitrary: s) (auto intro: ok_step)

lemma ok_reachable: "list_all ok es \<Longrightarrow> inv (fold step es init)"
  by (rule ok_run [OF inv_init])

end

text \<open>Without conditions on the events.\<close>

locale invariant_machine =
  fixes init :: 's
    and step :: "'e \<Rightarrow> 's \<Rightarrow> 's"
    and inv :: "'s \<Rightarrow> bool"
  assumes start: "inv init"
    and inv_step: "inv s \<Longrightarrow> inv (step e s)"

sublocale invariant_machine \<subseteq> every: event_machine init step "\<lambda>_. True" inv
  by unfold_locales (simp_all add: start inv_step)

context invariant_machine
begin

lemma inv_run: "inv s \<Longrightarrow> inv (fold step es s)"
  by (rule every.ok_run) (simp_all add: list_all_iff)

lemma inv_reachable: "inv (fold step es init)"
  by (rule inv_run [OF start])

end

end
