(* ===== verification/Go_Map.thy ===== *)
theory Go_Map
  imports Go_Prelude
begin

text \<open>
  Go maps with string keys. A map is the list of its entries in increasing key order, the
  order in which \<open>encoding/json\<close> writes them; iteration order, which Go leaves open, never
  shows in a result. The interface \<open>string_map\<close> states what a lookup returns after each
  operation, and the concrete operations provide it.
\<close>

type_synonym 'v gomap = "(string \<times> 'v) list"

definition mget :: "'v gomap \<Rightarrow> string \<Rightarrow> 'v option" where
  "mget m k = map_of m k"

fun mput :: "string \<Rightarrow> 'v \<Rightarrow> 'v gomap \<Rightarrow> 'v gomap" where
  "mput k v [] = [(k, v)]"
| "mput k v ((l, w) # m) =
     (if k < l then (k, v) # (l, w) # m
      else if k = l then (k, v) # m
      else (l, w) # mput k v m)"

definition mdel :: "string \<Rightarrow> 'v gomap \<Rightarrow> 'v gomap" where
  "mdel k m = filter (\<lambda>(l, w). l \<noteq> k) m"

definition mdel_if :: "(string \<Rightarrow> bool) \<Rightarrow> 'v gomap \<Rightarrow> 'v gomap" where
  "mdel_if P m = filter (\<lambda>(l, w). \<not> P l) m"

text \<open>Keys are strictly increasing.\<close>

definition map_ok :: "'v gomap \<Rightarrow> bool" where
  "map_ok m = sorted_wrt (<) (map fst m)"

text \<open>Writing a list of entries into a map: a later entry replaces an earlier one.\<close>

definition mputs :: "(string \<times> 'v) list \<Rightarrow> 'v gomap \<Rightarrow> 'v gomap" where
  "mputs es m = foldl (\<lambda>m (k, v). mput k v m) m es"

locale string_map =
  fixes empty :: 'm
    and get :: "'m \<Rightarrow> string \<Rightarrow> 'v option"
    and put :: "string \<Rightarrow> 'v \<Rightarrow> 'm \<Rightarrow> 'm"
    and del_if :: "(string \<Rightarrow> bool) \<Rightarrow> 'm \<Rightarrow> 'm"
    and ok :: "'m \<Rightarrow> bool"
  assumes ok_empty: "ok empty"
    and ok_put: "ok m \<Longrightarrow> ok (put k v m)"
    and ok_del_if: "ok m \<Longrightarrow> ok (del_if P m)"
    and get_empty: "get empty k = None"
    and get_put: "ok m \<Longrightarrow> get (put k v m) l = (if l = k then Some v else get m l)"
    and get_del_if: "ok m \<Longrightarrow> get (del_if P m) l = (if P l then None else get m l)"
    and extensional: "ok m \<Longrightarrow> ok n \<Longrightarrow> (\<And>k. get m k = get n k) \<Longrightarrow> m = n"
begin

definition puts :: "(string \<times> 'v) list \<Rightarrow> 'm \<Rightarrow> 'm" where
  "puts es m = foldl (\<lambda>m (k, v). put k v m) m es"

lemma ok_puts: "ok m \<Longrightarrow> ok (puts es m)"
  unfolding puts_def by (induction es arbitrary: m) (auto intro: ok_put)

lemma get_puts:
  "ok m \<Longrightarrow> get (puts es m) k = (case map_of (rev es) k of None \<Rightarrow> get m k | Some v \<Rightarrow> Some v)"
  unfolding puts_def
proof (induction es arbitrary: m)
  case (Cons e es)
  obtain l w where e: "e = (l, w)" by fastforce
  show ?case
    using Cons.IH [OF ok_put [OF Cons.prems]] Cons.prems
    by (auto simp: e get_put map_add_def split: option.splits)
qed simp

text \<open>Replacing the entries under a prefix twice is the same as replacing them once.\<close>

lemma replace_twice:
  assumes "ok m" and "\<And>k v. (k, v) \<in> set es \<Longrightarrow> P k"
  shows "puts es (del_if P (puts es (del_if P m))) = puts es (del_if P m)"
proof (rule extensional)
  show "ok (puts es (del_if P (puts es (del_if P m))))" "ok (puts es (del_if P m))"
    using assms(1) by (auto intro!: ok_puts ok_del_if)
  fix k
  show "get (puts es (del_if P (puts es (del_if P m)))) k = get (puts es (del_if P m)) k"
    using assms by (auto simp: get_puts get_del_if ok_puts ok_del_if split: option.splits
        dest!: map_of_SomeD)
qed

end

lemma fst_mput: "fst ` set (mput k v m) = insert k (fst ` set m)"
  by (induction k v m rule: mput.induct) auto

lemma map_ok_Nil [simp]: "map_ok []"
  by (simp add: map_ok_def)

lemma map_ok_Cons: "map_ok ((k, v) # m) \<longleftrightarrow> (\<forall>l \<in> fst ` set m. k < l) \<and> map_ok m"
  by (auto simp: map_ok_def)

lemma map_ok_mput: "map_ok m \<Longrightarrow> map_ok (mput k v m)"
proof (induction k v m rule: mput.induct)
  case (2 k v l w m)
  then show ?case by (auto simp: map_ok_Cons fst_mput)
qed (simp add: map_ok_Cons)

lemma map_ok_distinct: "map_ok m \<Longrightarrow> distinct (map fst m)"
  unfolding map_ok_def using strict_sorted_iff by blast

lemma map_ok_mdel_if: "map_ok m \<Longrightarrow> map_ok (mdel_if P m)"
  by (induction m) (auto simp: mdel_if_def map_ok_Cons)

lemma mget_mput: "mget (mput k v m) l = (if l = k then Some v else mget m l)"
  by (induction k v m rule: mput.induct) (auto simp: mget_def)

lemma mget_mdel_if: "mget (mdel_if P m) l = (if P l then None else mget m l)"
  by (induction m) (auto simp: mget_def mdel_if_def)

lemma mget_extensional:
  assumes "map_ok m" and "map_ok n" and "\<And>k. mget m k = mget n k"
  shows "m = n"
proof (rule map_sorted_distinct_set_unique [where f = fst])
  have "set m = {(k, v). mget m k = Some v}" "set n = {(k, v). mget n k = Some v}"
    using assms(1,2) unfolding mget_def
    by (auto dest: map_of_SomeD map_ok_distinct [THEN map_of_is_SomeI])
  with assms(3) show "set m = set n" by simp
  then show "inj_on fst (set m \<union> set n)"
    using map_ok_distinct [OF assms(1)] by (simp add: distinct_map)
  show "sorted (map fst m)" "sorted (map fst n)"
    using assms(1,2) by (auto simp: map_ok_def strict_sorted_iff)
  show "distinct (map fst m)" "distinct (map fst n)"
    using assms(1,2) by (auto intro: map_ok_distinct)
qed

interpretation gm: string_map "[]" mget mput mdel_if map_ok
  by unfold_locales
    (auto simp: map_ok_mput map_ok_mdel_if mget_mput mget_mdel_if mget_extensional,
      simp add: mget_def)

lemma mputs_eq: "mputs es m = gm.puts es m"
  by (simp add: mputs_def gm.puts_def)

lemmas mget_mputs = gm.get_puts [folded mputs_eq]
lemmas map_ok_mputs = gm.ok_puts [folded mputs_eq]

lemma empty_map [simp]: "mget [] k = None" "map_ok []"
  by (rule gm.get_empty, rule gm.ok_empty)

lemma length_mput: "length (mput k v m) \<le> Suc (length m)"
  by (induction k v m rule: mput.induct) auto

text \<open>Changing the values of a map.\<close>

definition mmap :: "('v \<Rightarrow> 'w) \<Rightarrow> 'v gomap \<Rightarrow> 'w gomap" where
  "mmap f m = map (\<lambda>(k, v). (k, f v)) m"

lemma mget_mmap [simp]: "mget (mmap f m) k = map_option f (mget m k)"
  by (simp add: mget_def mmap_def map_of_map)

lemma map_ok_mmap [simp]: "map_ok (mmap f m) = map_ok m"
  by (simp add: map_ok_def mmap_def comp_def case_prod_unfold)

lemma mmap_comp: "mmap f (mmap g m) = mmap (\<lambda>v. f (g v)) m"
  by (simp add: mmap_def case_prod_unfold)

lemma mget_set: "map_ok m \<Longrightarrow> mget m k = Some v \<longleftrightarrow> (k, v) \<in> set m"
  by (simp add: mget_def map_ok_distinct)

lemma mget_in: "mget m k = Some v \<Longrightarrow> (k, v) \<in> set m"
  by (simp add: mget_def map_of_SomeD)

lemma set_mput: "set (mput k v m) \<subseteq> insert (k, v) (set m)"
  by (induction k v m rule: mput.induct) auto

lemma set_mputs: "set (mputs es m) \<subseteq> set es \<union> set m"
  unfolding mputs_def
proof (induction es arbitrary: m)
  case (Cons e es)
  then show ?case using set_mput [of "fst e" "snd e" m] by (cases e) fastforce
qed simp

lemma set_mdel_if: "set (mdel_if P m) \<subseteq> set m"
  by (auto simp: mdel_if_def)

lemma map_of_rev_distinct: "distinct (map fst m) \<Longrightarrow> map_of (rev m) = map_of m"
  by (rule map_of_inject_set [THEN iffD2]) (simp_all add: rev_map [symmetric])

lemma mget_mputs_ok:
  assumes "map_ok es" "map_ok m"
  shows "mget (mputs es m) k = (case mget es k of None \<Rightarrow> mget m k | Some v \<Rightarrow> Some v)"
  using map_of_rev_distinct [OF map_ok_distinct [OF assms(1)]] assms(2)
  by (simp add: mget_mputs mget_def [of es])

lemma mputs_sorted: "map_ok m \<Longrightarrow> mputs m [] = m"
  by (intro mget_extensional)
    (auto simp: map_ok_mputs gm.ok_empty gm.get_empty mget_mputs_ok split: option.splits)

text \<open>Entries written under distinct names in any order.\<close>

lemma mget_mputs_map:
  assumes "map_ok m" "\<And>x y. x \<in> set xs \<Longrightarrow> y \<in> set xs \<Longrightarrow> f x = f y \<Longrightarrow> x = y" "distinct xs"
  shows "mget (mputs (map (\<lambda>x. (f x, g x)) xs) m) k =
    (case find (\<lambda>x. f x = k) xs of None \<Rightarrow> mget m k | Some x \<Rightarrow> Some (g x))"
proof -
  have "distinct (map fst (map (\<lambda>x. (f x, g x)) xs))"
    using assms(2,3) by (auto simp: distinct_map inj_on_def comp_def)
  moreover have "map_of (map (\<lambda>x. (f x, g x)) xs) k = map_option g (find (\<lambda>x. f x = k) xs)"
    by (induction xs) auto
  ultimately show ?thesis
    using assms(1) by (simp add: mget_mputs map_of_rev_distinct split: option.splits)
qed

end
