(* ===== verification/Go_Http.thy ===== *)
theory Go_Http
  imports Go_Prelude
begin

text \<open>
  What the handlers of the program use of packages \<open>net/http\<close> and \<open>time\<close>: requests,
  responses, error responses and durations.
\<close>

text \<open>Durations are in nanoseconds, as in package \<open>time\<close>.\<close>

definition Second :: nat where
  "Second = 10 ^ 9"

record Request =
  Method :: string
  Path :: string
  Authorization :: string
  Body :: string

text \<open>A panic in a handler closes the connection without a response.\<close>

datatype Response = Response (Status: nat) (RespBody: string) | Aborted

definition http_error :: "string \<Rightarrow> nat \<Rightarrow> Response" where
  "http_error msg code = Response code (msg @ [CHR 0x0A])"

definition StatusText :: "nat \<Rightarrow> string" where
  "StatusText code =
     (if code = 200 then ''OK'' else if code = 204 then ''No Content''
      else if code = 400 then ''Bad Request'' else if code = 401 then ''Unauthorized''
      else if code = 403 then ''Forbidden'' else if code = 404 then ''Not Found''
      else if code = 500 then ''Internal Server Error'' else if code = 502 then ''Bad Gateway''
      else if code = 503 then ''Service Unavailable'' else [])"

text \<open>What a client sees of a response: its status and the bytes of the body, up to an error if there is one.\<close>

record web_response =
  StatusCode :: nat
  StatusLine :: string
  Bytes :: string
  ReadError :: "goerror option"

end
