(* ===== verification/Agent_Config.thy ===== *)
theory Agent_Config
  imports Go_Map Go_Http
begin

text \<open>
  Package \<open>config\<close> of the agent and \<open>time.ParseDuration\<close>. The environment is a function from
  names to values, the empty string standing for an unset variable as in \<open>os.Getenv\<close>.

  The lemmas characterise when a configuration is accepted, and what a duration of the form
  the custom resource allows is parsed to.
\<close>

section \<open>Durations\<close>

definition duration_error :: goerror where
  "duration_error = Err ''time: invalid duration''"

definition unit_value :: "string \<Rightarrow> nat option" where
  "unit_value u =
     (if u = ''ns'' then Some 1
      else if u = ''us'' \<or> u = [CHR 0xC2, CHR 0xB5, CHR ''s''] \<or> u = [CHR 0xCE, CHR 0xBC, CHR ''s''] then Some (10 ^ 3)
      else if u = ''ms'' then Some (10 ^ 6)
      else if u = ''s'' then Some (10 ^ 9)
      else if u = ''m'' then Some (60 * 10 ^ 9)
      else if u = ''h'' then Some (3600 * 10 ^ 9)
      else None)"

text \<open>\<open>leadingInt\<close>: the digits at the front, an error when they exceed 2^63.\<close>

fun leadingInt :: "nat \<Rightarrow> string \<Rightarrow> (nat \<times> string) option" where
  "leadingInt x [] = Some (x, [])"
| "leadingInt x (c # cs) =
     (if \<not> is_digit c then Some (x, c # cs)
      else if 2 ^ 63 div 10 < x then None
      else (let y = 10 * x + digit_val c in if 2 ^ 63 < y then None else leadingInt y cs))"

text \<open>
  \<open>leadingFraction\<close>: digits that fit into 63 bits and their number; further digits are
  skipped.
\<close>

fun leadingFraction :: "nat \<Rightarrow> nat \<Rightarrow> bool \<Rightarrow> string \<Rightarrow> nat \<times> nat \<times> string" where
  "leadingFraction x k over [] = (x, k, [])"
| "leadingFraction x k over (c # cs) =
     (if \<not> is_digit c then (x, k, c # cs)
      else if over then leadingFraction x k True cs
      else if (2 ^ 63 - 1) div 10 < x then leadingFraction x k True cs
      else (let y = 10 * x + digit_val c
            in if 2 ^ 63 < y then leadingFraction x k True cs else leadingFraction y (Suc k) False cs))"

definition not_unit_char :: "char \<Rightarrow> bool" where
  "not_unit_char c = (c = CHR ''.'' \<or> is_digit c)"

text \<open>The number in front of a unit: integer part, fraction, digits of the fraction, rest.\<close>

definition duration_number :: "string \<Rightarrow> (nat \<times> nat \<times> nat \<times> string) option" where
  "duration_number s =
     (case s of
        [] \<Rightarrow> None
      | c # _ \<Rightarrow>
          (if \<not> not_unit_char c then None
           else (case leadingInt 0 s of
              None \<Rightarrow> None
            | Some (v, s1) \<Rightarrow>
                (if s1 \<noteq> [] \<and> hd s1 = CHR ''.''
                 then (let (f, k, s2) = leadingFraction 0 0 False (tl s1)
                       in if length s1 = length s \<and> length s2 = length (tl s1) then None
                          else Some (v, f, k, s2))
                 else if length s1 = length s then None
                 else Some (v, 0, 0, s1)))))"

text \<open>
  One number with its unit. The fraction is multiplied in floating point: \<open>frac f unit k\<close>
  stands for \<open>uint64(float64(f) * (float64(unit) / 10^k))\<close>.
\<close>

definition duration_item :: "(nat \<Rightarrow> nat \<Rightarrow> nat \<Rightarrow> nat) \<Rightarrow> string \<Rightarrow> (nat \<times> string) option" where
  "duration_item frac s =
     (case duration_number s of
        None \<Rightarrow> None
      | Some (v, f, k, s2) \<Rightarrow>
          (case unit_value (takeWhile (\<lambda>c. \<not> not_unit_char c) s2) of
             None \<Rightarrow> None
           | Some unit \<Rightarrow>
               (if 2 ^ 63 div unit < v then None
                else
                  (let w = v * unit + (if 0 < f then frac f unit k else 0)
                   in if 2 ^ 63 < w then None
                      else Some (w, dropWhile (\<lambda>c. \<not> not_unit_char c) s2)))))"

lemma leadingInt_le: "leadingInt x s = Some (v, t) \<Longrightarrow> length t \<le> length s"
  by (induction x s rule: leadingInt.induct) (fastforce simp: Let_def split: if_splits)+

lemma leadingFraction_le: "leadingFraction x k over s = (f, j, t) \<Longrightarrow> length t \<le> length s"
  by (induction x k over s rule: leadingFraction.induct) (fastforce simp: Let_def split: if_splits)+

lemma unit_value_Nil [simp]: "unit_value [] = None"
  by (simp add: unit_value_def)

lemma duration_number_le:
  assumes "duration_number s = Some (v, f, k, t)"
  shows "length t \<le> length s"
proof -
  obtain v' s1 where v: "leadingInt 0 s = Some (v', s1)"
    using assms by (auto simp: duration_number_def split: list.splits if_splits option.splits)
  obtain f' k' s2 where s2: "leadingFraction 0 0 False (tl s1) = (f', k', s2)"
    by (metis prod_cases3)
  have "t = s1 \<or> t = s2"
  proof (cases s)
    case (Cons c cs)
    with assms v s2 show ?thesis
      by (auto simp: duration_number_def simp del: leadingInt.simps split: if_splits)
  qed (use assms in \<open>simp add: duration_number_def\<close>)
  then show ?thesis
    using leadingInt_le [OF v] leadingFraction_le [OF s2] by auto
qed

lemma duration_item_shorter:
  assumes "duration_item frac s = Some (w, t)"
  shows "length t < length s"
proof -
  obtain v f k s2 where n: "duration_number s = Some (v, f, k, s2)"
    and t: "t = dropWhile (\<lambda>c. \<not> not_unit_char c) s2"
    and u: "unit_value (takeWhile (\<lambda>c. \<not> not_unit_char c) s2) \<noteq> None"
    using assms by (auto simp: duration_item_def Let_def split: option.splits if_splits)
  from u have "takeWhile (\<lambda>c. \<not> not_unit_char c) s2 \<noteq> []" by auto
  moreover have "length s2 = length (takeWhile (\<lambda>c. \<not> not_unit_char c) s2) + length t"
    unfolding t by (metis length_append takeWhile_dropWhile_id)
  ultimately show ?thesis using duration_number_le [OF n] by (cases "takeWhile (\<lambda>c. \<not> not_unit_char c) s2") auto
qed

function duration_sum :: "(nat \<Rightarrow> nat \<Rightarrow> nat \<Rightarrow> nat) \<Rightarrow> nat \<Rightarrow> string \<Rightarrow> nat option" where
  "duration_sum frac d s =
     (if s = [] then Some d
      else (case duration_item frac s of
         None \<Rightarrow> None
       | Some (w, t) \<Rightarrow> (if 2 ^ 63 < d + w then None else duration_sum frac (d + w) t)))"
  by pat_completeness auto
termination
  by (relation "measure (\<lambda>(frac, d, s). length s)") (auto dest: duration_item_shorter)

declare duration_sum.simps [simp del]

definition ParseDuration :: "(nat \<Rightarrow> nat \<Rightarrow> nat \<Rightarrow> nat) \<Rightarrow> string \<Rightarrow> int result" where
  "ParseDuration frac orig =
     (let neg = HasPrefix orig ''-'';
          s = (if neg \<or> HasPrefix orig ''+'' then tl orig else orig)
      in if s = ''0'' then Inr 0
         else if s = [] then Inl duration_error
         else (case duration_sum frac 0 s of
            None \<Rightarrow> Inl duration_error
          | Some d \<Rightarrow>
              (if neg then Inr (- int d)
               else if 2 ^ 63 - 1 < d then Inl duration_error
               else Inr (int d))))"

section \<open>Configuration\<close>

record Config =
  NodeName :: string
  BootstrapMode :: string
  DiscoveryURL :: string
  DNSDomain :: string
  DHCPInterface :: string
  RefreshInterval :: int
  StateDir :: string
  TunName :: string
  AdvertisePodCIDR :: bool
  AdvertiseNodeIP :: bool
  EnableDaemonAPI :: bool
  CfgAcceptISDASes :: string
  CfgForbiddenCIDRs :: string
  MetricsAddr :: string
  MetricsTLSCert :: string
  MetricsTLSKey :: string

type_synonym environ = "string \<Rightarrow> string"

definition getenv :: "environ \<Rightarrow> string \<Rightarrow> string \<Rightarrow> string" where
  "getenv env k def = (if env k \<noteq> [] then env k else def)"

definition getenvBool :: "environ \<Rightarrow> string \<Rightarrow> bool \<Rightarrow> bool" where
  "getenvBool env k def =
     (if env k = [] then def else (case ParseBool (env k) of None \<Rightarrow> def | Some b \<Rightarrow> b))"

definition env_config :: "environ \<Rightarrow> Config" where
  "env_config env =
     \<lparr>NodeName = env ''NODE_NAME'',
      BootstrapMode = getenv env ''SCION_BOOTSTRAP_MODE'' ''url'',
      DiscoveryURL = env ''SCION_DISCOVERY_URL'',
      DNSDomain = env ''SCION_DNS_DOMAIN'',
      DHCPInterface = env ''SCION_DHCP_INTERFACE'',
      RefreshInterval = 0,
      StateDir = getenv env ''SCION_STATE_DIR'' ''/var/lib/scion-node-agent'',
      TunName = getenv env ''SCION_TUN_NAME'' ''scion0'',
      AdvertisePodCIDR = getenvBool env ''SCION_ADVERTISE_POD_CIDR'' True,
      AdvertiseNodeIP = getenvBool env ''SCION_ADVERTISE_NODE_IP'' False,
      EnableDaemonAPI = getenvBool env ''SCION_ENABLE_DAEMON_API'' True,
      CfgAcceptISDASes = env ''SCION_ACCEPT_ISD_ASES'',
      CfgForbiddenCIDRs = env ''SCION_FORBIDDEN_CIDRS'',
      MetricsAddr = getenv env ''SCION_METRICS_ADDR'' '':9465'',
      MetricsTLSCert = env ''SCION_METRICS_TLS_CERT'',
      MetricsTLSKey = env ''SCION_METRICS_TLS_KEY''\<rparr>"

definition FromEnv :: "(nat \<Rightarrow> nat \<Rightarrow> nat \<Rightarrow> nat) \<Rightarrow> environ \<Rightarrow> Config result" where
  "FromEnv frac env =
     (let c = env_config env
      in if (MetricsTLSCert c = []) \<noteq> (MetricsTLSKey c = [])
         then Inl (Err ''SCION_METRICS_TLS_CERT and SCION_METRICS_TLS_KEY must be set together'')
         else (case ParseDuration frac (getenv env ''SCION_REFRESH_INTERVAL'' ''1h'') of
            Inl e \<Rightarrow> Inl (Wrap ''SCION_REFRESH_INTERVAL'' e)
          | Inr d \<Rightarrow>
              (let c = c\<lparr>RefreshInterval := d\<rparr>
               in if NodeName c = [] then Inl (Err ''NODE_NAME is required'')
                  else if BootstrapMode c \<notin> set [''url'', ''dns'', ''dhcp'', ''mdns'']
                  then Inl (Err (''SCION_BOOTSTRAP_MODE '' @ BootstrapMode c @
                    '' invalid: must be one of url, dns, dhcp, mdns''))
                  else if BootstrapMode c = ''url'' \<and> DiscoveryURL c = []
                  then Inl (Err ''SCION_DISCOVERY_URL required for bootstrap mode url'')
                  else Inr c)))"

section \<open>Durations of the custom resource\<close>

text \<open>
  The custom resource admits durations that are sequences of digits and units. \<open>items\<close> is such
  a sequence.
\<close>

definition item_ok :: "string \<times> string \<Rightarrow> bool" where
  "item_ok p = (fst p \<noteq> [] \<and> list_all is_digit (fst p) \<and> unit_value (snd p) \<noteq> None)"

definition item_text :: "string \<times> string \<Rightarrow> string" where
  "item_text p = fst p @ snd p"

definition item_value :: "string \<times> string \<Rightarrow> nat" where
  "item_value p = atoi_digits (fst p) * the (unit_value (snd p))"

lemma foldl_digits_ge: "(x::nat) \<le> foldl (\<lambda>v c. 10 * v + digit_val c) x ds"
proof (induction ds arbitrary: x)
  case (Cons d ds)
  from Cons.IH [of "10 * x + digit_val d"] show ?case by simp
qed simp

lemma leadingInt_digits:
  assumes "list_all is_digit ds" "r = [] \<or> \<not> is_digit (hd r)"
    and "foldl (\<lambda>v c. 10 * v + digit_val c) x ds \<le> 2 ^ 63"
  shows "leadingInt x (ds @ r) = Some (foldl (\<lambda>v c. 10 * v + digit_val c) x ds, r)"
  using assms
proof (induction ds arbitrary: x)
  case Nil
  then show ?case by (cases r) auto
next
  case (Cons d ds)
  have "10 * x + digit_val d \<le> 2 ^ 63"
    using foldl_digits_ge [of "10 * x + digit_val d" ds] Cons.prems by simp
  then show ?case using Cons by simp
qed

lemma unit_value_chars:
  assumes "unit_value u = Some n"
  shows "u \<noteq> []" "\<forall>c \<in> set u. \<not> not_unit_char c" "\<not> is_digit (hd u)" "hd u \<noteq> CHR ''.''" "1 \<le> n"
proof -
  have "u \<in> {''ns'', ''us'', [CHR 0xC2, CHR 0xB5, CHR ''s''], [CHR 0xCE, CHR 0xBC, CHR ''s''], ''ms'', ''s'', ''m'', ''h''}"
    using assms by (auto simp: unit_value_def split: if_splits)
  then show "u \<noteq> []" "\<forall>c \<in> set u. \<not> not_unit_char c" "\<not> is_digit (hd u)" "hd u \<noteq> CHR ''.''"
    by (auto simp: not_unit_char_def is_digit_def)
  show "1 \<le> n" using assms by (auto simp: unit_value_def split: if_splits)
qed

lemma takeWhile_units:
  assumes "\<forall>c \<in> set u. \<not> not_unit_char c" "r = [] \<or> not_unit_char (hd r)"
  shows "takeWhile (\<lambda>c. \<not> not_unit_char c) (u @ r) = u" "dropWhile (\<lambda>c. \<not> not_unit_char c) (u @ r) = r"
  using assms by (cases r; simp add: takeWhile_append2 dropWhile_append2)+

lemma duration_item_text:
  assumes ok: "item_ok p" and rest: "r = [] \<or> not_unit_char (hd r)" and le: "item_value p \<le> 2 ^ 63"
  shows "duration_item frac (item_text p @ r) = Some (item_value p, r)"
proof -
  obtain ds u where p: "p = (ds, u)" by (cases p)
  from ok obtain n where u: "unit_value u = Some n" by (auto simp: p item_ok_def)
  note chars = unit_value_chars [OF u]
  obtain d ds' where ds: "ds = d # ds'" "is_digit d" "list_all is_digit ds"
    using ok by (cases ds) (auto simp: p item_ok_def)
  have mult: "atoi_digits ds * n \<le> 2 ^ 63" using le by (simp add: p u item_value_def)
  then have "atoi_digits ds \<le> 2 ^ 63" using chars(5) by (metis le_trans mult.right_neutral mult_le_mono2)
  then have int: "leadingInt 0 (ds @ u @ r) = Some (atoi_digits ds, u @ r)"
    using leadingInt_digits [of ds "u @ r" 0] chars ds(3) by (simp add: atoi_digits_def)
  have num: "duration_number (ds @ u @ r) = Some (atoi_digits ds, 0, 0, u @ r)"
    using int chars ds(1,2) by (simp add: duration_number_def not_unit_char_def del: leadingInt.simps)
  have "atoi_digits ds \<le> 2 ^ 63 div n"
    using mult chars(5) by (simp add: less_eq_div_iff_mult_less_eq)
  then show ?thesis
    using mult by (simp add: duration_item_def p item_text_def num takeWhile_units [OF chars(2) rest] u item_value_def)
qed

lemma hd_items: "list_all item_ok ps \<Longrightarrow> concat (map item_text ps) = [] \<or> not_unit_char (hd (concat (map item_text ps)))"
  by (cases ps) (auto simp: item_ok_def item_text_def not_unit_char_def list_all_iff)

lemma duration_sum_items:
  assumes "list_all item_ok ps" "d + sum_list (map item_value ps) \<le> 2 ^ 63"
  shows "duration_sum frac d (concat (map item_text ps)) = Some (d + sum_list (map item_value ps))"
  using assms
proof (induction ps arbitrary: d)
  case (Cons p ps)
  have "item_text p \<noteq> []" using Cons.prems by (auto simp: item_ok_def item_text_def)
  moreover have "duration_item frac (item_text p @ concat (map item_text ps)) = Some (item_value p, concat (map item_text ps))"
    using Cons.prems by (intro duration_item_text hd_items) auto
  ultimately show ?case
    using Cons by (simp add: duration_sum.simps [of _ _ "item_text p @ _"] add.assoc)
qed (simp add: duration_sum.simps)

lemma items_plain:
  assumes "list_all item_ok ps" "ps \<noteq> []"
  shows "\<not> HasPrefix (concat (map item_text ps)) ''-''" "\<not> HasPrefix (concat (map item_text ps)) ''+''"
    "concat (map item_text ps) \<noteq> ''0''" "concat (map item_text ps) \<noteq> []"
proof -
  obtain c cs u ps' where p: "ps = (c # cs, u) # ps'" "is_digit c" "unit_value u \<noteq> None"
    using assms by (cases ps) (auto simp: item_ok_def neq_Nil_conv)
  have "u \<noteq> []" using p(3) by auto
  have "c \<noteq> CHR ''-''" "c \<noteq> CHR ''+''" using p(2) by (auto simp: is_digit_def)
  then show "\<not> HasPrefix (concat (map item_text ps)) ''-''" "\<not> HasPrefix (concat (map item_text ps)) ''+''"
    by (auto simp: p item_text_def HasPrefix_def)
  show "concat (map item_text ps) \<noteq> ''0''" "concat (map item_text ps) \<noteq> []"
    using \<open>u \<noteq> []\<close> by (auto simp: p(1) item_text_def)
qed

lemma ParseDuration_items_ok:
  assumes "list_all item_ok ps" "ps \<noteq> []" "sum_list (map item_value ps) < 2 ^ 63"
  shows "ParseDuration frac (concat (map item_text ps)) = Inr (int (sum_list (map item_value ps)))"
  using duration_sum_items [OF assms(1), of 0 frac] items_plain [OF assms(1,2)] assms(3)
  by (simp add: ParseDuration_def)

section \<open>Accepted configurations\<close>

text \<open>
  C36. \<open>FromEnv\<close> returns a configuration exactly when the node name is given, the bootstrap mode
  is one of the four the agent knows, a discovery URL accompanies mode \<open>url\<close>, the TLS
  certificate and key are given together and the refresh interval is a duration; the
  configuration is then the environment's, with that interval.
\<close>

theorem FromEnv_ok_iff:
  "FromEnv frac env = Inr c \<longleftrightarrow>
    (\<exists>d. ParseDuration frac (getenv env ''SCION_REFRESH_INTERVAL'' ''1h'') = Inr d \<and>
      env ''NODE_NAME'' \<noteq> [] \<and>
      (getenv env ''SCION_BOOTSTRAP_MODE'' ''url'' = ''url'' \<and> env ''SCION_DISCOVERY_URL'' \<noteq> [] \<or>
       getenv env ''SCION_BOOTSTRAP_MODE'' ''url'' \<in> {''dns'', ''dhcp'', ''mdns''}) \<and>
      (env ''SCION_METRICS_TLS_CERT'' = []) = (env ''SCION_METRICS_TLS_KEY'' = []) \<and>
      c = (env_config env)\<lparr>RefreshInterval := d\<rparr>)"
  by (auto simp: FromEnv_def env_config_def Let_def split: sum.splits if_splits)

lemma FromEnv_fields:
  assumes "FromEnv frac env = Inr c"
  shows "\<exists>d. ParseDuration frac (getenv env ''SCION_REFRESH_INTERVAL'' ''1h'') = Inr d \<and>
    c = (env_config env)\<lparr>RefreshInterval := d\<rparr>"
  using assms by (auto simp: FromEnv_def Let_def split: sum.splits if_splits)

text \<open>
  A refresh interval of the form the custom resource admits (one or more numbers, each with
  a unit, no sign and no fraction) reaches the configuration as the sum of its parts, as long
  as that sum is below 2^63 nanoseconds, whatever the floating-point product of fractions is.
\<close>

theorem FromEnv_interval:
  assumes "list_all item_ok ps" "ps \<noteq> []" "sum_list (map item_value ps) < 2 ^ 63"
    and "env ''SCION_REFRESH_INTERVAL'' = concat (map item_text ps)"
    and "FromEnv frac env = Inr c"
  shows "RefreshInterval c = int (sum_list (map item_value ps))"
  using FromEnv_fields [OF assms(5)] ParseDuration_items_ok [OF assms(1-3), of frac]
    items_plain(4) [OF assms(1,2)] assms(4)
  by (auto simp: getenv_def)

definition ex_environ :: environ where
  "ex_environ k =
     (if k = ''NODE_NAME'' then ''worker-1''
      else if k = ''SCION_DISCOVERY_URL'' then ''http://192.0.2.1:8041''
      else if k = ''SCION_REFRESH_INTERVAL'' then ''1h30m''
      else [])"

theorem FromEnv_interval_witness:
  "\<exists>c. FromEnv (\<lambda>_ _ _. 0) ex_environ = Inr c \<and> RefreshInterval c = 5400 * 10 ^ 9"
proof -
  have items: "list_all item_ok [(''1'', ''h''), (''30'', ''m'')]"
    "sum_list (map item_value [(''1'', ''h''), (''30'', ''m'')]) = 5400 * 10 ^ 9"
    "ex_environ ''SCION_REFRESH_INTERVAL'' = concat (map item_text [(''1'', ''h''), (''30'', ''m'')])"
    "is_ok (FromEnv (\<lambda>_ _ _. 0) ex_environ)"
    by code_simp+
  from items(4) obtain c where c: "FromEnv (\<lambda>_ _ _. 0) ex_environ = Inr c"
    by (auto simp: is_ok_def split: sum.splits)
  show ?thesis
    using FromEnv_interval [OF items(1) _ _ items(3) c] c unfolding items(2) by simp
qed

end
