(* ===== verification/Files.thy ===== *)
theory Files
  imports Go_Map
begin

text \<open>
  The file operations of \<open>os\<close> and \<open>path/filepath\<close> the program uses, over an explicit disk
  that also records every state it goes through, so that what a concurrent reader or a crash
  can observe is a property of the record. Every call may fail: the environment decides
  which calls return an error and how much of a failing write reaches the file.

  \<open>file_replacer\<close> is the contract of replacing a file through a temporary file and a
  rename; both places where the program does that provide it.
\<close>

section \<open>Paths\<close>

fun clean_steps :: "bool \<Rightarrow> string list \<Rightarrow> string list \<Rightarrow> string list" where
  "clean_steps rooted acc [] = rev acc"
| "clean_steps rooted acc (c # cs) =
     (if c = [] \<or> c = ''.'' then clean_steps rooted acc cs
      else if c = ''..'' then
        (case acc of
           [] \<Rightarrow> clean_steps rooted (if rooted then [] else [''..'']) cs
         | t # ts \<Rightarrow> clean_steps rooted (if t = ''..'' then ''..'' # acc else ts) cs)
      else clean_steps rooted (c # acc) cs)"

definition Clean :: "string \<Rightarrow> string" where
  "Clean p =
     (let rooted = HasPrefix p ''/'';
          out = (if rooted then ''/'' else []) @ Join (clean_steps rooted [] (Split p CHR ''/'')) ''/''
      in if out = [] then ''.'' else out)"

definition path_join :: "string list \<Rightarrow> string" where
  "path_join ps = (let qs = filter (\<lambda>p. p \<noteq> []) ps in if qs = [] then [] else Clean (Join qs ''/''))"

text \<open>\<open>filepath.Split\<close>: the directory with its trailing slash, and the last element.\<close>

definition path_split :: "string \<Rightarrow> string \<times> string" where
  "path_split p =
     (rev (dropWhile (\<lambda>c. c \<noteq> CHR ''/'') (rev p)), rev (takeWhile (\<lambda>c. c \<noteq> CHR ''/'') (rev p)))"

definition path_dir :: "string \<Rightarrow> string" where
  "path_dir p = Clean (fst (path_split p))"

text \<open>The last element of a path with no trailing slash.\<close>

definition path_base :: "string \<Rightarrow> string" where
  "path_base p = (if p = [] then ''.'' else snd (path_split p))"

text \<open>
  The name \<open>CreateTemp\<close> picks for a directory and a pattern \<open>pre*suf\<close>; an empty directory is the
  default directory for temporary files.
\<close>

definition TempDir :: string where
  "TempDir = ''/tmp''"

definition temp_name :: "string \<Rightarrow> string \<Rightarrow> string \<Rightarrow> string \<Rightarrow> string" where
  "temp_name dir pre rnd suf =
     (let d = (if dir = [] then TempDir else dir)
      in (if HasSuffix d ''/'' then d else d @ ''/'') @ pre @ rnd @ suf)"

subsection \<open>Absolute paths\<close>

text \<open>
  Below an absolute directory, joined names have a normal form: a slash and the components,
  which determine the path.
\<close>

definition abs_path :: "string list \<Rightarrow> string" where
  "abs_path cs = CHR ''/'' # Join cs ''/''"

definition name_ok :: "string \<Rightarrow> bool" where
  "name_ok n = (n \<noteq> [] \<and> n \<noteq> ''.'' \<and> n \<noteq> ''..'' \<and> CHR ''/'' \<notin> set n)"

definition dir_steps :: "string \<Rightarrow> string list" where
  "dir_steps d = clean_steps True [] (Split d CHR ''/'')"

lemma clean_steps_append: "clean_steps r acc (xs @ ys) = clean_steps r (rev (clean_steps r acc xs)) ys"
  by (induction r acc xs rule: clean_steps.induct) (auto split: list.split)

lemma clean_steps_names: "list_all name_ok ns \<Longrightarrow> clean_steps r acc ns = rev acc @ ns"
  by (induction ns arbitrary: acc) (auto simp: name_ok_def)

lemma clean_steps_noslash:
  "\<forall>c \<in> set (acc @ cs). CHR ''/'' \<notin> set c \<Longrightarrow> \<forall>c \<in> set (clean_steps r acc cs). CHR ''/'' \<notin> set c"
  by (induction r acc cs rule: clean_steps.induct) (auto split: list.splits)

lemma dir_steps_noslash: "c \<in> set (dir_steps d) \<Longrightarrow> CHR ''/'' \<notin> set c"
  using clean_steps_noslash [of "[]" "Split d CHR ''/''" True] Split_pieces by (auto simp: dir_steps_def)

lemma Split_concat: "Split (s @ c # t) c = Split s c @ Split t c"
  by (induction s) (auto split: list.split)

lemma Split_Join_any: "xs \<noteq> [] \<Longrightarrow> Split (Join xs [c]) c = concat (map (\<lambda>x. Split x c) xs)"
  by (induction xs "[c]" rule: Join.induct) (auto simp: Split_concat)

lemma abs_path_inject:
  assumes "\<forall>c \<in> set xs. CHR ''/'' \<notin> set c" "\<forall>c \<in> set ys. CHR ''/'' \<notin> set c" "xs \<noteq> []" "ys \<noteq> []"
  shows "abs_path xs = abs_path ys \<longleftrightarrow> xs = ys"
proof
  assume "abs_path xs = abs_path ys"
  then have "Split (Join xs ''/'') CHR ''/'' = Split (Join ys ''/'') CHR ''/''" by (simp add: abs_path_def)
  then show "xs = ys" unfolding Split_Join [OF assms(3,1)] Split_Join [OF assms(4,2)] .
qed simp

lemma path_join_abs:
  assumes "HasPrefix d ''/''" "list_all (\<lambda>n. n \<noteq> [] \<and> CHR ''/'' \<notin> set n) ns"
  shows "path_join (d # ns) = abs_path (clean_steps True (rev (dir_steps d)) ns)"
proof -
  have d: "d \<noteq> []" using assms(1) by (auto simp: HasPrefix_def)
  have "filter (\<lambda>p. p \<noteq> []) ns = ns" using assms(2) by (simp add: filter_id_conv list_all_iff)
  then have "path_join (d # ns) = Clean (Join (d # ns) ''/'')" using d by (simp add: path_join_def)
  moreover have "HasPrefix (Join (d # ns) ''/'') ''/''"
    using assms(1) by (cases ns) (auto simp: HasPrefix_iff)
  moreover have "concat (map (\<lambda>x. Split x CHR ''/'') ns) = ns"
    using assms(2) by (induction ns) (auto simp: Split_nosep)
  then have "Split (Join (d # ns) ''/'') CHR ''/'' = Split d CHR ''/'' @ ns"
    using Split_Join_any [of "d # ns" "CHR ''/''"] by simp
  ultimately show ?thesis
    by (simp add: Clean_def Let_def clean_steps_append dir_steps_def abs_path_def)
qed

lemma path_join_names:
  assumes "HasPrefix d ''/''" "list_all name_ok ns"
  shows "path_join (d # ns) = abs_path (dir_steps d @ ns)"
  using path_join_abs [OF assms(1), of ns] assms(2)
  by (auto simp: clean_steps_names list_all_iff name_ok_def)

lemma Join_snoc: "xs \<noteq> [] \<Longrightarrow> Join (xs @ [x]) sep = Join xs sep @ sep @ x"
  by (induction xs sep rule: Join.induct) auto

lemma path_split_abs:
  assumes "CHR ''/'' \<notin> set n"
  shows "path_split (abs_path (cs @ [n])) = (if cs = [] then ''/'' else abs_path cs @ ''/'', n)"
proof -
  have "path_split (s @ CHR ''/'' # n) = (s @ ''/'', n)" for s
  proof -
    have "takeWhile (\<lambda>c. c \<noteq> CHR ''/'') (rev n @ CHR ''/'' # rev s) = rev n"
      "dropWhile (\<lambda>c. c \<noteq> CHR ''/'') (rev n @ CHR ''/'' # rev s) = CHR ''/'' # rev s"
      using assms by (subst takeWhile_append2 dropWhile_append2; auto)+
    then show ?thesis by (simp add: path_split_def)
  qed
  from this [of "[]"] this [of "abs_path cs"] show ?thesis by (auto simp: abs_path_def Join_snoc)
qed

section \<open>Disk\<close>

record fsfile =
  Content :: string
  Mode :: nat

definition mode600 :: nat where "mode600 = 6 * 64"
definition mode644 :: nat where "mode644 = 6 * 64 + 4 * 8 + 4"

type_synonym fs = "fsfile gomap"

datatype fsop = OpRead | OpStat | OpMkdir | OpCreate | OpWrite | OpSync | OpChmod | OpClose | OpRename | OpRemove

record fsenv =
  Fault :: "fsop \<Rightarrow> string \<Rightarrow> goerror option"
  Short :: nat
  Random :: string

record io =
  Disk :: fs
  History :: "fs list"

type_synonym outcome = "goerror option \<times> io"

definition ReadFile :: "fsenv \<Rightarrow> string \<Rightarrow> io \<Rightarrow> string result" where
  "ReadFile env p s =
     (case Fault env OpRead p of
        Some e \<Rightarrow> Inl e
      | None \<Rightarrow> (case mget (Disk s) p of None \<Rightarrow> Inl (ErrNotExist p) | Some f \<Rightarrow> Inr (Content f)))"

definition Stat :: "fsenv \<Rightarrow> string \<Rightarrow> io \<Rightarrow> nat result" where
  "Stat env p s =
     (case Fault env OpStat p of
        Some e \<Rightarrow> Inl e
      | None \<Rightarrow> (case mget (Disk s) p of None \<Rightarrow> Inl (ErrNotExist p) | Some f \<Rightarrow> Inr (Mode f)))"

definition mutate :: "fs \<Rightarrow> io \<Rightarrow> io" where
  "mutate d s = s\<lparr>Disk := d, History := History s @ [d]\<rparr>"

definition guarded :: "fsenv \<Rightarrow> fsop \<Rightarrow> string \<Rightarrow> (io \<Rightarrow> outcome) \<Rightarrow> io \<Rightarrow> outcome" where
  "guarded env op p f s = (case Fault env op p of Some e \<Rightarrow> (Some e, s) | None \<Rightarrow> f s)"

definition and_then :: "outcome \<Rightarrow> (io \<Rightarrow> outcome) \<Rightarrow> outcome" where
  "and_then r f = (case fst r of None \<Rightarrow> f (snd r) | Some e \<Rightarrow> r)"

definition set_file :: "string \<Rightarrow> fsfile \<Rightarrow> io \<Rightarrow> io" where
  "set_file p f s = mutate (mput p f (Disk s)) s"

text \<open>\<open>CreateTemp\<close> opens the file exclusively: an existing name is an error.\<close>

definition CreateTemp :: "fsenv \<Rightarrow> string \<Rightarrow> io \<Rightarrow> outcome" where
  "CreateTemp env p =
     guarded env OpCreate p (\<lambda>s.
       if mget (Disk s) p \<noteq> None then (Some (Err ''file exists''), s)
       else (None, set_file p \<lparr>Content = [], Mode = mode600\<rparr> s))"

definition update_file :: "string \<Rightarrow> (fsfile \<Rightarrow> fsfile) \<Rightarrow> io \<Rightarrow> io" where
  "update_file p g s = (case mget (Disk s) p of None \<Rightarrow> s | Some f \<Rightarrow> set_file p (g f) s)"

definition Write :: "fsenv \<Rightarrow> string \<Rightarrow> string \<Rightarrow> io \<Rightarrow> outcome" where
  "Write env p data s =
     (case Fault env OpWrite p of
        Some e \<Rightarrow> (Some e, update_file p (\<lambda>f. f\<lparr>Content := take (Short env) data\<rparr>) s)
      | None \<Rightarrow> (None, update_file p (\<lambda>f. f\<lparr>Content := data\<rparr>) s))"

definition Sync :: "fsenv \<Rightarrow> string \<Rightarrow> io \<Rightarrow> outcome" where
  "Sync env p = guarded env OpSync p (\<lambda>s. (None, s))"

definition Chmod :: "fsenv \<Rightarrow> string \<Rightarrow> nat \<Rightarrow> io \<Rightarrow> outcome" where
  "Chmod env p m = guarded env OpChmod p (\<lambda>s. (None, update_file p (\<lambda>f. f\<lparr>Mode := m\<rparr>) s))"

definition Close :: "fsenv \<Rightarrow> string \<Rightarrow> io \<Rightarrow> outcome" where
  "Close env p = guarded env OpClose p (\<lambda>s. (None, s))"

definition Rename :: "fsenv \<Rightarrow> string \<Rightarrow> string \<Rightarrow> io \<Rightarrow> outcome" where
  "Rename env p q =
     guarded env OpRename q (\<lambda>s.
       case mget (Disk s) p of
         None \<Rightarrow> (Some (ErrNotExist p), s)
       | Some f \<Rightarrow> (None, mutate (mput q f (mdel_if (\<lambda>k. k = p) (Disk s))) s))"

text \<open>A deferred \<open>Remove\<close>, its error ignored.\<close>

definition Remove :: "fsenv \<Rightarrow> string \<Rightarrow> io \<Rightarrow> io" where
  "Remove env p s =
     (if Fault env OpRemove p = None \<and> mget (Disk s) p \<noteq> None
      then mutate (mdel_if (\<lambda>k. k = p) (Disk s)) s else s)"

text \<open>\<open>WriteFile\<close> truncates an existing file, keeping its mode, and fills it in place.\<close>

definition WriteFile :: "fsenv \<Rightarrow> string \<Rightarrow> string \<Rightarrow> nat \<Rightarrow> io \<Rightarrow> outcome" where
  "WriteFile env p data m =
     guarded env OpCreate p (\<lambda>s.
       let f = (case mget (Disk s) p of None \<Rightarrow> \<lparr>Content = [], Mode = m\<rparr> | Some f \<Rightarrow> f\<lparr>Content := []\<rparr>)
       in and_then (Write env p data (set_file p f s)) (Close env p))"

text \<open>
  The shape both writers share: create the temporary file, fill it (\<open>fill\<close>), rename it over
  the target; the deferred removal runs on every path.
\<close>

definition via_temp :: "fsenv \<Rightarrow> string \<Rightarrow> (io \<Rightarrow> outcome) \<Rightarrow> string \<Rightarrow> io \<Rightarrow> outcome" where
  "via_temp env tmp fill path s =
     and_then (CreateTemp env tmp s) (\<lambda>s1.
       let r = and_then (fill s1) (Rename env tmp path) in (fst r, Remove env tmp (snd r)))"

text \<open>Creating the missing directories of a path leaves the files alone.\<close>

definition MkdirAll :: "fsenv \<Rightarrow> string \<Rightarrow> io \<Rightarrow> goerror option" where
  "MkdirAll env p s = Fault env OpMkdir p"

section \<open>Replacing a file\<close>

text \<open>Only the file \<open>tmp\<close> changed, now and in every state on the way.\<close>

definition only_tmp :: "string \<Rightarrow> io \<Rightarrow> io \<Rightarrow> bool" where
  "only_tmp tmp s s' \<longleftrightarrow> map_ok (Disk s') \<and> (\<forall>q. q \<noteq> tmp \<longrightarrow> mget (Disk s') q = mget (Disk s) q) \<and>
     (\<exists>hs. History s' = History s @ hs \<and> (\<forall>d \<in> set hs. \<forall>q. q \<noteq> tmp \<longrightarrow> mget d q = mget (Disk s) q))"

lemma only_tmp_refl: "map_ok (Disk s) \<Longrightarrow> only_tmp tmp s s"
  by (simp add: only_tmp_def)

lemma only_tmp_trans: "only_tmp tmp s t \<Longrightarrow> only_tmp tmp t u \<Longrightarrow> only_tmp tmp s u"
  by (auto simp: only_tmp_def)

lemma only_tmp_map_ok: "only_tmp tmp s t \<Longrightarrow> map_ok (Disk t)"
  by (simp add: only_tmp_def)

lemma only_tmp_mutate:
  "map_ok d \<Longrightarrow> (\<And>q. q \<noteq> tmp \<Longrightarrow> mget d q = mget (Disk s) q) \<Longrightarrow> only_tmp tmp s (mutate d s)"
  by (simp add: only_tmp_def mutate_def)

lemma only_tmp_update: "map_ok (Disk s) \<Longrightarrow> only_tmp tmp s (update_file tmp g s)"
  by (auto simp: update_file_def set_file_def map_ok_mput mget_mput only_tmp_refl
      intro!: only_tmp_mutate split: option.split)

lemma mget_update: "map_ok (Disk s) \<Longrightarrow> mget (Disk (update_file p g s)) p = map_option g (mget (Disk s) p)"
  by (auto simp: update_file_def set_file_def mutate_def mget_mput split: option.split)

text \<open>An operation on the temporary file: it touches nothing else and maps its content by \<open>g\<close>.\<close>

definition on_tmp :: "string \<Rightarrow> (fsfile \<Rightarrow> fsfile) \<Rightarrow> (io \<Rightarrow> outcome) \<Rightarrow> bool" where
  "on_tmp tmp g op \<longleftrightarrow> (\<forall>s. map_ok (Disk s) \<longrightarrow> only_tmp tmp s (snd (op s)) \<and>
     (fst (op s) = None \<longrightarrow> mget (Disk (snd (op s))) tmp = map_option g (mget (Disk s) tmp)))"

lemma on_tmp_ops:
  "on_tmp tmp (\<lambda>f. f\<lparr>Content := data\<rparr>) (Write env tmp data)"
  "on_tmp tmp (\<lambda>f. f) (Sync env tmp)"
  "on_tmp tmp (\<lambda>f. f\<lparr>Mode := m\<rparr>) (Chmod env tmp m)"
  "on_tmp tmp (\<lambda>f. f) (Close env tmp)"
  by (auto simp: on_tmp_def Write_def Sync_def Chmod_def Close_def guarded_def only_tmp_update only_tmp_refl
      mget_update option.map_ident split: option.split)

lemma on_tmp_and_then:
  assumes "on_tmp tmp g op" "on_tmp tmp h op'"
  shows "on_tmp tmp (\<lambda>f. h (g f)) (\<lambda>s. and_then (op s) op')"
  unfolding on_tmp_def
proof (intro allI impI)
  fix s :: io
  assume s: "map_ok (Disk s)"
  let ?t = "snd (op s)"
  from assms(1) s have t: "only_tmp tmp s ?t"
    "fst (op s) = None \<longrightarrow> mget (Disk ?t) tmp = map_option g (mget (Disk s) tmp)"
    by (auto simp: on_tmp_def)
  with assms(2) only_tmp_map_ok have "only_tmp tmp ?t (snd (op' ?t))"
    "fst (op' ?t) = None \<longrightarrow> mget (Disk (snd (op' ?t))) tmp = map_option h (mget (Disk ?t) tmp)"
    by (auto simp: on_tmp_def)
  with t show "only_tmp tmp s (snd (and_then (op s) op')) \<and>
      (fst (and_then (op s) op') = None \<longrightarrow>
        mget (Disk (snd (and_then (op s) op'))) tmp = map_option (\<lambda>f. h (g f)) (mget (Disk s) tmp))"
    by (auto simp: and_then_def option.map_comp comp_def intro: only_tmp_trans split: option.split)
qed

lemma WriteFile_effect:
  assumes "map_ok (Disk s)"
  shows "map_ok (Disk (snd (WriteFile env p data m s)))"
    and "q \<noteq> p \<Longrightarrow> mget (Disk (snd (WriteFile env p data m s))) q = mget (Disk s) q"
    and "fst (WriteFile env p data m s) = None \<Longrightarrow>
      \<exists>f. mget (Disk (snd (WriteFile env p data m s))) p = Some f \<and> Content f = data"
proof -
  let ?f = "case mget (Disk s) p of None \<Rightarrow> \<lparr>Content = [], Mode = m\<rparr> | Some f \<Rightarrow> f\<lparr>Content := []\<rparr>"
  let ?s1 = "set_file p ?f s"
  have s1: "map_ok (Disk ?s1)" "only_tmp p s ?s1" "mget (Disk ?s1) p = Some ?f"
    using assms by (auto simp: set_file_def map_ok_mput mget_mput only_tmp_def mutate_def)
  have op: "on_tmp p (\<lambda>f. f\<lparr>Content := data\<rparr>) (\<lambda>s. and_then (Write env p data s) (Close env p))"
    using on_tmp_and_then [OF on_tmp_ops(1,4)] .
  let ?r = "and_then (Write env p data ?s1) (Close env p)"
  have r: "only_tmp p s (snd ?r)" "fst ?r = None \<Longrightarrow> mget (Disk (snd ?r)) p = Some (?f\<lparr>Content := data\<rparr>)"
    using op s1 only_tmp_trans [OF s1(2)] by (auto simp: on_tmp_def)
  have cases: "WriteFile env p data m s = (case Fault env OpCreate p of Some e \<Rightarrow> (Some e, s) | None \<Rightarrow> ?r)"
    by (simp add: WriteFile_def guarded_def Let_def)
  show "map_ok (Disk (snd (WriteFile env p data m s)))"
    using r(1) assms by (auto simp: cases dest: only_tmp_map_ok split: option.split)
  show "q \<noteq> p \<Longrightarrow> mget (Disk (snd (WriteFile env p data m s))) q = mget (Disk s) q"
    using r(1) by (auto simp: cases only_tmp_def split: option.split)
  show "fst (WriteFile env p data m s) = None \<Longrightarrow>
      \<exists>f. mget (Disk (snd (WriteFile env p data m s))) p = Some f \<and> Content f = data"
    using r(2) by (auto simp: cases split: option.splits)
qed

text \<open>What replacing the file \<open>path\<close> by \<open>f\<close> promises: all or nothing, at every moment.\<close>

definition replaced :: "string \<Rightarrow> string \<Rightarrow> fsfile \<Rightarrow> io \<Rightarrow> outcome \<Rightarrow> bool" where
  "replaced tmp path f s r \<longleftrightarrow>
     map_ok (Disk (snd r)) \<and>
     mget (Disk (snd r)) path = (if fst r = None then Some f else mget (Disk s) path) \<and>
     (\<forall>q. q \<noteq> path \<and> q \<noteq> tmp \<longrightarrow> mget (Disk (snd r)) q = mget (Disk s) q) \<and>
     (\<exists>hs. History (snd r) = History s @ hs \<and>
        (\<forall>d \<in> set hs. (mget d path = mget (Disk s) path \<or> mget d path = Some f) \<and>
          (\<forall>q. q \<noteq> path \<and> q \<noteq> tmp \<longrightarrow> mget d q = mget (Disk s) q)))"

lemma only_tmp_replaced:
  assumes "only_tmp tmp s s'" "tmp \<noteq> path"
  shows "replaced tmp path f s (Some e, s')"
  using assms by (auto simp: only_tmp_def replaced_def)

lemma only_tmp_Remove: "map_ok (Disk s) \<Longrightarrow> only_tmp tmp s (Remove env tmp s)"
  by (auto simp: Remove_def map_ok_mdel_if mget_mdel_if intro!: only_tmp_mutate only_tmp_refl)

lemma only_tmp_CreateTemp:
  "map_ok (Disk s) \<Longrightarrow> only_tmp tmp s (snd (CreateTemp env tmp s)) \<and>
    (fst (CreateTemp env tmp s) = None \<longrightarrow> mget (Disk (snd (CreateTemp env tmp s))) tmp = Some \<lparr>Content = [], Mode = mode600\<rparr>)"
  by (auto simp: CreateTemp_def guarded_def set_file_def map_ok_mput mget_mput only_tmp_refl
      intro!: only_tmp_mutate split: option.split) (simp add: mutate_def mget_mput)

lemma replaced_Rename:
  assumes t: "only_tmp tmp s t" and "tmp \<noteq> path" and f: "mget (Disk t) tmp = Some f"
  shows "replaced tmp path f s (Rename env tmp path t)"
proof (cases "Fault env OpRename path")
  case None
  let ?d = "mput path f (mdel_if (\<lambda>k. k = tmp) (Disk t))"
  have "Rename env tmp path t = (None, mutate ?d t)" using None f by (simp add: Rename_def guarded_def)
  moreover have "map_ok ?d" using only_tmp_map_ok [OF t] by (simp add: map_ok_mput map_ok_mdel_if)
  moreover have "mget ?d q = (if q = path then Some f else if q = tmp then None else mget (Disk t) q)" for q
    by (simp add: mget_mput mget_mdel_if)
  moreover from t have "\<forall>q. q \<noteq> tmp \<longrightarrow> mget (Disk t) q = mget (Disk s) q" by (simp add: only_tmp_def)
  ultimately show ?thesis
    using t \<open>tmp \<noteq> path\<close> by (auto simp: replaced_def mutate_def only_tmp_def)
next
  case (Some e)
  then show ?thesis
    using only_tmp_replaced [OF assms(1,2)] by (simp add: Rename_def guarded_def)
qed

lemma replaced_Remove:
  assumes r: "replaced tmp path f s r" and "tmp \<noteq> path"
  shows "replaced tmp path f s (fst r, Remove env tmp (snd r))"
proof -
  let ?t = "Remove env tmp (snd r)"
  from r obtain hs where hs: "History (snd r) = History s @ hs"
    "\<forall>d \<in> set hs. (mget d path = mget (Disk s) path \<or> mget d path = Some f) \<and>
      (\<forall>q. q \<noteq> path \<and> q \<noteq> tmp \<longrightarrow> mget d q = mget (Disk s) q)"
    and d: "mget (Disk (snd r)) path = (if fst r = None then Some f else mget (Disk s) path)"
      "\<forall>q. q \<noteq> path \<and> q \<noteq> tmp \<longrightarrow> mget (Disk (snd r)) q = mget (Disk s) q"
    by (auto simp: replaced_def)
  have "only_tmp tmp (snd r) ?t"
    using r by (intro only_tmp_Remove) (simp add: replaced_def)
  then obtain hs' where t: "History ?t = History (snd r) @ hs'" "map_ok (Disk ?t)"
    "\<forall>x \<in> set hs'. \<forall>q. q \<noteq> tmp \<longrightarrow> mget x q = mget (Disk (snd r)) q"
    "\<forall>q. q \<noteq> tmp \<longrightarrow> mget (Disk ?t) q = mget (Disk (snd r)) q"
    by (auto simp: only_tmp_def)
  with hs d \<open>tmp \<noteq> path\<close> have "History ?t = History s @ (hs @ hs')"
    "\<forall>x \<in> set (hs @ hs'). (mget x path = mget (Disk s) path \<or> mget x path = Some f) \<and>
      (\<forall>q. q \<noteq> path \<and> q \<noteq> tmp \<longrightarrow> mget x q = mget (Disk s) q)"
    by auto
  with t(2,4) d \<open>tmp \<noteq> path\<close> show ?thesis unfolding replaced_def by (intro conjI exI [of _ "hs @ hs'"]) auto
qed

lemma via_temp_replaced:
  assumes fill: "on_tmp tmp g fill" and "tmp \<noteq> path \<or> mget (Disk s) path \<noteq> None" and s: "map_ok (Disk s)"
  shows "replaced tmp path (g \<lparr>Content = [], Mode = mode600\<rparr>) s (via_temp env tmp fill path s)"
proof (cases "fst (CreateTemp env tmp s)")
  case None
  let ?s1 = "snd (CreateTemp env tmp s)" and ?f = "g \<lparr>Content = [], Mode = mode600\<rparr>"
  from None assms(2) have tmp: "tmp \<noteq> path"
    by (auto simp: CreateTemp_def guarded_def split: option.splits if_splits)
  have s1: "only_tmp tmp s ?s1" "mget (Disk ?s1) tmp = Some \<lparr>Content = [], Mode = mode600\<rparr>"
    using only_tmp_CreateTemp [OF s] None by auto
  with fill have s2: "only_tmp tmp s (snd (fill ?s1))"
    "fst (fill ?s1) = None \<Longrightarrow> mget (Disk (snd (fill ?s1))) tmp = Some ?f"
    by (auto simp: on_tmp_def dest: only_tmp_map_ok intro: only_tmp_trans)
  have "replaced tmp path ?f s (and_then (fill ?s1) (Rename env tmp path))"
  proof (cases "fst (fill ?s1)")
    case None
    with replaced_Rename [OF s2(1) tmp s2(2)] show ?thesis by (simp add: and_then_def)
  next
    case (Some e)
    with only_tmp_replaced [OF s2(1) tmp] show ?thesis by (cases "fill ?s1") (simp add: and_then_def)
  qed
  from replaced_Remove [OF this tmp, of env] None show ?thesis
    by (simp add: via_temp_def and_then_def [of "CreateTemp env tmp s"] Let_def)
next
  case (Some e)
  then have "CreateTemp env tmp s = (Some e, s)"
    by (auto simp: CreateTemp_def guarded_def split: option.splits if_splits)
  then show ?thesis using s by (simp add: via_temp_def and_then_def replaced_def)
qed

section \<open>Writing several files\<close>

text \<open>
  The contract of writing a list of files one after the other, temporary names in \<open>T\<close>
  apart: at every moment each file is what it was or one of the complete new ones, and
  after a success every listed file is the new one.
\<close>

definition may_hold :: "(string \<times> fsfile) list \<Rightarrow> io \<Rightarrow> string \<Rightarrow> fsfile option set" where
  "may_hold ws s q = insert (mget (Disk s) q) {Some f |f. (q, f) \<in> set ws}"

definition all_or_old :: "(string \<times> fsfile) list \<Rightarrow> string set \<Rightarrow> io \<Rightarrow> outcome \<Rightarrow> bool" where
  "all_or_old ws T s r \<longleftrightarrow>
     map_ok (Disk (snd r)) \<and>
     (\<exists>hs. History (snd r) = History s @ hs \<and>
        (\<forall>d \<in> set (Disk (snd r) # hs). \<forall>q. q \<notin> T \<longrightarrow> mget d q \<in> may_hold ws s q)) \<and>
     (fst r = None \<longrightarrow> distinct (map fst ws) \<longrightarrow>
        (\<forall>(q, f) \<in> set ws. q \<notin> T \<longrightarrow> mget (Disk (snd r)) q = Some f))"

lemma replaced_all_or_old:
  assumes "replaced tmp p f s r" "tmp \<in> T"
  shows "all_or_old [(p, f)] T s r"
  using assms unfolding all_or_old_def replaced_def may_hold_def
  by (auto split: if_splits) metis+

lemma all_or_old_Nil: "map_ok (Disk s) \<Longrightarrow> all_or_old [] T s (None, s)"
  by (simp add: all_or_old_def may_hold_def)

lemma all_or_old_stop: "all_or_old ws T s r \<Longrightarrow> fst r \<noteq> None \<Longrightarrow> all_or_old (ws @ ws') T s r"
proof -
  have "may_hold ws s q \<subseteq> may_hold (ws @ ws') s q" for q by (auto simp: may_hold_def)
  then show "all_or_old ws T s r \<Longrightarrow> fst r \<noteq> None \<Longrightarrow> all_or_old (ws @ ws') T s r"
    unfolding all_or_old_def by blast
qed

lemma all_or_old_append:
  assumes w: "all_or_old ws T s (None, t)" and w': "all_or_old ws' T t r"
  shows "all_or_old (ws @ ws') T s r"
proof -
  from w obtain hs where hs: "History t = History s @ hs"
    "\<forall>d \<in> set (Disk t # hs). \<forall>q. q \<notin> T \<longrightarrow> mget d q \<in> may_hold ws s q"
    by (auto simp: all_or_old_def)
  from w' obtain hs' where hs': "History (snd r) = History t @ hs'" "map_ok (Disk (snd r))"
    "\<forall>d \<in> set (Disk (snd r) # hs'). \<forall>q. q \<notin> T \<longrightarrow> mget d q \<in> may_hold ws' t q"
    by (auto simp: all_or_old_def)
  have "may_hold ws' t q \<subseteq> may_hold (ws @ ws') s q" if "q \<notin> T" for q
    using that hs(2) by (auto simp: may_hold_def)
  moreover have "may_hold ws s q \<subseteq> may_hold (ws @ ws') s q" for q by (auto simp: may_hold_def)
  ultimately have "\<forall>d \<in> set (Disk (snd r) # hs @ hs'). \<forall>q. q \<notin> T \<longrightarrow> mget d q \<in> may_hold (ws @ ws') s q"
    using hs(2) hs'(3) by auto blast+
  moreover have "mget (Disk (snd r)) q = Some f"
    if "fst r = None" "distinct (map fst (ws @ ws'))" "(q, f) \<in> set (ws @ ws')" "q \<notin> T" for q f
  proof (cases "(q, f) \<in> set ws'")
    case False
    then have q: "(q, f) \<in> set ws" "q \<notin> fst ` set ws'" using that(2,3) by force+
    have "mget (Disk t) q = Some f" using w that(2,4) q(1) by (auto simp: all_or_old_def)
    moreover have "mget (Disk (snd r)) q \<in> may_hold ws' t q" using hs'(3) that(4) by simp
    moreover have "(q, g) \<notin> set ws'" for g using q(2) by force
    ultimately show ?thesis by (auto simp: may_hold_def)
  qed (use w' that in \<open>auto simp: all_or_old_def\<close>)
  ultimately show ?thesis unfolding all_or_old_def
    using hs'(1,2) hs(1) by (intro conjI exI [of _ "hs @ hs'"]) auto
qed

text \<open>
  The interface of a replacing writer: \<open>pre\<close> is what it needs of the target.
\<close>

locale file_replacer =
  fixes replace :: "fsenv \<Rightarrow> string \<Rightarrow> string \<Rightarrow> io \<Rightarrow> outcome"
    and tmp :: "fsenv \<Rightarrow> string \<Rightarrow> string"
    and mode :: nat
    and pre :: "string \<Rightarrow> io \<Rightarrow> bool"
  assumes replaces: "map_ok (Disk s) \<Longrightarrow> pre p s \<Longrightarrow>
    replaced (tmp env p) p \<lparr>Content = data, Mode = mode\<rparr> s (replace env p data s)"
begin

text \<open>A reader sees the old file after an error and the complete new one after a success.\<close>

lemma read_back:
  assumes "map_ok (Disk s)" "pre p s" "Fault env' OpRead p = None"
  shows "ReadFile env' p (snd (replace env p data s)) =
    (if fst (replace env p data s) = None then Inr data else ReadFile env' p s)"
  using replaces [OF assms(1,2), of env data] assms(3) by (auto simp: replaced_def ReadFile_def)

lemma never_partial:
  assumes "map_ok (Disk s)" "pre p s"
  shows "\<exists>hs. History (snd (replace env p data s)) = History s @ hs \<and>
    (\<forall>d \<in> set hs. mget d p \<in> {mget (Disk s) p, Some \<lparr>Content = data, Mode = mode\<rparr>})"
  using replaces [OF assms, of env data] by (auto simp: replaced_def)

end

text \<open>A writer without conditions can write one file after the other.\<close>

locale file_writer = file_replacer +
  assumes always: "pre p s"
begin

fun write_all :: "fsenv \<Rightarrow> (string \<times> string) list \<Rightarrow> io \<Rightarrow> outcome" where
  "write_all env [] s = (None, s)"
| "write_all env ((p, data) # ws) s = and_then (replace env p data s) (write_all env ws)"

lemma write_all_single: "write_all env [(p, data)] s = replace env p data s"
  by (cases "replace env p data s") (auto simp: and_then_def split: option.split)

lemma write_all_append: "write_all env (ws @ ws') s = and_then (write_all env ws s) (write_all env ws')"
  by (induction env ws s rule: write_all.induct) (auto simp: and_then_def split: option.split)

lemma write_all_atomic:
  assumes "map_ok (Disk s)" "\<forall>(p, data) \<in> set ws. tmp env p \<in> T"
  shows "all_or_old (map (\<lambda>(p, data). (p, \<lparr>Content = data, Mode = mode\<rparr>)) ws) T s (write_all env ws s)"
  using assms
proof (induction ws arbitrary: s)
  case (Cons w ws)
  obtain p data where w: "w = (p, data)" by (cases w)
  let ?r = "replace env p data s"
  have r: "all_or_old [(p, \<lparr>Content = data, Mode = mode\<rparr>)] T s ?r"
    using replaced_all_or_old [OF replaces [OF Cons.prems(1) always]] Cons.prems(2) w by auto
  show ?case
  proof (cases "fst ?r")
    case None
    then have "all_or_old [(p, \<lparr>Content = data, Mode = mode\<rparr>)] T s (None, snd ?r)"
      using r by (metis prod.collapse)
    from all_or_old_append [OF this Cons.IH [of "snd ?r"]] r Cons.prems(2) None show ?thesis
      by (simp add: w and_then_def all_or_old_def [of _ _ _ "replace env p data s"])
  next
    case (Some e)
    with all_or_old_stop [OF r] show ?thesis by (simp add: w and_then_def)
  qed
qed (simp add: all_or_old_Nil)

text \<open>A file that is not listed keeps its content throughout.\<close>

lemma write_all_others:
  assumes s: "map_ok (Disk s)" and T: "\<forall>(q, x) \<in> set ws. tmp env q \<in> T" and p: "p \<notin> fst ` set ws" "p \<notin> T"
  shows "\<exists>hs. History (snd (write_all env ws s)) = History s @ hs \<and>
    (\<forall>d \<in> set (Disk (snd (write_all env ws s)) # hs). mget d p = mget (Disk s) p)"
proof -
  let ?file = "\<lambda>(q, x). (q, \<lparr>Content = x, Mode = mode\<rparr>)"
  have "may_hold (map ?file ws) s p = {mget (Disk s) p}" using p(1) by (force simp: may_hold_def)
  moreover obtain hs where "History (snd (write_all env ws s)) = History s @ hs"
    "\<forall>d \<in> set (Disk (snd (write_all env ws s)) # hs). \<forall>q. q \<notin> T \<longrightarrow> mget d q \<in> may_hold (map ?file ws) s q"
    using write_all_atomic [OF s T] unfolding all_or_old_def by blast
  ultimately show ?thesis using p(2) by (intro exI [of _ hs]) blast
qed

text \<open>The last file of the list changes only once all others are in place, and only by a success.\<close>

lemma write_all_last:
  assumes s: "map_ok (Disk s)" and T: "\<forall>(q, x) \<in> set (ws @ [(p, data)]). tmp env q \<in> T"
    and ws: "distinct (map fst ws)" "p \<notin> fst ` set ws" "fst ` set (ws @ [(p, data)]) \<inter> T = {}"
    and r: "r = write_all env (ws @ [(p, data)]) s"
  shows "\<exists>hs. History (snd r) = History s @ hs \<and>
    (\<forall>d \<in> set (Disk (snd r) # hs). mget d p = mget (Disk s) p \<or>
      (\<forall>(q, x) \<in> set ws. mget d q = Some \<lparr>Content = x, Mode = mode\<rparr>))"
    and "fst r \<noteq> None \<Longrightarrow> mget (Disk (snd r)) p = mget (Disk s) p"
proof -
  let ?t = "write_all env ws s" and ?file = "\<lambda>(q, x). (q, \<lparr>Content = x, Mode = mode\<rparr>)"
  have Tws: "\<forall>(q, x) \<in> set ws. tmp env q \<in> T" and p: "p \<notin> T" using T ws(3) by auto
  have t: "all_or_old (map ?file ws) T s ?t" by (rule write_all_atomic [OF s Tws])
  obtain hs where hs: "History (snd ?t) = History s @ hs" "\<forall>d \<in> set (Disk (snd ?t) # hs). mget d p = mget (Disk s) p"
    using write_all_others [OF s Tws ws(2) p] by blast
  have "(\<exists>hs. History (snd r) = History s @ hs \<and>
    (\<forall>d \<in> set (Disk (snd r) # hs). mget d p = mget (Disk s) p \<or>
      (\<forall>(q, x) \<in> set ws. mget d q = Some \<lparr>Content = x, Mode = mode\<rparr>))) \<and>
    (fst r \<noteq> None \<longrightarrow> mget (Disk (snd r)) p = mget (Disk s) p)"
  proof (cases "fst ?t")
    case None
    have new: "\<forall>(q, x) \<in> set ws. mget (Disk (snd ?t)) q = Some \<lparr>Content = x, Mode = mode\<rparr>"
      using t None ws(1,3) by (fastforce simp: all_or_old_def comp_def case_prod_beta)
    have r': "r = replace env p data (snd ?t)"
      using None by (simp add: r write_all_append and_then_def [of "write_all env ws s"] write_all_single del: write_all.simps)
    have rep: "replaced (tmp env p) p \<lparr>Content = data, Mode = mode\<rparr> (snd ?t) r"
      unfolding r' using t by (intro replaces always) (simp add: all_or_old_def)
    then obtain hs' where hs': "History (snd r) = History (snd ?t) @ hs'"
      "\<forall>d \<in> set (Disk (snd r) # hs'). \<forall>q. q \<noteq> p \<and> q \<noteq> tmp env p \<longrightarrow> mget d q = mget (Disk (snd ?t)) q"
      by (auto simp: replaced_def)
    have "q \<noteq> p \<and> q \<noteq> tmp env p" if "(q, x) \<in> set ws" for q x
      using that ws(2,3) T by force
    with hs'(2) new have "\<forall>d \<in> set (Disk (snd r) # hs'). \<forall>(q, x) \<in> set ws. mget d q = Some \<lparr>Content = x, Mode = mode\<rparr>"
      by auto
    moreover have "fst r \<noteq> None \<longrightarrow> mget (Disk (snd r)) p = mget (Disk s) p"
      using rep hs(2) by (auto simp: replaced_def)
    ultimately show ?thesis using hs hs'(1) by (intro conjI exI [of _ "hs @ hs'"]) auto
  next
    case (Some e)
    then have "r = ?t" by (simp add: r write_all_append and_then_def)
    with hs show ?thesis by auto
  qed
  then show "\<exists>hs. History (snd r) = History s @ hs \<and>
    (\<forall>d \<in> set (Disk (snd r) # hs). mget d p = mget (Disk s) p \<or>
      (\<forall>(q, x) \<in> set ws. mget d q = Some \<lparr>Content = x, Mode = mode\<rparr>))"
    and "fst r \<noteq> None \<Longrightarrow> mget (Disk (snd r)) p = mget (Disk s) p"
    by blast+
qed

end

end
