(* ===== verification/Json.thy ===== *)
theory Json
  imports Go_Map
begin

text \<open>
  The parts of the Go standard library package \<open>encoding/json\<close> the program uses: the
  scanner (syntax check and raw tokens), \<open>Marshal\<close> and \<open>MarshalIndent\<close>, and decoding into
  maps, structs, slices and strings.

  A document is kept with its string and number literals as written, the way
  \<open>json.RawMessage\<close> keeps them; \<open>unquote\<close> decodes a literal when the program asks for a
  string. Bytes above 0x7F are taken to be valid UTF-8 and pass through unchanged.

  The main result is that the scanner reads back whatever the printers write.
\<close>

section \<open>Documents\<close>

datatype json =
    JNull
  | JBool bool
  | JNum string
  | JStr string
  | JArr "json list"
  | JObj "(string \<times> json) list"

definition dquote :: char where "dquote = CHR 0x22"
definition bslash :: char where "bslash = CHR 0x5C"

definition is_ws :: "char \<Rightarrow> bool" where
  "is_ws c = (c \<in> set [CHR '' '', CHR 0x09, CHR 0x0A, CHR 0x0D])"

definition is_hex :: "char \<Rightarrow> bool" where
  "is_hex c = (let n = of_char c :: nat in
     (48 \<le> n \<and> n \<le> 57) \<or> (97 \<le> n \<and> n \<le> 102) \<or> (65 \<le> n \<and> n \<le> 70))"

definition skip_ws :: "string \<Rightarrow> string" where
  "skip_ws s = dropWhile is_ws s"

section \<open>Scanner\<close>

text \<open>
  One character or escape sequence inside a string literal, and a whole literal after its
  opening quote: the raw text and what follows.
\<close>

definition simple_escape :: "char \<Rightarrow> bool" where
  "simple_escape e =
     (e \<in> set [dquote, bslash, CHR ''/'', CHR ''b'', CHR ''f'', CHR ''n'', CHR ''r'', CHR ''t''])"

definition str_token :: "string \<Rightarrow> (string \<times> string) option" where
  "str_token s =
     (case s of
        [] \<Rightarrow> None
      | c # cs \<Rightarrow>
          (if c = dquote \<or> (of_char c :: nat) < 32 then None
           else if c = bslash then
             (case cs of
                [] \<Rightarrow> None
              | e # es \<Rightarrow>
                  (if simple_escape e
                   then Some ([c, e], es)
                   else if e = CHR ''u'' \<and> 4 \<le> length es \<and> list_all is_hex (take 4 es)
                   then Some (c # e # take 4 es, drop 4 es)
                   else None))
           else Some ([c], cs)))"

lemma str_token_split:
  assumes "str_token s = Some (w, t)"
  shows "s = w @ t \<and> w \<noteq> [] \<and> hd w \<noteq> dquote \<and> (\<forall>u. str_token (w @ u) = Some (w, u))"
proof (cases s)
  case (Cons c cs)
  then show ?thesis
    using assms by (cases cs) (auto simp: str_token_def split: if_splits)
qed (use assms in \<open>simp add: str_token_def\<close>)

lemma str_token_shorter: "str_token s = Some (w, t) \<Longrightarrow> length t < length s"
  by (auto dest!: str_token_split)

function scan_string :: "string \<Rightarrow> (string \<times> string) option" where
  "scan_string s =
     (case s of
        [] \<Rightarrow> None
      | c # cs \<Rightarrow>
          (if c = dquote then Some ([], cs)
           else (case str_token s of
              None \<Rightarrow> None
            | Some (w, t) \<Rightarrow> map_option (\<lambda>(r, u). (w @ r, u)) (scan_string t))))"
  by pat_completeness auto
termination
  by (relation "measure length") (auto dest: str_token_shorter)

declare scan_string.simps [simp del]

definition span_digits :: "string \<Rightarrow> string \<times> string" where
  "span_digits s = (takeWhile is_digit s, dropWhile is_digit s)"

text \<open>The parts of a number: sign, integer part, fraction, exponent.\<close>

definition scan_int :: "string \<Rightarrow> (string \<times> string) option" where
  "scan_int s =
     (case s of
        [] \<Rightarrow> None
      | c # cs \<Rightarrow>
          (if c = CHR ''0'' then Some ([c], cs)
           else if is_digit c then Some (span_digits s)
           else None))"

definition scan_digits1 :: "string \<Rightarrow> (string \<times> string) option" where
  "scan_digits1 s = (let (d, t) = span_digits s in if d = [] then None else Some (d, t))"

definition scan_frac :: "string \<Rightarrow> (string \<times> string) option" where
  "scan_frac s =
     (case s of
        c # cs \<Rightarrow>
          (if c = CHR ''.'' then map_option (\<lambda>(d, t). (c # d, t)) (scan_digits1 cs)
           else Some ([], s))
      | [] \<Rightarrow> Some ([], s))"

definition scan_exp :: "string \<Rightarrow> (string \<times> string) option" where
  "scan_exp s =
     (case s of
        c # cs \<Rightarrow>
          (if c = CHR ''e'' \<or> c = CHR ''E'' then
             (case cs of
                g # gs \<Rightarrow>
                  (if g = CHR ''+'' \<or> g = CHR ''-''
                   then map_option (\<lambda>(d, t). (c # g # d, t)) (scan_digits1 gs)
                   else map_option (\<lambda>(d, t). (c # d, t)) (scan_digits1 cs))
              | [] \<Rightarrow> None)
           else Some ([], s))
      | [] \<Rightarrow> Some ([], s))"

definition scan_sign :: "string \<Rightarrow> string \<times> string" where
  "scan_sign s = (case s of c # cs \<Rightarrow> (if c = CHR ''-'' then ([c], cs) else ([], s)) | [] \<Rightarrow> ([], s))"

definition scan_number :: "string \<Rightarrow> (string \<times> string) option" where
  "scan_number s =
     (let (sign, s1) = scan_sign s
      in Option.bind (scan_int s1) (\<lambda>(i, s2).
         Option.bind (scan_frac s2) (\<lambda>(f, s3).
         Option.bind (scan_exp s3) (\<lambda>(e, s4).
           Some (sign @ i @ f @ e, s4)))))"

definition scan_lit :: "string \<Rightarrow> 'a \<Rightarrow> string \<Rightarrow> ('a \<times> string) option" where
  "scan_lit w v s = (if take (length w) s = w then Some (v, drop (length w) s) else None)"

text \<open>
  Values, array elements and object members. The first argument bounds the recursion; every
  nested call reads at least one character first, so the length of the text is enough.
\<close>

fun parse_value :: "nat \<Rightarrow> string \<Rightarrow> (json \<times> string) option"
  and parse_elems :: "nat \<Rightarrow> string \<Rightarrow> (json list \<times> string) option"
  and parse_members :: "nat \<Rightarrow> string \<Rightarrow> ((string \<times> json) list \<times> string) option" where
  "parse_value 0 s = None"
| "parse_value (Suc n) s =
     (case skip_ws s of
        [] \<Rightarrow> None
      | c # cs \<Rightarrow>
          (if c = CHR ''{'' then
             (case skip_ws cs of
                [] \<Rightarrow> None
              | d # ds \<Rightarrow>
                  (if d = CHR ''}'' then Some (JObj [], ds)
                   else map_option (\<lambda>(ms, t). (JObj ms, t)) (parse_members n (d # ds))))
           else if c = CHR ''['' then
             (case skip_ws cs of
                [] \<Rightarrow> None
              | d # ds \<Rightarrow>
                  (if d = CHR '']'' then Some (JArr [], ds)
                   else map_option (\<lambda>(vs, t). (JArr vs, t)) (parse_elems n (d # ds))))
           else if c = dquote then map_option (\<lambda>(r, t). (JStr r, t)) (scan_string cs)
           else if c = CHR ''t'' then scan_lit ''true'' (JBool True) (c # cs)
           else if c = CHR ''f'' then scan_lit ''false'' (JBool False) (c # cs)
           else if c = CHR ''n'' then scan_lit ''null'' JNull (c # cs)
           else map_option (\<lambda>(r, t). (JNum r, t)) (scan_number (c # cs))))"
| "parse_elems 0 s = None"
| "parse_elems (Suc n) s =
     (case parse_value n s of
        None \<Rightarrow> None
      | Some (v, t) \<Rightarrow>
          (case skip_ws t of
             [] \<Rightarrow> None
           | c # cs \<Rightarrow>
               (if c = CHR '','' then map_option (\<lambda>(vs, u). (v # vs, u)) (parse_elems n cs)
                else if c = CHR '']'' then Some ([v], cs)
                else None)))"
| "parse_members 0 s = None"
| "parse_members (Suc n) s =
     (case skip_ws s of
        [] \<Rightarrow> None
      | q # qs \<Rightarrow>
          (if q \<noteq> dquote then None
           else (case scan_string qs of
              None \<Rightarrow> None
            | Some (k, t) \<Rightarrow>
                (case skip_ws t of
                   [] \<Rightarrow> None
                 | c # cs \<Rightarrow>
                     (if c \<noteq> CHR '':'' then None
                      else (case parse_value n cs of
                         None \<Rightarrow> None
                       | Some (v, u) \<Rightarrow>
                           (case skip_ws u of
                              [] \<Rightarrow> None
                            | d # ds \<Rightarrow>
                                (if d = CHR '','' then
                                   map_option (\<lambda>(ms, w). ((k, v) # ms, w)) (parse_members n ds)
                                 else if d = CHR ''}'' then Some ([(k, v)], ds)
                                 else None))))))))"

text \<open>\<open>Unmarshal\<close> wants one value and nothing else; \<open>Decoder.Decode\<close> reads the first value.\<close>

definition parse_first :: "string \<Rightarrow> (json \<times> string) option" where
  "parse_first s = parse_value (2 * length s + 2) s"

definition parse_json :: "string \<Rightarrow> json option" where
  "parse_json s =
     (case parse_first s of
        None \<Rightarrow> None
      | Some (j, t) \<Rightarrow> (if skip_ws t = [] then Some j else None))"

section \<open>Printers\<close>

text \<open>
  One printer for both layouts: \<open>ws d\<close> is the white space before an element at depth \<open>d\<close>
  (none, or a newline and the indentation) and \<open>col\<close> separates a key from its value.
\<close>

definition quoted :: "string \<Rightarrow> string" where
  "quoted r = dquote # r @ [dquote]"

fun show_json :: "(nat \<Rightarrow> string) \<Rightarrow> string \<Rightarrow> nat \<Rightarrow> json \<Rightarrow> string" where
  "show_json ws col d JNull = ''null''"
| "show_json ws col d (JBool b) = (if b then ''true'' else ''false'')"
| "show_json ws col d (JNum r) = r"
| "show_json ws col d (JStr r) = quoted r"
| "show_json ws col d (JArr vs) =
     (if vs = [] then ''[]''
      else ''['' @ Join (map (\<lambda>v. ws (Suc d) @ show_json ws col (Suc d) v) vs) '','' @ ws d @ '']'')"
| "show_json ws col d (JObj ms) =
     (if ms = [] then ''{}''
      else ''{'' @ Join (map (\<lambda>(k, v). ws (Suc d) @ quoted k @ col @ show_json ws col (Suc d) v) ms) '',''
        @ ws d @ ''}'')"

definition compact :: "json \<Rightarrow> string" where
  "compact j = show_json (\<lambda>_. []) '':'' 0 j"

definition indented :: "string \<Rightarrow> json \<Rightarrow> string" where
  "indented ind j = show_json (\<lambda>d. CHR 0x0A # concat (replicate d ind)) '': '' 0 j"

section \<open>The scanner reads what the printers write\<close>

text \<open>Literals the scanner accepts as they stand.\<close>

definition raw_ok :: "string \<Rightarrow> bool" where
  "raw_ok r = (scan_string (r @ [dquote]) = Some (r, []))"

definition num_ok :: "string \<Rightarrow> bool" where
  "num_ok r = (scan_number r = Some (r, []))"

fun wf_json :: "json \<Rightarrow> bool" where
  "wf_json JNull = True"
| "wf_json (JBool b) = True"
| "wf_json (JNum r) = num_ok r"
| "wf_json (JStr r) = raw_ok r"
| "wf_json (JArr vs) = list_all wf_json vs"
| "wf_json (JObj ms) = list_all (\<lambda>(k, v). raw_ok k \<and> wf_json v) ms"

lemma scan_string_Cons:
  assumes "str_token s = Some (w, t)"
  shows "scan_string s = map_option (\<lambda>(r, u). (w @ r, u)) (scan_string t)"
proof -
  from str_token_split [OF assms] obtain c cs where "s = c # cs" "c \<noteq> dquote"
    by (cases w) auto
  with assms show ?thesis by (subst scan_string.simps) simp
qed

lemma scan_string_dquote [simp]: "scan_string (dquote # t) = Some ([], t)"
  by (simp add: scan_string.simps)

lemma scan_string_sound:
  "scan_string s = Some (r, t) \<Longrightarrow> s = r @ dquote # t \<and> (\<forall>u. scan_string (r @ dquote # u) = Some (r, u))"
proof (induction s arbitrary: r t rule: scan_string.induct)
  case (1 s)
  show ?case
  proof (cases "\<exists>cs. s = dquote # cs")
    case True
    with 1 show ?thesis by auto
  next
    case False
    with 1(2) obtain c cs w u where s: "s = c # cs" "c \<noteq> dquote" and w: "str_token s = Some (w, u)"
      by (subst (asm) scan_string.simps) (auto split: list.splits if_splits option.splits)
    from w 1(2) obtain r' where r: "scan_string u = Some (r', t)" "r = w @ r'"
      by (auto simp: scan_string_Cons)
    from 1(1) [OF s(1) s(2) w _ r(1)]
    have "u = r' @ dquote # t" "scan_string (r' @ dquote # v) = Some (r', v)" for v by auto
    with str_token_split [OF w] r(2) show ?thesis
      by (auto simp: scan_string_Cons)
  qed
qed

lemma scan_string_raw: "raw_ok r \<Longrightarrow> scan_string (r @ dquote # u) = Some (r, u)"
  using scan_string_sound unfolding raw_ok_def by blast

lemma scan_string_raw_ok: "scan_string s = Some (r, t) \<Longrightarrow> raw_ok r"
  using scan_string_sound unfolding raw_ok_def by blast

subsection \<open>Numbers\<close>

definition delim :: "string \<Rightarrow> bool" where
  "delim t = (case t of [] \<Rightarrow> True | c # _ \<Rightarrow> is_ws c \<or> c \<in> set '',]}'')"

lemma delim_not:
  assumes "delim (c # t)"
  shows "\<not> is_digit c" "c \<noteq> CHR ''.''" "c \<noteq> CHR ''e''" "c \<noteq> CHR ''E''"
  using assms by (auto simp: delim_def is_ws_def is_digit_def)

lemma span_digits_delim: "delim t \<Longrightarrow> span_digits (s @ t) = (fst (span_digits s), snd (span_digits s) @ t)"
  by (cases t) (auto simp: span_digits_def takeWhile_append dropWhile_append 
      takeWhile_eq_all_conv [THEN iffD2] dest!: delim_not(1))

lemma scan_digits1_delim:
  "delim t \<Longrightarrow> scan_digits1 s = Some (d, u) \<Longrightarrow> scan_digits1 (s @ t) = Some (d, u @ t)"
  by (auto simp: scan_digits1_def span_digits_delim split: if_splits prod.splits)

lemma scan_int_delim: "delim t \<Longrightarrow> scan_int s = Some (d, u) \<Longrightarrow> scan_int (s @ t) = Some (d, u @ t)"
  using span_digits_delim [of t s] by (auto simp: scan_int_def split: list.splits if_splits)

lemma scan_frac_delim: "delim t \<Longrightarrow> scan_frac s = Some (d, u) \<Longrightarrow> scan_frac (s @ t) = Some (d, u @ t)"
  by (cases t; cases s) (auto simp: scan_frac_def scan_digits1_delim dest: delim_not split: if_splits)

lemma scan_exp_delim: "delim t \<Longrightarrow> scan_exp s = Some (d, u) \<Longrightarrow> scan_exp (s @ t) = Some (d, u @ t)"
  using scan_digits1_delim [of t "tl s"] scan_digits1_delim [of t "tl (tl s)"] delim_not [of "hd t" "tl t"]
  by (cases t; cases s; cases "tl s") (auto simp: scan_exp_def split: if_splits)

lemma scan_number_delim:
  assumes "delim t" "scan_number s = Some (d, u)"
  shows "scan_number (s @ t) = Some (d, u @ t)"
proof -
  obtain sign s1 where sp: "scan_sign s = (sign, s1)" by fastforce
  obtain i s2 f s3 e where n: "scan_int s1 = Some (i, s2)" "scan_frac s2 = Some (f, s3)"
      "scan_exp s3 = Some (e, u)" "d = sign @ i @ f @ e"
    using assms(2) sp by (auto simp: scan_number_def bind_eq_Some_conv)
  have "s \<noteq> []" using sp n(1) by (auto simp: scan_sign_def scan_int_def)
  then have "scan_sign (s @ t) = (sign, s1 @ t)" using sp by (auto simp: scan_sign_def split: list.splits if_splits)
  with n assms(1) show ?thesis
    by (simp add: scan_number_def scan_int_delim scan_frac_delim scan_exp_delim)
qed

lemma num_ok_scan: "num_ok r \<Longrightarrow> delim t \<Longrightarrow> scan_number (r @ t) = Some (r, t)"
  unfolding num_ok_def using scan_number_delim by fastforce

lemma num_ok_hd: "num_ok r \<Longrightarrow> \<exists>c cs. r = c # cs \<and> (c = CHR ''-'' \<or> is_digit c)"
  by (auto simp: num_ok_def scan_number_def scan_sign_def scan_int_def is_digit_def bind_eq_Some_conv
      split: list.splits if_splits)


subsection \<open>Values\<close>

lemma skip_ws_idem [simp]: "skip_ws (skip_ws s) = skip_ws s"
  by (simp add: skip_ws_def)

lemma skip_ws_append [simp]: "list_all is_ws w \<Longrightarrow> skip_ws (w @ s) = skip_ws s"
  by (induction w) (auto simp: skip_ws_def)

lemma skip_ws_Cons [simp]: "\<not> is_ws c \<Longrightarrow> skip_ws (c # cs) = c # cs"
  by (simp add: skip_ws_def)

lemma parse_value_skip [simp]: "parse_value n (skip_ws s) = parse_value n s"
  by (cases n) simp_all

lemma parse_elems_skip [simp]: "parse_elems n (skip_ws s) = parse_elems n s"
  by (cases n) simp_all

lemma parse_members_skip [simp]: "parse_members n (skip_ws s) = parse_members n s"
  by (cases n) simp_all

lemma parse_value_ws: "list_all is_ws w \<Longrightarrow> parse_value n (w @ s) = parse_value n s"
  by (metis parse_value_skip skip_ws_append)

lemma not_ws [simp]: "\<not> is_ws dquote" "\<not> is_ws CHR ''{''" "\<not> is_ws CHR ''[''" "\<not> is_ws CHR '']''"
  "\<not> is_ws CHR ''}''" "\<not> is_ws CHR '',''" "\<not> is_ws CHR '':''" "\<not> is_ws CHR ''t''" "\<not> is_ws CHR ''f''"
  "\<not> is_ws CHR ''n''" "\<not> is_ws CHR ''-''" "is_digit c \<Longrightarrow> \<not> is_ws c"
  by (auto simp: is_ws_def dquote_def is_digit_def)

lemma dquote_neq [simp]: "dquote \<noteq> CHR ''{''" "dquote \<noteq> CHR ''[''" "dquote \<noteq> CHR ''}''" "dquote \<noteq> CHR '']''"
  by (simp_all add: dquote_def)

lemma show_json_hd:
  assumes "wf_json j"
  shows "\<exists>c cs. show_json ws col d j = c # cs \<and> \<not> is_ws c \<and> c \<noteq> CHR '']''"
proof (cases j)
  case (JNum r)
  with assms num_ok_hd [of r] obtain c cs where "r = c # cs" "c = CHR ''-'' \<or> is_digit c" by auto
  moreover from this have "c \<noteq> CHR '']''" by (auto simp: is_digit_def)
  ultimately show ?thesis using JNum by auto
next
  case (JStr r)
  then show ?thesis by (simp add: quoted_def)
next
  case (JArr vs)
  then show ?thesis by (cases vs) simp_all
next
  case (JObj ms)
  then show ?thesis by (cases ms) simp_all
qed simp_all


lemma delim_ws: "list_all is_ws w \<Longrightarrow> c \<in> set '',]}'' \<Longrightarrow> delim (w @ c # t)"
  by (cases w) (auto simp: delim_def)

lemma parse_elems_Join:
  assumes "\<And>v n t. v \<in> set vs \<Longrightarrow> delim t \<Longrightarrow> length (sh v) \<le> n \<Longrightarrow> parse_value n (sh v @ t) = Some (v, t)"
    and "list_all is_ws w" and "vs \<noteq> []" and "length (Join (map sh vs) '','' @ w @ '']'') \<le> n"
  shows "parse_elems n (Join (map sh vs) '','' @ w @ '']'' @ t) = Some (vs, t)"
  using assms(1,3,4)
proof (induction vs arbitrary: n)
  case (Cons v vs)
  obtain m where n: "n = Suc m" using Cons.prems(3) by (cases n) auto
  show ?case
  proof (cases vs)
    case Nil
    have "parse_value m (sh v @ w @ CHR '']'' # t) = Some (v, w @ CHR '']'' # t)"
      using Cons.prems(1,3) Nil n assms(2) by (intro Cons.prems(1)) (auto intro: delim_ws)
    then show ?thesis using Nil n assms(2) by simp
  next
    case (Cons u us)
    let ?rest = "Join (map sh vs) '','' @ w @ '']'' @ t"
    have "parse_value m (sh v @ CHR '','' # ?rest) = Some (v, CHR '','' # ?rest)"
      using Cons.prems(3) Cons n delim_ws [of "[]"] by (intro Cons.prems(1)) auto
    moreover have "parse_elems m ?rest = Some (vs, t)"
      using Cons.prems Cons n by (intro Cons.IH) auto
    ultimately show ?thesis using Cons n by simp
  qed
qed simp

lemma parse_members_Join:
  assumes "\<And>k v n t. (k, v) \<in> set ms \<Longrightarrow> delim t \<Longrightarrow> length (sh v) \<le> n \<Longrightarrow> parse_value n (sh v @ t) = Some (v, t)"
    and "list_all (\<lambda>(k, v). raw_ok k) ms"
    and "list_all is_ws w" and "list_all is_ws pre" and "ms \<noteq> []"
    and "length (Join (map (\<lambda>(k, v). pre @ quoted k @ CHR '':'' # sh v) ms) '','' @ w @ ''}'') \<le> n"
  shows "parse_members n (Join (map (\<lambda>(k, v). pre @ quoted k @ CHR '':'' # sh v) ms) '','' @ w @ ''}'' @ t) =
    Some (ms, t)"
  using assms(1,2,5,6)
proof (induction ms arbitrary: n)
  case (Cons m ms)
  let ?sh = "\<lambda>(k, v). pre @ quoted k @ CHR '':'' # sh v"
  obtain k v where m: "m = (k, v)" by (cases m)
  obtain j where n: "n = Suc j" using Cons.prems(4) by (cases n) auto
  have head: "parse_members (Suc j) (pre @ quoted k @ CHR '':'' # s) =
      parse_members (Suc j) (dquote # k @ dquote # CHR '':'' # s)" for s
    using assms(4) by (simp add: quoted_def)
  have key: "scan_string (k @ dquote # s) = Some (k, s)" for s
    using Cons.prems(2) m by (simp add: scan_string_raw)
  show ?case
  proof (cases ms)
    case Nil
    have "parse_value j (sh v @ w @ CHR ''}'' # t) = Some (v, w @ CHR ''}'' # t)"
      using Cons.prems(4) Nil n m assms(3) by (intro Cons.prems(1) [of k]) (auto intro: delim_ws)
    then show ?thesis using Nil n m assms(3) head key by simp
  next
    case (Cons u us)
    let ?rest = "Join (map ?sh ms) '','' @ w @ ''}'' @ t"
    have "parse_value j (sh v @ CHR '','' # ?rest) = Some (v, CHR '','' # ?rest)"
      using Cons.prems(4) Cons n m delim_ws [of "[]"] by (intro Cons.prems(1) [of k]) auto
    moreover have "parse_members j ?rest = Some (ms, t)"
      using Cons.prems Cons n by (intro Cons.IH) (auto simp: list_all_iff)
    ultimately show ?thesis using Cons n m head key by simp
  qed
qed simp

text \<open>The printers differ in white space only.\<close>

definition ws_layout :: "(nat \<Rightarrow> string) \<Rightarrow> string \<Rightarrow> bool" where
  "ws_layout ws col \<longleftrightarrow> (\<forall>d. list_all is_ws (ws d)) \<and> (\<exists>w. col = CHR '':'' # w \<and> list_all is_ws w)"

lemma parse_value_literals:
  "parse_value (Suc n) (''null'' @ t) = Some (JNull, t)"
  "parse_value (Suc n) (''true'' @ t) = Some (JBool True, t)"
  "parse_value (Suc n) (''false'' @ t) = Some (JBool False, t)"
  by (simp_all add: scan_lit_def dquote_def)

lemma parse_value_number:
  assumes "num_ok r" "delim t"
  shows "parse_value (Suc n) (r @ t) = Some (JNum r, t)"
proof -
  from num_ok_hd [OF assms(1)] obtain c cs where r: "r = c # cs" "c = CHR ''-'' \<or> is_digit c" by auto
  then have "c \<noteq> dquote" "c \<notin> set ''{[tfn''" "\<not> is_ws c"
    by (auto simp: dquote_def is_digit_def is_ws_def)
  with r num_ok_scan [OF assms] show ?thesis by simp
qed

text \<open>An array and an object read back when their parts do.\<close>

lemma parse_value_show_arr:
  assumes lay: "ws_layout ws col" and wf: "wf_json (JArr vs)" and n0: "length (show_json ws col d (JArr vs)) \<le> n"
    and IH: "\<And>v e k u. v \<in> set vs \<Longrightarrow> wf_json v \<Longrightarrow> delim u \<Longrightarrow> length (show_json ws col e v) \<le> k \<Longrightarrow>
      parse_value k (show_json ws col e v @ u) = Some (v, u)"
  shows "parse_value n (show_json ws col d (JArr vs) @ t) = Some (JArr vs, t)"
proof (cases vs)
  case Nil
  with n0 show ?thesis by (cases n) auto
next
  case (Cons v us)
  let ?sh = "\<lambda>v. ws (Suc d) @ show_json ws col (Suc d) v"
  let ?rest = "Join (map ?sh vs) '','' @ ws d @ '']''"
  from Cons n0 obtain m where n: "n = Suc m" "length ?rest \<le> m" by (cases n) auto
  have "parse_elems m (Join (map ?sh vs) '','' @ ws d @ '']'' @ t) = Some (vs, t)"
  proof (rule parse_elems_Join)
    show "parse_value k (?sh v @ u) = Some (v, u)" if "v \<in> set vs" "delim u" "length (?sh v) \<le> k" for v k u
      using IH [OF that(1) _ that(2), of "Suc d" k] wf that lay
      by (auto simp: parse_value_ws ws_layout_def list_all_iff)
  qed (use lay Cons n in \<open>auto simp: ws_layout_def\<close>)
  moreover obtain c cs where "skip_ws (?rest @ t) = c # cs" "c \<noteq> CHR '']''"
    using show_json_hd [of v ws col "Suc d"] lay Cons wf
    by (cases us) (auto simp: ws_layout_def)
  ultimately show ?thesis using Cons n parse_elems_skip [of m "?rest @ t"] by (simp del: parse_elems_skip)
qed

lemma parse_value_show_obj:
  assumes lay: "ws_layout ws col" and wf: "wf_json (JObj ms)" and n0: "length (show_json ws col d (JObj ms)) \<le> n"
    and IH: "\<And>k v e i u. (k, v) \<in> set ms \<Longrightarrow> wf_json v \<Longrightarrow> delim u \<Longrightarrow> length (show_json ws col e v) \<le> i \<Longrightarrow>
      parse_value i (show_json ws col e v @ u) = Some (v, u)"
  shows "parse_value n (show_json ws col d (JObj ms) @ t) = Some (JObj ms, t)"
proof (cases ms)
  case Nil
  with n0 show ?thesis by (cases n) auto
next
  case (Cons m us)
  from lay obtain w where w: "col = CHR '':'' # w" "list_all is_ws w" by (auto simp: ws_layout_def)
  let ?sh = "\<lambda>v. w @ show_json ws col (Suc d) v"
  let ?mem = "\<lambda>(k, v). ws (Suc d) @ quoted k @ CHR '':'' # ?sh v"
  let ?rest = "Join (map ?mem ms) '','' @ ws d @ ''}''"
  have rest: "show_json ws col d (JObj ms) = CHR ''{'' # ?rest" using Cons w by (simp add: case_prod_unfold)
  with n0 obtain j where n: "n = Suc j" "length ?rest \<le> j" by (cases n) auto
  have "parse_members j (Join (map ?mem ms) '','' @ ws d @ ''}'' @ t) = Some (ms, t)"
  proof (rule parse_members_Join)
    show "parse_value i (?sh v @ u) = Some (v, u)"
      if "(k, v) \<in> set ms" "delim u" "length (?sh v) \<le> i" for k v i u
      using IH [OF that(1) _ that(2), of "Suc d" i] wf that w
      by (auto simp: parse_value_ws list_all_iff)
  qed (use lay Cons n wf in \<open>auto simp: ws_layout_def list_all_iff\<close>)
  moreover obtain cs where "skip_ws (?rest @ t) = dquote # cs" "dquote \<noteq> CHR ''}''"
    using lay Cons by (cases us; cases m) (auto simp: ws_layout_def quoted_def)
  ultimately show ?thesis
    using n rest parse_members_skip [of j "?rest @ t"] by (simp del: parse_members_skip show_json.simps)
qed

lemma parse_value_show:
  assumes lay: "ws_layout ws col"
  shows "wf_json j \<Longrightarrow> delim t \<Longrightarrow> length (show_json ws col d j) \<le> n \<Longrightarrow>
    parse_value n (show_json ws col d j @ t) = Some (j, t)"
proof (induction j arbitrary: d n t)
  case JNull
  then show ?case using parse_value_literals(1) [of "n - 1" t] by (cases n) simp_all
next
  case (JBool b)
  then obtain m where "n = Suc m" by (cases n; cases b) auto
  then show ?case using parse_value_literals(2,3) [of m t] by (cases b) simp_all
next
  case (JNum r)
  then show ?case using parse_value_number [of r t "n - 1"] num_ok_hd [of r] by (cases n) auto
next
  case (JStr r)
  then obtain m where "n = Suc m" by (cases n) (auto simp: quoted_def)
  then show ?case
    using JStr.prems(1) scan_string_raw [of r t] by (simp add: quoted_def)
next
  case (JArr vs)
  show ?case by (rule parse_value_show_arr [OF lay JArr.prems(1,3) JArr.IH])
next
  case (JObj ms)
  show ?case by (rule parse_value_show_obj [OF lay JObj.prems(1,3)]) (auto intro: JObj.IH)
qed

lemma parse_json_show:
  assumes "ws_layout ws col" "wf_json j" "list_all is_ws w"
  shows "parse_json (show_json ws col d j @ w) = Some j"
proof -
  have "delim w" using assms(3) by (cases w) (auto simp: delim_def)
  then show ?thesis
    using parse_value_show [OF assms(1,2), of w d] skip_ws_append [OF assms(3), of "[]"]
    by (simp add: parse_json_def parse_first_def skip_ws_def del: parse_value.simps)
qed

lemma ws_layouts:
  "ws_layout (\<lambda>_. []) '':''"
  "list_all is_ws ind \<Longrightarrow> ws_layout (\<lambda>d. CHR 0x0A # concat (replicate d ind)) '': ''"
  by (auto simp: ws_layout_def list_all_iff) (auto simp: is_ws_def)

interpretation jc: text_codec compact parse_json wf_json
  using parse_json_show [OF ws_layouts(1), of _ "[]"] by unfold_locales (simp add: compact_def)

interpretation ji: text_codec "indented ''  ''" parse_json wf_json
  using parse_json_show [OF ws_layouts(2) [of "''  ''"], of _ "[]"]
  by unfold_locales (simp add: indented_def is_ws_def)

section \<open>What the scanner accepts\<close>

definition hd_in :: "string \<Rightarrow> (char \<Rightarrow> bool) \<Rightarrow> bool" where
  "hd_in u P = (case u of [] \<Rightarrow> False | c # _ \<Rightarrow> P c)"

lemma hd_in_simps [simp]: "\<not> hd_in [] P" "hd_in (c # u) P = P c"
  by (simp_all add: hd_in_def)

lemma span_digits_nodigit:
  "list_all is_digit d \<Longrightarrow> \<not> hd_in u is_digit \<Longrightarrow> span_digits (d @ u) = (d, u)"
  by (induction d) (auto simp: span_digits_def hd_in_def split: list.splits)

lemma span_digits_sound: "span_digits s = (d, u) \<Longrightarrow> s = d @ u \<and> list_all is_digit d"
  by (auto simp: span_digits_def list_all_iff dest: set_takeWhileD)

lemma scan_digits1_iff:
  "scan_digits1 s = Some (d, t) \<longleftrightarrow> span_digits s = (d, t) \<and> d \<noteq> []"
  by (auto simp: scan_digits1_def split: prod.splits)

lemma scan_digits1_self:
  "scan_digits1 s = Some (d, t) \<Longrightarrow> \<not> hd_in u is_digit \<Longrightarrow> scan_digits1 (d @ u) = Some (d, u)"
  unfolding scan_digits1_iff using span_digits_sound span_digits_nodigit by blast

lemma scan_int_self:
  assumes "scan_int s = Some (i, t)" "\<not> hd_in u is_digit"
  shows "scan_int (i @ u) = Some (i, u)"
proof (cases "i = ''0''")
  case False
  with assms(1) have i: "span_digits s = (i, t)" "i \<noteq> []" "hd i \<noteq> CHR ''0''" "is_digit (hd i)"
    by (auto simp: scan_int_def span_digits_def split: list.splits if_splits)
  moreover from i(1) span_digits_sound have "list_all is_digit i" by blast
  then have "span_digits (i @ u) = (i, u)" using span_digits_nodigit assms(2) by blast
  ultimately show ?thesis
    by (cases i) (auto simp: scan_int_def)
qed (simp add: scan_int_def)

lemma not_digit_marks [simp]: "\<not> is_digit CHR ''.''" "\<not> is_digit CHR ''e''" "\<not> is_digit CHR ''E''"
  by (simp_all add: is_digit_def)

lemma scan_frac_self:
  assumes "scan_frac s = Some (f, t)" "\<not> hd_in u is_digit" "\<not> hd_in u (\<lambda>c. c = CHR ''.'')"
  shows "scan_frac (f @ u) = Some (f, u) \<and> \<not> hd_in (f @ u) is_digit"
proof -
  consider "f = []" | d s' where "f = CHR ''.'' # d" "scan_digits1 s' = Some (d, t)"
    using assms(1) by (auto simp: scan_frac_def split: list.splits if_splits)
  then show ?thesis
  proof cases
    case 1
    with assms show ?thesis by (cases u) (simp_all add: scan_frac_def)
  next
    case 2
    with scan_digits1_self [OF 2(2) assms(2)] show ?thesis by (simp add: scan_frac_def)
  qed
qed

lemma scan_exp_self:
  assumes "scan_exp s = Some (e, t)" "delim u"
  shows "scan_exp (e @ u) = Some (e, u) \<and> \<not> hd_in (e @ u) is_digit \<and> \<not> hd_in (e @ u) (\<lambda>c. c = CHR ''.'')"
proof -
  have u: "\<not> hd_in u is_digit" using assms(2) by (cases u) (auto dest: delim_not)
  consider "e = []"
    | c d s' where "e = c # d" "c = CHR ''e'' \<or> c = CHR ''E''" "scan_digits1 s' = Some (d, t)"
    | c g d s' where "e = c # g # d" "c = CHR ''e'' \<or> c = CHR ''E''" "g = CHR ''+'' \<or> g = CHR ''-''"
        "scan_digits1 s' = Some (d, t)"
    using assms(1) by (auto simp: scan_exp_def split: list.splits if_splits)
  then show ?thesis
  proof cases
    case 1
    with assms(2) show ?thesis by (cases u) (auto simp: scan_exp_def dest: delim_not)
  next
    case (2 c d)
    from scan_digits1_self [OF 2(3) u] have "scan_digits1 (d @ u) = Some (d, u)" .
    moreover from 2(3) span_digits_sound obtain x xs where "d = x # xs" "is_digit x"
      by (cases d) (fastforce simp: scan_digits1_iff)+
    moreover from this have "x \<noteq> CHR ''+''" "x \<noteq> CHR ''-''" by (auto simp: is_digit_def)
    ultimately show ?thesis using 2(1,2) by (auto simp: scan_exp_def)
  next
    case (3 c g d)
    from scan_digits1_self [OF 3(4) u] 3 show ?thesis by (auto simp: scan_exp_def)
  qed
qed

lemma scan_number_num_ok:
  assumes "scan_number s = Some (r, t)"
  shows "num_ok r"
proof -
  obtain sign s1 where sp: "scan_sign s = (sign, s1)" by fastforce
  then have sign: "sign = [] \<or> sign = ''-''" by (auto simp: scan_sign_def split: list.splits if_splits)
  obtain i s2 f s3 e where n: "scan_int s1 = Some (i, s2)" "scan_frac s2 = Some (f, s3)"
      "scan_exp s3 = Some (e, t)" and r: "r = sign @ i @ f @ e"
    using assms sp by (auto simp: scan_number_def bind_eq_Some_conv)
  have e: "scan_exp e = Some (e, [])" "\<not> hd_in e is_digit" "\<not> hd_in e (\<lambda>c. c = CHR ''.'')"
    using scan_exp_self [OF n(3), of "[]"] by (auto simp: delim_def)
  have f: "scan_frac (f @ e) = Some (f, e)" "\<not> hd_in (f @ e) is_digit"
    using scan_frac_self [OF n(2) e(2,3)] by auto
  have i: "scan_int (i @ f @ e) = Some (i, f @ e)" by (rule scan_int_self [OF n(1) f(2)])
  then have "hd_in (i @ f @ e) is_digit"
    by (auto simp: scan_int_def hd_in_def is_digit_def split: list.splits if_splits)
  then obtain c cs where c: "i @ f @ e = c # cs" "is_digit c"
    by (cases "i @ f @ e") auto
  moreover from c(2) have "c \<noteq> CHR ''-''" by (auto simp: is_digit_def)
  ultimately show ?thesis
    using sign i e(1) f(1) unfolding num_ok_def r
    by (auto simp: scan_number_def scan_sign_def)
qed


text \<open>A parsed document is well formed.\<close>

lemma parse_wf:
  "parse_value n s = Some (j, t) \<Longrightarrow> wf_json j"
  "parse_elems n s = Some (vs, t) \<Longrightarrow> list_all wf_json vs"
  "parse_members n s = Some (ms, t) \<Longrightarrow> list_all (\<lambda>(k, v). raw_ok k \<and> wf_json v) ms"
proof (induction n s and n s and n s arbitrary: j t and vs t and ms t
    rule: parse_value_parse_elems_parse_members.induct)
  case (2 n s)
  then show ?case
    by (auto simp: scan_lit_def split: list.splits if_splits
      dest: scan_string_raw_ok scan_number_num_ok)
next
  case (4 n s)
  then show ?case by (fastforce split: list.splits if_splits option.splits)
next
  case (6 n s)
  then show ?case by (fastforce split: list.splits if_splits option.splits dest: scan_string_raw_ok)
qed simp_all


text \<open>Every value takes at least one character, so the chosen bound on the recursion is enough.\<close>

lemma scan_string_shorter: "scan_string s = Some (r, t) \<Longrightarrow> length t < length s"
  using scan_string_sound by fastforce

lemma span_digits_shorter: "span_digits s = (d, t) \<Longrightarrow> length t \<le> length s"
  using span_digits_sound by fastforce

lemma scan_number_shorter:
  assumes "scan_number s = Some (r, t)"
  shows "length t < length s"
proof -
  obtain sign s1 where sp: "scan_sign s = (sign, s1)" by fastforce
  obtain i s2 f s3 e where n: "scan_int s1 = Some (i, s2)" "scan_frac s2 = Some (f, s3)" "scan_exp s3 = Some (e, t)"
    using assms sp by (auto simp: scan_number_def bind_eq_Some_conv)
  have "length s1 \<le> length s" using sp by (auto simp: scan_sign_def split: list.splits if_splits)
  moreover have "length s2 < length s1" using n(1)
    by (auto simp: scan_int_def span_digits_def length_dropWhile_le le_imp_less_Suc split: list.splits if_splits)
  moreover have "length s3 \<le> length s2" using n(2)
    by (auto simp: scan_frac_def scan_digits1_iff split: list.splits if_splits dest!: span_digits_shorter)
  moreover have "length t \<le> length s3" using n(3)
    by (auto simp: scan_exp_def scan_digits1_iff split: list.splits if_splits dest!: span_digits_shorter)
  ultimately show ?thesis by simp
qed

lemma skip_ws_le: "skip_ws s = c # cs \<Longrightarrow> length cs < length s"
  using length_dropWhile_le [of is_ws s] by (simp add: skip_ws_def)

lemma parse_shorter:
  "parse_value n s = Some (j, t) \<Longrightarrow> length t < length s"
  "parse_elems n s = Some (vs, t) \<Longrightarrow> length t < length s"
  "parse_members n s = Some (ms, t) \<Longrightarrow> length t < length s"
proof (induction n s and n s and n s arbitrary: j t and vs t and ms t
    rule: parse_value_parse_elems_parse_members.induct)
  case (2 n s)
  then show ?case
    by (fastforce simp: scan_lit_def split: list.splits if_splits
      dest: scan_string_shorter scan_number_shorter skip_ws_le)
next
  case (4 n s)
  then show ?case by (fastforce split: list.splits if_splits option.splits dest: skip_ws_le)
next
  case (6 n s)
  then show ?case by (fastforce split: list.splits if_splits option.splits dest: scan_string_shorter skip_ws_le)
qed simp_all

lemma parse_value_cong:
  assumes "\<And>u. length u < length s \<Longrightarrow> parse_elems n u = parse_elems k u \<and> parse_members n u = parse_members k u"
  shows "parse_value (Suc n) s = parse_value (Suc k) s"
proof (cases "\<exists>c cs d ds. skip_ws s = c # cs \<and> skip_ws cs = d # ds")
  case False
  then show ?thesis by (auto split: list.splits)
next
  case True
  then obtain c cs d ds where s: "skip_ws s = c # cs" "skip_ws cs = d # ds" by blast
  then have "length (d # ds) < length s"
    using skip_ws_le [of s c cs] skip_ws_le [of cs d ds] by simp
  from assms [OF this] s show ?thesis by (cases "d = CHR '']''"; cases "d = CHR ''}''") simp_all
qed

lemma parse_elems_cong:
  assumes "parse_value n s = parse_value k s"
    and "\<And>u. length u < length s \<Longrightarrow> parse_elems n u = parse_elems k u"
  shows "parse_elems (Suc n) s = parse_elems (Suc k) s"
proof (cases "\<exists>v t c cs. parse_value n s = Some (v, t) \<and> skip_ws t = c # cs")
  case False
  with assms(1) show ?thesis by (auto split: list.splits option.splits)
next
  case True
  then obtain v t c cs where s: "parse_value n s = Some (v, t)" "skip_ws t = c # cs" by blast
  then have "length cs < length s" using parse_shorter(1) skip_ws_le by fastforce
  from assms(2) [OF this] s s(1) [unfolded assms(1)] show ?thesis by simp
qed

lemma parse_members_cong:
  assumes "\<And>u. length u < length s \<Longrightarrow> parse_value n u = parse_value k u \<and> parse_members n u = parse_members k u"
  shows "parse_members (Suc n) s = parse_members (Suc k) s"
proof (cases "\<exists>qs key t cs. skip_ws s = dquote # qs \<and> scan_string qs = Some (key, t) \<and> skip_ws t = CHR '':'' # cs")
  case False
  then show ?thesis by (auto split: list.splits option.splits)
next
  case True
  then obtain qs key t cs where s: "skip_ws s = dquote # qs" "scan_string qs = Some (key, t)"
    "skip_ws t = CHR '':'' # cs" by blast
  have cs: "length cs < length s"
    using skip_ws_le [OF s(1)] scan_string_shorter [OF s(2)] skip_ws_le [OF s(3)] by simp
  show ?thesis
  proof (cases "\<exists>v u d ds. parse_value k cs = Some (v, u) \<and> skip_ws u = d # ds")
    case False
    with assms [OF cs] s show ?thesis by (auto split: list.splits option.splits)
  next
    case True
    then obtain v u d ds where v: "parse_value k cs = Some (v, u)" "skip_ws u = d # ds" by blast
    then have "length ds < length s" using parse_shorter(1) [OF v(1)] skip_ws_le [OF v(2)] cs by simp
    from assms [OF this] assms [OF cs] s v show ?thesis by simp
  qed
qed

lemma parse_fuel:
  "(2 * length s < n \<longrightarrow> 2 * length s < m \<longrightarrow> parse_value n s = parse_value m s) \<and>
   (2 * length s + 1 < n \<longrightarrow> 2 * length s + 1 < m \<longrightarrow>
      parse_elems n s = parse_elems m s \<and> parse_members n s = parse_members m s)"
proof (induction s arbitrary: n m rule: length_induct)
  case (1 s)
  have val: "parse_value a s = parse_value b s" if "2 * length s < a" "2 * length s < b" for a b
  proof -
    from that obtain i j where "a = Suc i" "b = Suc j" by (cases a; cases b) auto
    moreover have "parse_value (Suc i) s = parse_value (Suc j) s"
      using 1 that calculation by (intro parse_value_cong) simp
    ultimately show ?thesis by simp
  qed
  have "parse_elems n s = parse_elems m s \<and> parse_members n s = parse_members m s"
    if "2 * length s + 1 < n" "2 * length s + 1 < m"
  proof -
    from that obtain i j where ij: "n = Suc i" "m = Suc j" by (cases n; cases m) auto
    have "parse_elems (Suc i) s = parse_elems (Suc j) s"
      using 1 that ij val [of i j] by (intro parse_elems_cong) simp_all
    moreover have "parse_members (Suc i) s = parse_members (Suc j) s"
      using 1 that ij by (intro parse_members_cong) simp
    ultimately show ?thesis using ij by simp
  qed
  with val show ?case by blast
qed

lemma parse_first_fuel: "2 * length s + 2 \<le> n \<Longrightarrow> parse_value n s = parse_first s"
  unfolding parse_first_def using parse_fuel [of s n "2 * length s + 2"] by (simp del: parse_value.simps)

lemma parse_json_wf: "parse_json s = Some j \<Longrightarrow> wf_json j"
  unfolding parse_json_def parse_first_def
  by (auto split: option.splits if_splits prod.splits dest: parse_wf(1) simp del: parse_value.simps)

end
