(* ===== verification/Json_Codec.thy ===== *)
theory Json_Codec
  imports Json
begin

text \<open>
  String literals and decoding of \<open>encoding/json\<close>: escaping and unquoting, the rewriting of
  raw messages by \<open>Marshal\<close>, and decoding into maps, strings, integers, slices and one-field
  structs. Decoding keeps Go's conventions: \<open>null\<close> leaves a string as it was and makes a map
  or slice nil, the last of several equal keys wins, and a struct field also matches a key
  that differs in case only.
\<close>

section \<open>String literals\<close>

definition hex4 :: "nat \<Rightarrow> string" where
  "hex4 n = map (\<lambda>i. let d = n div 16 ^ i mod 16 in if d < 10 then digit_char d else char_of (87 + d)) [3, 2, 1, 0]"

definition u_escape :: "nat \<Rightarrow> string" where
  "u_escape n = bslash # CHR ''u'' # hex4 n"

definition html_special :: "char \<Rightarrow> bool" where
  "html_special c = (c \<in> set [CHR ''<'', CHR ''>'', CHR ''&''])"

text \<open>Escape of one byte in \<open>Marshal\<close>, and in the compaction of a raw message.\<close>

definition esc1 :: "char \<Rightarrow> string" where
  "esc1 c =
     (if c = dquote \<or> c = bslash then [bslash, c]
      else if c = CHR 0x08 then [bslash, CHR ''b'']
      else if c = CHR 0x0C then [bslash, CHR ''f'']
      else if c = CHR 0x0A then [bslash, CHR ''n'']
      else if c = CHR 0x0D then [bslash, CHR ''r'']
      else if c = CHR 0x09 then [bslash, CHR ''t'']
      else if (of_char c :: nat) < 32 \<or> html_special c then u_escape (of_char c)
      else [c])"

definition html1 :: "char \<Rightarrow> string" where
  "html1 c = (if html_special c then u_escape (of_char c) else [c])"

text \<open>U+2028 and U+2029 are always escaped.\<close>

definition sep_at :: "string \<Rightarrow> nat option" where
  "sep_at s =
     (if take 3 s = [CHR 0xE2, CHR 0x80, CHR 0xA8] then Some 8232
      else if take 3 s = [CHR 0xE2, CHR 0x80, CHR 0xA9] then Some 8233
      else None)"

function esc_with :: "(char \<Rightarrow> string) \<Rightarrow> string \<Rightarrow> string" where
  "esc_with f s =
     (case s of
        [] \<Rightarrow> []
      | c # cs \<Rightarrow>
          (case sep_at s of
             Some u \<Rightarrow> u_escape u @ esc_with f (drop 3 s)
           | None \<Rightarrow> f c @ esc_with f cs))"
  by pat_completeness auto
termination
  by (relation "measure (\<lambda>(f, s). length s)") auto

declare esc_with.simps [simp del]

definition escape :: "string \<Rightarrow> string" where "escape s = esc_with esc1 s"
definition html_raw :: "string \<Rightarrow> string" where "html_raw r = esc_with html1 r"

definition hex_digit_val :: "char \<Rightarrow> nat" where
  "hex_digit_val c = (let n = of_char c in if n \<le> 57 then n - 48 else if 97 \<le> n then n - 87 else n - 55)"

definition hex_val :: "string \<Rightarrow> nat" where
  "hex_val h = foldl (\<lambda>v c. 16 * v + hex_digit_val c) 0 h"

definition utf8 :: "nat \<Rightarrow> string" where
  "utf8 u =
     (if u < 128 then [char_of u]
      else if u < 2048 then [char_of (192 + u div 64), char_of (128 + u mod 64)]
      else if u < 65536 then
        [char_of (224 + u div 4096), char_of (128 + u div 64 mod 64), char_of (128 + u mod 64)]
      else
        [char_of (240 + u div 262144), char_of (128 + u div 4096 mod 64),
         char_of (128 + u div 64 mod 64), char_of (128 + u mod 64)])"

definition replacement :: nat where "replacement = 65533"

text \<open>The UTF-16 unit of a \<open>\u\<close> escape.\<close>

definition unit_of :: "string \<Rightarrow> nat option" where
  "unit_of w = (if take 2 w = [bslash, CHR ''u''] then Some (hex_val (drop 2 w)) else None)"

definition simple_val :: "char \<Rightarrow> char" where
  "simple_val e =
     (if e = CHR ''b'' then CHR 0x08 else if e = CHR ''f'' then CHR 0x0C
      else if e = CHR ''n'' then CHR 0x0A else if e = CHR ''r'' then CHR 0x0D
      else if e = CHR ''t'' then CHR 0x09 else e)"

text \<open>The low half of a surrogate pair at the front of a literal, and what follows it.\<close>

definition low_at :: "string \<Rightarrow> (nat \<times> string) option" where
  "low_at r =
     (case str_token r of
        None \<Rightarrow> None
      | Some (w, t) \<Rightarrow>
          (case unit_of w of
             None \<Rightarrow> None
           | Some l \<Rightarrow> (if 0xDC00 \<le> l \<and> l \<le> 0xDFFF then Some (l, t) else None)))"

lemma low_at_shorter: "low_at r = Some (l, t) \<Longrightarrow> length t < length r"
  by (auto simp: low_at_def dest: str_token_shorter split: option.splits if_splits)

function unquote :: "string \<Rightarrow> string" where
  "unquote r =
     (case str_token r of
        None \<Rightarrow> []
      | Some (w, t) \<Rightarrow>
          (case unit_of w of
             None \<Rightarrow> (if length w = 2 then [simple_val (w ! 1)] else w) @ unquote t
           | Some u \<Rightarrow>
               (if u < 0xD800 \<or> 0xDFFF < u then utf8 u @ unquote t
                else (case (if u < 0xDC00 then low_at t else None) of
                   None \<Rightarrow> utf8 replacement @ unquote t
                 | Some (l, t') \<Rightarrow> utf8 (65536 + (u - 0xD800) * 1024 + (l - 0xDC00)) @ unquote t'))))"
  by pat_completeness auto
termination
  by (relation "measure length") (auto dest!: str_token_shorter low_at_shorter split: if_splits)

declare unquote.simps [simp del]

section \<open>Escaping and unquoting\<close>

definition token_bytes :: "string \<Rightarrow> string" where
  "token_bytes w =
     (case unit_of w of
        None \<Rightarrow> (if length w = 2 then [simple_val (w ! 1)] else w)
      | Some u \<Rightarrow> utf8 u)"

text \<open>A token that decodes on its own to the given bytes.\<close>

definition token_for :: "string \<Rightarrow> string \<Rightarrow> bool" where
  "token_for w b \<longleftrightarrow> str_token w = Some (w, []) \<and> token_bytes w = b \<and>
     (case unit_of w of None \<Rightarrow> True | Some u \<Rightarrow> u < 0xD800 \<or> 0xDFFF < u)"

lemma esc1_token: "\<forall>c. token_for (esc1 c) [c]"
  by code_simp

lemma html1_token: "\<forall>c. c \<noteq> dquote \<longrightarrow> c \<noteq> bslash \<longrightarrow> 32 \<le> (of_char c :: nat) \<longrightarrow> token_for (html1 c) [c]"
  by code_simp

lemma sep_token:
  "sep_at s = Some u \<Longrightarrow> token_for (u_escape u) (take 3 s)"
proof -
  have "token_for (u_escape 8232) [CHR 0xE2, CHR 0x80, CHR 0xA8]" by code_simp
  moreover have "token_for (u_escape 8233) [CHR 0xE2, CHR 0x80, CHR 0xA9]" by code_simp
  ultimately show "sep_at s = Some u \<Longrightarrow> token_for (u_escape u) (take 3 s)"
    by (auto simp: sep_at_def split: if_splits)
qed

lemma token_for_unquote: "token_for w b \<Longrightarrow> unquote (w @ t) = b @ unquote t"
  using str_token_split [of w w "[]"]
  by (subst unquote.simps) (auto simp: token_for_def token_bytes_def split: option.splits)

lemma raw_ok_token: "str_token w = Some (w, []) \<Longrightarrow> raw_ok t \<Longrightarrow> raw_ok (w @ t)"
  using str_token_split [of w w "[]"]
  by (auto simp: raw_ok_def scan_string_Cons [of "w @ t @ [dquote]" w "t @ [dquote]"])

lemma raw_ok_Nil [simp]: "raw_ok []"
  by (simp add: raw_ok_def)

lemma esc_with_Nil: "esc_with f [] = []"
  by (subst esc_with.simps) simp

lemma esc_with_sep: "sep_at s = Some u \<Longrightarrow> esc_with f s = u_escape u @ esc_with f (drop 3 s)"
  by (subst esc_with.simps) (cases s; simp add: sep_at_def)

lemma esc_with_char: "sep_at (c # cs) = None \<Longrightarrow> esc_with f (c # cs) = f c @ esc_with f cs"
  by (subst esc_with.simps) simp

lemmas esc_with_simps = esc_with_Nil esc_with_sep esc_with_char

lemma sep_at_split: "sep_at s = Some u \<Longrightarrow> s = take 3 s @ drop 3 s \<and> length (drop 3 s) < length s"
  by (cases s) (auto simp: sep_at_def)

lemma escape_ok: "raw_ok (escape s) \<and> unquote (escape s) = s"
proof (induction s rule: length_induct)
  case (1 s)
  consider "s = []" | u where "sep_at s = Some u" | c cs where "s = c # cs" "sep_at s = None"
    by (cases s; cases "sep_at s") auto
  then show ?case
  proof cases
    case 1
    then show ?thesis by (simp add: escape_def esc_with_simps unquote.simps str_token_def)
  next
    case (2 u)
    have "escape s = u_escape u @ escape (drop 3 s)" by (simp add: escape_def esc_with_sep [OF 2])
    moreover have "raw_ok (escape (drop 3 s))" "unquote (escape (drop 3 s)) = drop 3 s"
      using "1.IH" sep_at_split [OF 2] by blast+
    ultimately show ?thesis
      using sep_token [OF 2] token_for_unquote [OF sep_token [OF 2]] raw_ok_token
      by (simp add: token_for_def)
  next
    case (3 c cs)
    with esc1_token "1.IH" show ?thesis
      by (auto simp: escape_def esc_with_simps token_for_unquote token_for_def intro!: raw_ok_token)
  qed
qed

lemmas raw_ok_escape [simp] = escape_ok [THEN conjunct1]
  and unquote_escape [simp] = escape_ok [THEN conjunct2]

subsection \<open>Raw messages keep their meaning\<close>

lemma raw_ok_cases:
  assumes "raw_ok r"
  obtains "r = []" | w t where "str_token r = Some (w, t)" "raw_ok t"
proof (cases r)
  case (Cons c cs)
  from assms have r: "scan_string (r @ [dquote]) = Some (r, [])" by (simp add: raw_ok_def)
  with Cons have "c \<noteq> dquote" by (auto simp: scan_string.simps)
  with r Cons obtain w u where w: "str_token (r @ [dquote]) = Some (w, u)"
    by (subst (asm) scan_string.simps) (auto split: option.splits)
  with r obtain r' where r': "scan_string u = Some (r', [])" "r = w @ r'" by (auto simp: scan_string_Cons)
  from scan_string_raw_ok [OF r'(1)] str_token_split [OF w] r'(2) that(2) show ?thesis by simp
qed (use that in auto)

lemma raw_ok_rest: "raw_ok r \<Longrightarrow> str_token r = Some (w, t) \<Longrightarrow> raw_ok t"
  by (erule raw_ok_cases) (auto simp: str_token_def)

lemma str_token_cases:
  assumes "str_token s = Some (w, t)"
  obtains c where "w = [c]" "c \<noteq> dquote" "c \<noteq> bslash" "32 \<le> (of_char c :: nat)"
  | "\<forall>x \<in> set w. x \<noteq> CHR 0xE2 \<and> \<not> html_special x"
proof -
  have hex: "x \<noteq> CHR 0xE2 \<and> \<not> html_special x" if "is_hex x \<or> simple_escape x \<or> x = bslash \<or> x = CHR ''u''" for x
    using that by (auto simp: is_hex_def html_special_def simple_escape_def bslash_def dquote_def Let_def)
  have "(\<exists>c. w = [c] \<and> c \<noteq> dquote \<and> c \<noteq> bslash \<and> 32 \<le> (of_char c :: nat)) \<or>
    (\<forall>x \<in> set w. is_hex x \<or> simple_escape x \<or> x = bslash \<or> x = CHR ''u'')"
    using assms by (auto simp: str_token_def list_all_iff split: list.splits if_splits)
  with hex that show thesis by metis
qed

lemma html_raw_keep: "\<forall>x \<in> set w. x \<noteq> CHR 0xE2 \<and> \<not> html_special x \<Longrightarrow> html_raw (w @ t) = w @ html_raw t"
proof (induction w)
  case (Cons x w)
  then have "sep_at (x # w @ t) = None" by (simp add: sep_at_def)
  with Cons show ?case by (simp add: html_raw_def esc_with_char html1_def)
qed simp

lemma token_for_low: "token_for w b \<Longrightarrow> low_at (w @ t) = None"
  using str_token_split [of w w "[]"] by (auto simp: token_for_def low_at_def split: option.splits)

lemma token_for_char: "c \<noteq> dquote \<Longrightarrow> c \<noteq> bslash \<Longrightarrow> 32 \<le> (of_char c :: nat) \<Longrightarrow> token_for [c] [c]"
  by (simp add: token_for_def str_token_def token_bytes_def unit_of_def)

lemma token_for_rest: "raw_ok (w @ t) \<Longrightarrow> token_for w b \<Longrightarrow> raw_ok t"
  using raw_ok_rest [of "w @ t" w t] str_token_split [of w w "[]"] by (simp add: token_for_def)

text \<open>A separator is read as three single bytes.\<close>

lemma sep_bytes:
  assumes "raw_ok r" "sep_at r = Some u"
  shows "raw_ok (drop 3 r) \<and> unquote r = take 3 r @ unquote (drop 3 r) \<and> low_at r = None"
proof -
  from assms(2) obtain z s where r: "r = [CHR 0xE2] @ [CHR 0x80] @ [z] @ s" "z = CHR 0xA8 \<or> z = CHR 0xA9"
    by (cases r; cases "tl r"; cases "tl (tl r)") (auto simp: sep_at_def split: if_splits)
  have tok: "token_for [c] [c]" if "c \<in> {CHR 0xE2, CHR 0x80, CHR 0xA8, CHR 0xA9}" for c
    using that by (intro token_for_char) (auto simp: dquote_def bslash_def)
  from r(2) have z: "token_for [z] [z]" using tok by auto
  note t = tok [of "CHR 0xE2"] tok [of "CHR 0x80"] z
  from assms(1) r(1) t have "raw_ok s" by (metis insertI1 insertI2 token_for_rest)
  then show ?thesis
    using r(1) token_for_unquote [of "[CHR 0xE2]"] token_for_unquote [of "[CHR 0x80]"] token_for_unquote [of "[z]"]
      token_for_low [of "[CHR 0xE2]"] t by simp
qed

text \<open>What rewriting does at the front of a literal.\<close>

lemma html_raw_step:
  assumes "raw_ok r"
  obtains "r = []"
  | w b t where "r = b @ t" "b \<noteq> []" "raw_ok t" "html_raw r = w @ html_raw t" "token_for w b" "unquote r = b @ unquote t" "low_at r = None"
  | w t where "str_token r = Some (w, t)" "raw_ok t" "str_token (html_raw r) = Some (w, html_raw t)"
  using assms
proof (cases rule: raw_ok_cases)
  case (2 w t)
  note r = str_token_split [OF 2(1)]
  from 2(1) show thesis
  proof (cases rule: str_token_cases)
    case (1 c)
    have c: "token_for [c] [c]" using 1 by (intro token_for_char)
    show thesis
    proof (cases "sep_at r")
      case None
      with 1 r have "html_raw r = html1 c @ html_raw t" by (simp add: html_raw_def esc_with_char)
      moreover have "token_for (html1 c) [c]" using html1_token 1 by simp
      ultimately show thesis
        using that(2) [of "[c]" t "html1 c"] 2 1 r token_for_unquote [OF c] token_for_low [OF c] by simp
    next
      case (Some u)
      have "html_raw r = u_escape u @ html_raw (drop 3 r)" by (simp add: html_raw_def esc_with_sep [OF Some])
      moreover have "take 3 r \<noteq> []" using r by (cases r) auto
      ultimately show thesis
        using that(2) [of "take 3 r" "drop 3 r" "u_escape u"] sep_bytes [OF assms Some] sep_token [OF Some] by simp
    qed
  next
    case 2
    with r \<open>str_token r = _\<close> \<open>raw_ok t\<close> html_raw_keep [OF 2, of t] show thesis by (intro that(3)) auto
  qed
qed


lemma html_raw_Nil [simp]: "html_raw [] = []"
  by (simp add: html_raw_def esc_with_Nil)

lemma low_at_html_raw: "raw_ok r \<Longrightarrow> low_at (html_raw r) = map_option (\<lambda>(l, t). (l, html_raw t)) (low_at r)"
  by (erule html_raw_step) (auto simp: token_for_low, auto simp: low_at_def str_token_def split: option.splits)

lemma low_at_raw_ok: "raw_ok r \<Longrightarrow> low_at r = Some (l, t) \<Longrightarrow> raw_ok t"
  using raw_ok_rest by (auto simp: low_at_def split: option.splits if_splits)

lemma html_raw_ok: "raw_ok r \<Longrightarrow> raw_ok (html_raw r) \<and> unquote (html_raw r) = unquote r"
proof (induction r rule: length_induct)
  case (1 r)
  from 1(2) show ?case
  proof (cases rule: html_raw_step)
    case (2 w b t)
    with "1.IH" have "raw_ok (html_raw t)" "unquote (html_raw t) = unquote t" by auto
    with 2 raw_ok_token [of w "html_raw t"] token_for_unquote [OF 2(5)] show ?thesis
      by (simp add: token_for_def)
  next
    case (3 w t)
    then have "length t < length r" by (simp add: str_token_shorter)
    with "1.IH" 3(2) have IH: "raw_ok (html_raw t)" "unquote (html_raw t) = unquote t" by auto
    have low: "unquote (html_raw u) = unquote u" if "low_at t = Some (l, u)" for l u
      using "1.IH" low_at_raw_ok [OF 3(2) that] low_at_shorter [OF that] \<open>length t < length r\<close> by auto
    have "unquote (html_raw r) = unquote r"
      using 3 IH low low_at_html_raw [OF 3(2)]
      by (simp add: unquote.simps [of r] unquote.simps [of "html_raw r"] split: option.split)
    moreover have "raw_ok (html_raw r)"
      using str_token_split [OF 3(3)] IH(1) raw_ok_token [of w "html_raw t"] by (metis append_Nil2)
    ultimately show ?thesis by simp
  qed simp
qed

lemmas raw_ok_html_raw = html_raw_ok [THEN conjunct1]
  and unquote_html_raw = html_raw_ok [THEN conjunct2]

end
