(* ===== verification/Json_Decode.thy ===== *)
theory Json_Decode
  imports Json_Codec
begin

text \<open>
  Decoding into and encoding of Go values: raw messages and maps of them, strings,
  integers, slices and structs with string fields.
\<close>

section \<open>Raw messages\<close>

text \<open>\<open>Marshal\<close> compacts a raw message and escapes HTML characters inside it.\<close>

fun rewrite_raw :: "json \<Rightarrow> json" where
  "rewrite_raw (JStr r) = JStr (html_raw r)"
| "rewrite_raw (JArr vs) = JArr (map rewrite_raw vs)"
| "rewrite_raw (JObj ms) = JObj (map (\<lambda>(k, v). (html_raw k, rewrite_raw v)) ms)"
| "rewrite_raw j = j"

text \<open>A document with its literals decoded: two documents with the same meaning differ in spelling only.\<close>

fun meaning :: "json \<Rightarrow> json" where
  "meaning (JStr r) = JStr (unquote r)"
| "meaning (JArr vs) = JArr (map meaning vs)"
| "meaning (JObj ms) = JObj (map (\<lambda>(k, v). (unquote k, meaning v)) ms)"
| "meaning j = j"

section \<open>Decoders\<close>

definition type_error :: "string \<Rightarrow> goerror" where
  "type_error t = Err (''json: cannot unmarshal into Go value of type '' @ t)"

definition syntax_error :: goerror where
  "syntax_error = Err ''json: syntax error''"

text \<open>\<open>Unmarshal\<close>: the syntax is checked before anything is stored.\<close>

definition Unmarshal :: "(json \<Rightarrow> 'a result) \<Rightarrow> string \<Rightarrow> 'a result" where
  "Unmarshal dec s = (case parse_json s of None \<Rightarrow> Inl syntax_error | Some j \<Rightarrow> dec j)"

text \<open>Into \<open>map[string]json.RawMessage\<close>; the nil map is \<open>None\<close>.\<close>

definition dec_map :: "json \<Rightarrow> json gomap option result" where
  "dec_map j =
     (case j of
        JNull \<Rightarrow> Inr None
      | JObj ms \<Rightarrow> Inr (Some (mputs (map (\<lambda>(k, v). (unquote k, v)) ms) []))
      | _ \<Rightarrow> Inl (type_error ''map''))"

definition enc_map :: "json gomap \<Rightarrow> json" where
  "enc_map m = JObj (map (\<lambda>(k, v). (escape k, rewrite_raw v)) m)"

definition dec_string :: "string \<Rightarrow> json \<Rightarrow> string result" where
  "dec_string old j =
     (case j of
        JNull \<Rightarrow> Inr old
      | JStr r \<Rightarrow> Inr (unquote r)
      | _ \<Rightarrow> Inl (type_error ''string''))"

text \<open>\<open>strconv.ParseInt\<close> on a number literal, in 64 bits.\<close>

definition dec_int :: "int \<Rightarrow> json \<Rightarrow> int result" where
  "dec_int old j =
     (case j of
        JNull \<Rightarrow> Inr old
      | JNum r \<Rightarrow>
          (let (sign, ds) = scan_sign r; n = int (atoi_digits ds); v = (if sign = [] then n else - n)
           in if ds \<noteq> [] \<and> list_all is_digit ds \<and> - (2 ^ 63) \<le> v \<and> v < 2 ^ 63 then Inr v
              else Inl (type_error ''int''))
      | _ \<Rightarrow> Inl (type_error ''int''))"

fun dec_all :: "(json \<Rightarrow> 'a result) \<Rightarrow> json list \<Rightarrow> 'a list result" where
  "dec_all dec [] = Inr []"
| "dec_all dec (j # js) =
     (case dec j of
        Inl e \<Rightarrow> Inl e
      | Inr x \<Rightarrow> (case dec_all dec js of Inl e \<Rightarrow> Inl e | Inr xs \<Rightarrow> Inr (x # xs)))"

definition dec_slice :: "(json \<Rightarrow> 'a result) \<Rightarrow> json \<Rightarrow> 'a list result" where
  "dec_slice dec j =
     (case j of
        JNull \<Rightarrow> Inr []
      | JArr vs \<Rightarrow> dec_all dec vs
      | _ \<Rightarrow> Inl (type_error ''slice''))"

subsection \<open>Struct fields\<close>

definition upper :: "char \<Rightarrow> char" where
  "upper c = (let n = of_char c :: nat in if 97 \<le> n \<and> n \<le> 122 then char_of (n - 32) else c)"

text \<open>
  Case folding of keys. Besides the letters, U+017F folds to \<open>S\<close> and U+212A to \<open>K\<close>; no other
  character folds to ASCII, and all field names of the program are ASCII.
\<close>

function fold_name :: "string \<Rightarrow> string" where
  "fold_name s =
     (case s of
        [] \<Rightarrow> []
      | c # cs \<Rightarrow>
          (if take 2 s = [CHR 0xC5, CHR 0xBF] then CHR ''S'' # fold_name (drop 2 s)
           else if take 3 s = [CHR 0xE2, CHR 0x84, CHR 0xAA] then CHR ''K'' # fold_name (drop 3 s)
           else upper c # fold_name cs))"
  by pat_completeness auto
termination
  by (relation "measure length") auto

declare fold_name.simps [simp del]

definition field_is :: "string \<Rightarrow> string \<Rightarrow> bool" where
  "field_is name key = (key = name \<or> fold_name key = fold_name name)"

text \<open>Into a struct whose only field is a string.\<close>

fun dec_str_fields :: "string \<Rightarrow> string \<Rightarrow> (string \<times> json) list \<Rightarrow> string result" where
  "dec_str_fields name old [] = Inr old"
| "dec_str_fields name old ((k, v) # ms) =
     (if field_is name (unquote k)
      then (case dec_string old v of Inl e \<Rightarrow> Inl e | Inr x \<Rightarrow> dec_str_fields name x ms)
      else dec_str_fields name old ms)"

definition dec_str_field :: "string \<Rightarrow> json \<Rightarrow> string result" where
  "dec_str_field name j =
     (case j of
        JNull \<Rightarrow> Inr []
      | JObj ms \<Rightarrow> dec_str_fields name [] ms
      | _ \<Rightarrow> Inl (type_error ''struct''))"

section \<open>Lemmas\<close>

lemma field_is_refl [simp]: "field_is name name"
  by (simp add: field_is_def)

lemma wf_rewrite_raw: "wf_json j \<Longrightarrow> wf_json (rewrite_raw j)"
  by (induction j rule: rewrite_raw.induct) (auto simp: list_all_iff raw_ok_html_raw)

lemma meaning_rewrite_raw: "wf_json j \<Longrightarrow> meaning (rewrite_raw j) = meaning j"
  by (induction j rule: rewrite_raw.induct) (auto simp: list_all_iff unquote_html_raw)

lemma wf_enc_map: "\<forall>(k, v) \<in> set m. wf_json v \<Longrightarrow> wf_json (enc_map m)"
  by (auto simp: enc_map_def list_all_iff wf_rewrite_raw)

lemma dec_enc_map:
  assumes "map_ok m"
  shows "dec_map (enc_map m) = Inr (Some (mmap rewrite_raw m))"
proof -
  have "mputs (mmap rewrite_raw m) [] = mmap rewrite_raw m" using assms by (intro mputs_sorted) simp
  then show ?thesis by (simp add: dec_map_def enc_map_def mmap_def comp_def case_prod_unfold)
qed

lemma Unmarshal_indented:
  "list_all is_ws ind \<Longrightarrow> list_all is_ws w \<Longrightarrow> wf_json j \<Longrightarrow> Unmarshal dec (indented ind j @ w) = dec j"
  using parse_json_show [OF ws_layouts(2)] by (simp add: Unmarshal_def indented_def)

lemma Unmarshal_compact: "wf_json j \<Longrightarrow> Unmarshal dec (compact j) = dec j"
  by (simp add: Unmarshal_def jc.parse_print)

subsection \<open>Rewriting raw messages twice\<close>

lemma html_raw_hd:
  assumes "html_raw t = c # u" "c \<noteq> bslash"
  shows "\<exists>t'. t = c # t' \<and> u = html_raw t'"
proof (cases t)
  case (Cons d s)
  show ?thesis
  proof (cases "sep_at t")
    case None
    with assms Cons show ?thesis by (auto simp: html_raw_def esc_with_char html1_def u_escape_def split: if_splits)
  next
    case (Some v)
    with assms show ?thesis by (simp add: html_raw_def esc_with_sep u_escape_def)
  qed
qed (use assms in simp)

lemma sep_at_html_raw:
  assumes "sep_at (c # t) = None"
  shows "sep_at (c # html_raw t) = None"
proof (rule ccontr)
  assume "sep_at (c # html_raw t) \<noteq> None"
  then obtain z u where c: "c = CHR 0xE2" "html_raw t = CHR 0x80 # z # u" "z = CHR 0xA8 \<or> z = CHR 0xA9"
    by (cases "html_raw t"; cases "tl (html_raw t)") (auto simp: sep_at_def split: if_splits)
  from html_raw_hd [OF c(2)] obtain t1 where t1: "t = CHR 0x80 # t1" "html_raw t1 = z # u"
    by (auto simp: bslash_def)
  from html_raw_hd [OF t1(2)] c(3) obtain t2 where "t1 = z # t2" by (auto simp: bslash_def)
  with c t1 assms show False by (auto simp: sep_at_def)
qed

lemma u_escape_plain: "u = 8232 \<or> u = 8233 \<or> u = 60 \<or> u = 62 \<or> u = 38 \<Longrightarrow>
    \<forall>x \<in> set (u_escape u). x \<noteq> CHR 0xE2 \<and> \<not> html_special x"
proof -
  have "\<forall>u \<in> {8232, 8233, 60, 62, 38}. \<forall>x \<in> set (u_escape u). x \<noteq> CHR 0xE2 \<and> \<not> html_special x" by code_simp
  then show "u = 8232 \<or> u = 8233 \<or> u = 60 \<or> u = 62 \<or> u = 38 \<Longrightarrow>
    \<forall>x \<in> set (u_escape u). x \<noteq> CHR 0xE2 \<and> \<not> html_special x" by blast
qed

lemma html_raw_idem [simp]: "html_raw (html_raw r) = html_raw r"
proof (induction r rule: length_induct)
  case (1 r)
  consider "r = []" | u where "sep_at r = Some u" | c cs where "r = c # cs" "sep_at r = None"
    by (cases r; cases "sep_at r") auto
  then show ?case
  proof cases
    case (2 u)
    then have "u = 8232 \<or> u = 8233" by (auto simp: sep_at_def split: if_splits)
    moreover have "html_raw r = u_escape u @ html_raw (drop 3 r)" by (simp add: html_raw_def esc_with_sep [OF 2])
    moreover have "html_raw (html_raw (drop 3 r)) = html_raw (drop 3 r)" using "1.IH" sep_at_split [OF 2] by blast
    ultimately show ?thesis using html_raw_keep [OF u_escape_plain [of u]] by auto
  next
    case (3 c cs)
    then have r: "html_raw r = html1 c @ html_raw cs" by (simp add: html_raw_def esc_with_char)
    have IH: "html_raw (html_raw cs) = html_raw cs" using "1.IH" 3 by simp
    show ?thesis
    proof (cases "html_special c")
      case True
      then have "(of_char c :: nat) = 60 \<or> (of_char c :: nat) = 62 \<or> (of_char c :: nat) = 38"
        by (auto simp: html_special_def)
      then show ?thesis using True r IH html_raw_keep [OF u_escape_plain [of "of_char c"]]
        by (auto simp: html1_def)
    next
      case False
      with r have "html_raw r = c # html_raw cs" by (simp add: html1_def)
      moreover have "html_raw (c # html_raw cs) = c # html_raw (html_raw cs)"
        using sep_at_html_raw [of c cs] 3 False by (simp add: html_raw_def esc_with_char html1_def)
      ultimately show ?thesis using IH by simp
    qed
  qed simp
qed

lemma rewrite_raw_idem [simp]: "rewrite_raw (rewrite_raw j) = rewrite_raw j"
  by (induction j rule: rewrite_raw.induct) auto

end
