(* ===== verification/Netip.thy ===== *)
theory Netip
  imports Go_Prelude
begin

text \<open>
  The parts of the Go standard library package \<open>net/netip\<close> (and \<open>net.ParseIP\<close>) that the
  program uses: parsing of IPv4 and IPv6 addresses and prefixes, printing of IPv4
  prefixes, masking, containment and overlap. The lemmas give the set semantics the
  policy engine relies on: a prefix is the set of addresses that agree with it on its
  first bits.
\<close>

unbundle bit_operations_syntax

section \<open>Addresses and prefixes\<close>

type_synonym ipv4 = "32 word"
type_synonym ipv6 = "128 word"

text \<open>An IPv6 address carries its zone, empty when there is none.\<close>

datatype addr = V4 ipv4 | V6 ipv6 string

datatype netprefix = Prefix (Addr: addr) (Bits: nat)

fun Is4 :: "addr \<Rightarrow> bool" where
  "Is4 (V4 a) = True"
| "Is4 (V6 a z) = False"

fun Zone :: "addr \<Rightarrow> string" where
  "Zone (V4 a) = []"
| "Zone (V6 a z) = z"

section \<open>Parsing IPv4\<close>

text \<open>
  The loop of \<open>parseIPv4Fields\<close>: the value and the number of digits of the current
  octet, whether the previous character was a dot (or there was none), and the octets
  so far.
\<close>

fun parseIPv4Fields :: "string \<Rightarrow> nat \<Rightarrow> nat \<Rightarrow> bool \<Rightarrow> nat list \<Rightarrow> nat list result" where
  "parseIPv4Fields [] val digLen dot fs =
     (if length fs < 3 then Inl (Err ''IPv4 address too short'') else Inr (fs @ [val]))"
| "parseIPv4Fields (c # cs) val digLen dot fs =
     (if is_digit c then
        (if digLen = 1 \<and> val = 0 then Inl (Err ''IPv4 field has octet with leading zero'')
         else if val * 10 + digit_val c > 255 then Inl (Err ''IPv4 field has value >255'')
         else parseIPv4Fields cs (val * 10 + digit_val c) (Suc digLen) False fs)
      else if c = CHR ''.'' then
        (if dot \<or> cs = [] then Inl (Err ''IPv4 field must have at least one digit'')
         else if length fs = 3 then Inl (Err ''IPv4 address too long'')
         else parseIPv4Fields cs 0 0 True (fs @ [val]))
      else Inl (Err ''unexpected character''))"

definition octets_val :: "nat list \<Rightarrow> nat" where
  "octets_val fs = foldl (\<lambda>v f. 256 * v + f) 0 fs"

definition parseIPv4 :: "string \<Rightarrow> addr result" where
  "parseIPv4 s =
     (case parseIPv4Fields s 0 0 True [] of
        Inl e \<Rightarrow> Inl e
      | Inr fs \<Rightarrow> Inr (V4 (of_nat (octets_val fs))))"

section \<open>Parsing IPv6\<close>

definition hex_digit :: "char \<Rightarrow> nat option" where
  "hex_digit c =
     (let n = of_char c :: nat in
      if 48 \<le> n \<and> n \<le> 57 then Some (n - 48)
      else if 97 \<le> n \<and> n \<le> 102 then Some (n - 97 + 10)
      else if 65 \<le> n \<and> n \<le> 70 then Some (n - 65 + 10)
      else None)"

text \<open>One hexadecimal group: its number of digits, its value and the rest.\<close>

fun hex_group :: "nat \<Rightarrow> nat \<Rightarrow> string \<Rightarrow> (nat \<times> nat \<times> string) result" where
  "hex_group off acc [] = Inr (off, acc, [])"
| "hex_group off acc (c # cs) =
     (case hex_digit c of
        None \<Rightarrow> Inr (off, acc, c # cs)
      | Some d \<Rightarrow>
          (if off > 3 then Inl (Err ''each group must have 4 or less digits'')
           else if acc * 16 + d > 65535 then Inl (Err ''IPv6 field has value >=2^16'')
           else hex_group (Suc off) (acc * 16 + d) cs))"

text \<open>
  The main loop of \<open>parseIPv6\<close>: the 16-bit groups so far, the position of the ellipsis
  if one was seen, and the unread text.
\<close>

function v6_loop :: "nat list \<Rightarrow> nat option \<Rightarrow> string \<Rightarrow> (nat list \<times> nat option \<times> string) result" where
  "v6_loop gs ell s =
     (if 8 \<le> length gs then Inr (gs, ell, s)
      else (case hex_group 0 0 s of
         Inl e \<Rightarrow> Inl e
       | Inr (off, acc, rest) \<Rightarrow>
           (if off = 0
            then Inl (Err ''each colon-separated field must have at least one digit'')
            else (case rest of
               [] \<Rightarrow> Inr (gs @ [acc], ell, [])
             | c # cs \<Rightarrow>
                 (if c = CHR ''.'' then
                    (if ell = None \<and> length gs \<noteq> 6
                     then Inl (Err ''embedded IPv4 address must replace the final 2 fields of the address'')
                     else if 8 < length gs + 2
                     then Inl (Err ''too many hex fields to fit an embedded IPv4 at the end of the address'')
                     else (case parseIPv4Fields s 0 0 True [] of
                         Inl e \<Rightarrow> Inl e
                       | Inr fs \<Rightarrow>
                           Inr (gs @ [octets_val (take 2 fs), octets_val (drop 2 fs)], ell, [])))
                  else if c \<noteq> CHR '':'' then Inl (Err ''unexpected character, want colon'')
                  else (case cs of
                     [] \<Rightarrow> Inl (Err ''colon must be followed by more characters'')
                   | d # ds \<Rightarrow>
                       (if d = CHR '':'' then
                          (if ell \<noteq> None then Inl (Err ''multiple :: in address'')
                           else if ds = [] then Inr (gs @ [acc], Some (Suc (length gs)), [])
                           else v6_loop (gs @ [acc]) (Some (Suc (length gs))) ds)
                        else v6_loop (gs @ [acc]) ell cs)))))))"
  by pat_completeness auto
termination
  by (relation "measure (\<lambda>(gs, ell, s). 8 - length gs)") auto

declare v6_loop.simps [simp del]

definition groups_val :: "nat list \<Rightarrow> nat" where
  "groups_val gs = foldl (\<lambda>v g. 65536 * v + g) 0 gs"

definition expand_ellipsis :: "nat list \<Rightarrow> nat \<Rightarrow> nat list" where
  "expand_ellipsis gs e = take e gs @ replicate (8 - length gs) 0 @ drop e gs"

definition parseIPv6 :: "string \<Rightarrow> addr result" where
  "parseIPv6 inp =
     (let s = takeWhile (\<lambda>c. c \<noteq> CHR ''%'') inp;
          zone = drop 1 (dropWhile (\<lambda>c. c \<noteq> CHR ''%'') inp)
      in if CHR ''%'' \<in> set inp \<and> zone = []
         then Inl (Err ''zone must be a non-empty string'')
         else if s = ''::'' then Inr (V6 0 zone)
         else
           (let lead = (take 2 s = ''::'') in
            case v6_loop [] (if lead then Some 0 else None) (if lead then drop 2 s else s) of
              Inl e \<Rightarrow> Inl e
            | Inr (gs, ell, rest) \<Rightarrow>
                (if rest \<noteq> [] then Inl (Err ''trailing garbage after address'')
                 else if length gs < 8 then
                   (case ell of
                      None \<Rightarrow> Inl (Err ''address string too short'')
                    | Some e \<Rightarrow> Inr (V6 (of_nat (groups_val (expand_ellipsis gs e))) zone))
                 else if ell \<noteq> None
                 then Inl (Err ''the :: must expand to at least one field of zeros'')
                 else Inr (V6 (of_nat (groups_val gs)) zone))))"

section \<open>ParseAddr, ParsePrefix, net.ParseIP\<close>

fun first_marker :: "string \<Rightarrow> char option" where
  "first_marker [] = None"
| "first_marker (c # cs) =
     (if c = CHR ''.'' \<or> c = CHR '':'' \<or> c = CHR ''%'' then Some c else first_marker cs)"

definition ParseAddr :: "string \<Rightarrow> addr result" where
  "ParseAddr s =
     (case first_marker s of
        None \<Rightarrow> Inl (Err ''unable to parse IP'')
      | Some c \<Rightarrow>
          (if c = CHR ''.'' then parseIPv4 s
           else if c = CHR '':'' then parseIPv6 s
           else Inl (Err ''missing IPv6 address'')))"

definition maxBits :: "addr \<Rightarrow> nat" where
  "maxBits a = (if Is4 a then 32 else 128)"

text \<open>
  \<open>strconv.Atoi\<close> on the digits after the slash. Go checks \<open>int\<close> overflow as well; a
  numeral that overflows is out of range in either reading, and rejected.
\<close>

definition parse_bits :: "string \<Rightarrow> nat \<Rightarrow> nat result" where
  "parse_bits b mx =
     (if 1 < length b \<and> (hd b < CHR ''1'' \<or> CHR ''9'' < hd b)
      then Inl (Err ''bad bits after slash'')
      else if b = [] \<or> \<not> list_all is_digit b then Inl (Err ''bad bits after slash'')
      else if mx < atoi_digits b then Inl (Err ''prefix length out of range'')
      else Inr (atoi_digits b))"

text \<open>The last slash splits the address from the length.\<close>

definition before_last_slash :: "string \<Rightarrow> string" where
  "before_last_slash s = rev (drop 1 (dropWhile (\<lambda>c. c \<noteq> CHR ''/'') (rev s)))"

definition after_last_slash :: "string \<Rightarrow> string" where
  "after_last_slash s = rev (takeWhile (\<lambda>c. c \<noteq> CHR ''/'') (rev s))"

definition ParsePrefix :: "string \<Rightarrow> netprefix result" where
  "ParsePrefix s =
     (if CHR ''/'' \<notin> set s then Inl (Err ''no slash'')
      else (case ParseAddr (before_last_slash s) of
         Inl e \<Rightarrow> Inl e
       | Inr ip \<Rightarrow>
           (if \<not> Is4 ip \<and> Zone ip \<noteq> [] then Inl (Err ''IPv6 zones cannot be present in a prefix'')
            else (case parse_bits (after_last_slash s) (maxBits ip) of
               Inl e \<Rightarrow> Inl e
             | Inr n \<Rightarrow> Inr (Prefix ip n)))))"

text \<open>\<open>net.ParseIP\<close> and \<open>IP.To4\<close>: an IPv4-mapped IPv6 address has an IPv4 form.\<close>

definition ParseIP :: "string \<Rightarrow> addr option" where
  "ParseIP s =
     (case ParseAddr s of
        Inl e \<Rightarrow> None
      | Inr a \<Rightarrow> (if Zone a \<noteq> [] then None else Some a))"

fun To4 :: "addr \<Rightarrow> ipv4 option" where
  "To4 (V4 a) = Some a"
| "To4 (V6 a z) = (if drop_bit 32 a = 0xFFFF then Some (ucast a) else None)"

section \<open>Printing\<close>

definition octets :: "ipv4 \<Rightarrow> nat list" where
  "octets a =
     [unat a div 16777216 mod 256, unat a div 65536 mod 256, unat a div 256 mod 256,
      unat a mod 256]"

definition v4_string :: "ipv4 \<Rightarrow> string" where
  "v4_string a = Join (map Itoa (octets a)) ''.''"

definition v4_prefix_string :: "ipv4 \<Rightarrow> nat \<Rightarrow> string" where
  "v4_prefix_string a n = v4_string a @ ''/'' @ Itoa n"

text \<open>
  \<open>Addr.String\<close> for IPv6: hexadecimal groups, the first longest run of at least two zero groups
  as an ellipsis, IPv4-mapped addresses with their IPv4 form.
\<close>

definition hex_char :: "nat \<Rightarrow> char" where
  "hex_char d = char_of (if d < 10 then 48 + d else 87 + d)"

fun hex_text :: "nat \<Rightarrow> string" where
  "hex_text n = (if n < 16 then [hex_char n] else hex_text (n div 16) @ [hex_char (n mod 16)])"

declare hex_text.simps [simp del]

definition v6_groups :: "ipv6 \<Rightarrow> nat list" where
  "v6_groups x = map (\<lambda>i. unat (take_bit 16 (drop_bit (112 - 16 * i) x))) [0..<8]"

definition zero_run :: "nat list \<Rightarrow> nat \<times> nat" where
  "zero_run gs =
     fold (\<lambda>i (start, len). let l = length (takeWhile (\<lambda>g. g = 0) (drop i gs)) in if 2 \<le> l \<and> len < l then (i, l) else (start, len))
       [0..<8] (0, 0)"

definition v6_string :: "ipv6 \<Rightarrow> string" where
  "v6_string x =
     (let gs = v6_groups x; (start, len) = zero_run gs
      in if len = 0 then Join (map hex_text gs) '':''
         else Join (map hex_text (take start gs)) '':'' @ ''::'' @ Join (map hex_text (drop (start + len) gs)) '':'')"

fun addr_string :: "addr \<Rightarrow> string" where
  "addr_string (V4 a) = v4_string a"
| "addr_string (V6 x z) =
     (case To4 (V6 x z) of Some a \<Rightarrow> ''::ffff:'' @ v4_string a | None \<Rightarrow> v6_string x) @ (if z = [] then [] else ''%'' @ z)"

fun prefix_string :: "netprefix \<Rightarrow> string" where
  "prefix_string (Prefix a n) = addr_string a @ ''/'' @ Itoa n"

lemma v6_string_forms:
  "v6_string 0 = ''::''" "v6_string 1 = ''::1''" "v6_string 0x20010DB8000000000000000000000001 = ''2001:db8::1''"
  "v6_string 0x20010DB8000000010000000000000000 = ''2001:db8:0:1::''" "v6_string 0x00010002000300040005000600070008 = ''1:2:3:4:5:6:7:8''"
  "addr_string (V6 0xFFFFC0A80001 []) = ''::ffff:192.168.0.1''"
  by code_simp+

section \<open>Masking, containment, overlap\<close>

definition v4_mask :: "nat \<Rightarrow> ipv4 \<Rightarrow> ipv4" where
  "v4_mask n a = a AND NOT (mask (32 - n))"

definition v6_mask :: "nat \<Rightarrow> ipv6 \<Rightarrow> ipv6" where
  "v6_mask n a = a AND NOT (mask (128 - n))"

fun Masked :: "netprefix \<Rightarrow> netprefix" where
  "Masked (Prefix (V4 a) n) = Prefix (V4 (v4_mask n a)) n"
| "Masked (Prefix (V6 a z) n) = Prefix (V6 (v6_mask n a) []) n"

fun Contains :: "netprefix \<Rightarrow> addr \<Rightarrow> bool" where
  "Contains (Prefix (V4 b) n) (V4 a) = (drop_bit (32 - n) (a XOR b) = 0)"
| "Contains (Prefix (V6 b z') n) (V6 a z) = (z = [] \<and> drop_bit (128 - n) (a XOR b) = 0)"
| "Contains p a = False"

fun Overlaps :: "netprefix \<Rightarrow> netprefix \<Rightarrow> bool" where
  "Overlaps (Prefix (V4 a) m) (Prefix (V4 b) n) =
     ((a = b \<and> m = n) \<or> min m n = 0 \<or> v4_mask (min m n) a = v4_mask (min m n) b)"
| "Overlaps (Prefix (V6 a z) m) (Prefix (V6 b z') n) =
     ((a = b \<and> z = z' \<and> m = n) \<or> min m n = 0 \<or> v6_mask (min m n) a = v6_mask (min m n) b)"
| "Overlaps p q = False"

text \<open>\<open>Addr.As4\<close> and \<open>AddrFrom4\<close>: an IPv4 address as four bytes.\<close>

definition As4 :: "ipv4 \<Rightarrow> 8 word list" where
  "As4 a = map (\<lambda>i. ucast (drop_bit (24 - 8 * i) a)) [0, 1, 2, 3]"

definition AddrFrom4 :: "8 word list \<Rightarrow> ipv4" where
  "AddrFrom4 bs =
     push_bit 24 (ucast (bs ! 0)) OR push_bit 16 (ucast (bs ! 1)) OR
     push_bit 8 (ucast (bs ! 2)) OR ucast (bs ! 3)"

section \<open>Set semantics\<close>

text \<open>Shifting out the low bits of a difference compares the high bits.\<close>

lemma drop_bit_xor_eq_0_iff:
  fixes a b :: "'a::len word"
  shows "drop_bit k (a XOR b) = 0 \<longleftrightarrow> a AND NOT (mask k) = b AND NOT (mask k)"
proof -
  have "drop_bit k (a XOR b) = 0 \<longleftrightarrow> (\<forall>i. k \<le> i \<longrightarrow> bit a i = bit b i)"
  proof
    assume L: "drop_bit k (a XOR b) = 0"
    show "\<forall>i. k \<le> i \<longrightarrow> bit a i = bit b i"
    proof (intro allI impI)
      fix i assume "k \<le> i"
      from L have "\<not> bit (drop_bit k (a XOR b)) (i - k)" by simp
      then show "bit a i = bit b i"
        using \<open>k \<le> i\<close> by (auto simp: bit_simps)
    qed
  next
    assume R: "\<forall>i. k \<le> i \<longrightarrow> bit a i = bit b i"
    then show "drop_bit k (a XOR b) = 0"
      by (intro bit_eqI) (simp add: bit_drop_bit_eq bit_xor_iff)
  qed
  moreover have "a AND NOT (mask k) = b AND NOT (mask k) \<longleftrightarrow> (\<forall>i. k \<le> i \<longrightarrow> bit a i = bit b i)"
    by (auto simp: bit_eq_iff bit_simps not_less dest: bit_imp_le_length)
  ultimately show ?thesis by simp
qed

lemma Contains_V4: "Contains (Prefix (V4 b) n) (V4 a) \<longleftrightarrow> v4_mask n a = v4_mask n b"
  unfolding Contains.simps v4_mask_def by (rule drop_bit_xor_eq_0_iff)

lemma Contains_V6: "Contains (Prefix (V6 b z') n) (V6 a z) \<longleftrightarrow> z = [] \<and> v6_mask n a = v6_mask n b"
  unfolding Contains.simps v6_mask_def by (simp only: drop_bit_xor_eq_0_iff)

lemma bit_v4_mask: "bit (v4_mask n a) i \<longleftrightarrow> 32 - n \<le> i \<and> bit a i"
  by (auto simp: v4_mask_def bit_simps dest: bit_imp_le_length)

lemma bit_v6_mask: "bit (v6_mask n a) i \<longleftrightarrow> 128 - n \<le> i \<and> bit a i"
  by (auto simp: v6_mask_def bit_simps dest: bit_imp_le_length)

lemma v4_mask_mask [simp]: "v4_mask m (v4_mask n a) = v4_mask (min m n) a"
  by (rule bit_eqI) (auto simp: bit_v4_mask)

lemma v6_mask_mask [simp]: "v6_mask m (v6_mask n a) = v6_mask (min m n) a"
  by (rule bit_eqI) (auto simp: bit_v6_mask)

lemma v4_mask_0 [simp]: "v4_mask 0 a = 0"
  by (rule bit_eqI) (auto simp: bit_v4_mask dest: bit_imp_le_length)

lemma v4_mask_32 [simp]: "v4_mask 32 a = a"
  by (simp add: v4_mask_def)

lemma v4_mask_eq_mono: "v4_mask n a = v4_mask n b \<Longrightarrow> m \<le> n \<Longrightarrow> v4_mask m a = v4_mask m b"
  by (metis min.absorb1 v4_mask_mask)

lemma Overlaps_V4:
  "Overlaps (Prefix (V4 a) m) (Prefix (V4 b) n) \<longleftrightarrow> v4_mask (min m n) a = v4_mask (min m n) b"
  by (cases "min m n = 0") auto

declare Contains.simps(1,2) [simp del] Overlaps.simps(1,2) [simp del]

lemmas netip_v4 = Contains_V4 Overlaps_V4

lemma Contains_Masked [simp]: "Contains (Masked p) a = Contains p a"
  by (cases "(p, a)" rule: Contains.cases) (auto simp: Contains_V4 Contains_V6)

text \<open>Two prefixes overlap exactly when they share an address.\<close>

lemma Overlaps_V4_iff:
  "Overlaps (Prefix (V4 a) m) (Prefix (V4 b) n) \<longleftrightarrow>
    (\<exists>x. Contains (Prefix (V4 a) m) (V4 x) \<and> Contains (Prefix (V4 b) n) (V4 x))"
  (is "?L \<longleftrightarrow> ?R")
proof
  assume L: ?L
  show ?R
  proof (cases "m \<le> n")
    case True
    with L show ?thesis by (intro exI [of _ b]) (simp add: netip_v4 min_def)
  next
    case False
    with L show ?thesis by (intro exI [of _ a]) (simp add: netip_v4 min_def)
  qed
next
  assume ?R
  then show ?L by (auto simp: netip_v4) (metis min.cobounded1 min.cobounded2 v4_mask_eq_mono)
qed

lemma Contains_family: "Contains p (V4 a) \<Longrightarrow> Is4 (Addr p)"
  by (cases "(p, V4 a)" rule: Contains.cases) auto

lemma Is4_Masked [simp]: "Is4 (Addr (Masked p)) = Is4 (Addr p)" "Bits (Masked p) = Bits p"
  by (cases p rule: Masked.cases; simp)+

text \<open>A prefix of length below 32 is split into two halves by its next bit.\<close>

lemma v4_mask_Suc_split:
  assumes "n < 32"
  shows "v4_mask n x = v4_mask n a \<longleftrightarrow>
    v4_mask (Suc n) x = v4_mask (Suc n) (unset_bit (31 - n) a) \<or>
    v4_mask (Suc n) x = v4_mask (Suc n) (set_bit (31 - n) a)"
proof -
  have agree: "v4_mask k x = v4_mask k y \<longleftrightarrow> (\<forall>i<32. 32 - k \<le> i \<longrightarrow> bit x i = bit y i)" for k and x y :: ipv4
    by (auto simp: bit_eq_iff bit_v4_mask dest: bit_imp_le_length)
  have idx: "32 - Suc n \<le> i \<longleftrightarrow> i = 31 - n \<or> 32 - n \<le> i" for i
    using assms by auto
  have ne: "\<not> 32 - n \<le> 31 - n"
    using assms by arith
  show ?thesis
    unfolding agree idx using ne by (auto simp: bit_simps)
qed

lemma bit_AddrFrom4:
  assumes "q < 4" and "r < 8"
  shows "bit (AddrFrom4 bs) (8 * q + r) \<longleftrightarrow> bit (bs ! (3 - q)) r"
proof -
  have beyond: "8 \<le> j \<Longrightarrow> \<not> bit (w :: 8 word) j" for w j
    using bit_imp_le_length [of w j] by auto
  from \<open>q < 4\<close> consider "q = 0" | "q = 1" | "q = 2" | "q = 3" by linarith
  then show ?thesis
    by cases (use \<open>r < 8\<close> in \<open>auto simp: AddrFrom4_def bit_simps beyond\<close>)
qed

lemma bit_As4:
  assumes "q < 4" and "r < 8"
  shows "bit (As4 a ! (3 - q)) r \<longleftrightarrow> bit a (8 * q + r)"
proof -
  from \<open>q < 4\<close> consider "q = 0" | "q = 1" | "q = 2" | "q = 3" by linarith
  then show ?thesis
    by cases (use \<open>r < 8\<close> in \<open>auto simp: As4_def bit_simps numeral_2_eq_2 numeral_3_eq_3\<close>)
qed

section \<open>IPv4 text\<close>

lemma Itoa_1: "n < 10 \<Longrightarrow> Itoa n = [digit_char n]"
  by (simp add: Itoa.simps [of n])

lemma Itoa_2: "10 \<le> n \<Longrightarrow> n < 100 \<Longrightarrow> Itoa n = [digit_char (n div 10), digit_char (n mod 10)]"
  using Itoa_1 [of "n div 10"] by (simp add: Itoa.simps [of n])

lemma Itoa_3:
  "100 \<le> n \<Longrightarrow> n < 1000 \<Longrightarrow>
    Itoa n = [digit_char (n div 100), digit_char (n div 10 mod 10), digit_char (n mod 10)]"
  using Itoa_2 [of "n div 10"] by (simp add: Itoa.simps [of n] div_mult2_eq [symmetric])

lemma not_is_digit [simp]:
  "\<not> is_digit (CHR ''.'')" "\<not> is_digit (CHR ''/'')" "\<not> is_digit (CHR '','')"
  "\<not> is_digit (CHR '' '')" "\<not> is_digit (CHR '':'')" "\<not> is_digit (CHR ''%'')"
  by (simp_all add: is_digit_def)

text \<open>The parser reads back one printed octet.\<close>

lemma parseIPv4Fields_Itoa:
  assumes "f \<le> 255"
  shows "parseIPv4Fields (Itoa f @ rest) 0 0 dot fs =
    parseIPv4Fields rest f (length (Itoa f)) False fs"
proof -
  consider "f < 10" | "10 \<le> f" "f < 100" | "100 \<le> f" by linarith
  then show ?thesis
  proof cases
    case 1
    then show ?thesis using assms by (simp add: Itoa_1)
  next
    case 2
    then have "f div 10 \<noteq> 0" and "f div 10 \<le> 255" by simp_all
    with 2 show ?thesis using assms by (simp add: Itoa_2)
  next
    case 3
    have "f div 100 = f div 10 div 10"
      by (simp add: div_mult2_eq [symmetric])
    then have tens: "f div 100 * 10 + f div 10 mod 10 = f div 10"
      by simp
    from 3 assms have "f div 100 \<noteq> 0" "f div 100 \<le> 255" "f div 10 \<le> 255" by simp_all
    with 3 assms show ?thesis by (simp add: Itoa_3 tens)
  qed
qed

lemma octets_le: "f \<in> set (octets a) \<Longrightarrow> f \<le> 255"
  by (auto simp: octets_def)

lemma parseIPv4Fields_v4_string: "parseIPv4Fields (v4_string a) 0 0 True [] = Inr (octets a)"
  by (simp add: v4_string_def octets_def parseIPv4Fields_Itoa
      parseIPv4Fields_Itoa [where rest = "[]", simplified])

lemma octets_val_octets: "octets_val (octets a) = unat a"
proof -
  define n where "n = unat a"
  have "n < 4294967296"
    unfolding n_def using unsigned_less [of a] by simp
  then have top: "n div 16777216 mod 256 = n div 16777216" by simp
  have "n div 65536 = n div 256 div 256" "n div 16777216 = n div 256 div 256 div 256"
    by (simp_all add: div_mult2_eq [symmetric])
  then have "256 * (256 * (256 * (n div 16777216) + n div 65536 mod 256) + n div 256 mod 256)
      + n mod 256 = n"
    by simp
  then show ?thesis
    unfolding octets_val_def octets_def n_def [symmetric] using top by simp
qed

lemma v4_string_chars: "c \<in> set (v4_string a) \<Longrightarrow> is_digit c \<or> c = CHR ''.''"
  using Itoa_digits by (auto simp: v4_string_def octets_def)

lemma first_marker_digits: "\<forall>c \<in> set s. is_digit c \<Longrightarrow> first_marker (s @ t) = first_marker t"
  by (induction s) auto

lemma ParseAddr_v4_string [simp]: "ParseAddr (v4_string a) = Inr (V4 a)"
proof -
  have "first_marker (v4_string a) = Some (CHR ''.'')"
    by (simp add: v4_string_def octets_def first_marker_digits Itoa_digits)
  then show ?thesis
    by (simp add: ParseAddr_def parseIPv4_def parseIPv4Fields_v4_string octets_val_octets)
qed

lemma after_last_slash_append: "CHR ''/'' \<notin> set t \<Longrightarrow> after_last_slash (s @ CHR ''/'' # t) = t"
  unfolding after_last_slash_def by (simp add: takeWhile_tail rev_swap) blast

lemma before_last_slash_append: "CHR ''/'' \<notin> set t \<Longrightarrow> before_last_slash (s @ CHR ''/'' # t) = s"
  unfolding before_last_slash_def
  by (subst rev_append, subst rev.simps, subst append_assoc, subst dropWhile_append2) auto

lemma parse_bits_Itoa: "n \<le> mx \<Longrightarrow> n < 1000 \<Longrightarrow> parse_bits (Itoa n) mx = Inr n"
proof -
  assume "n \<le> mx" "n < 1000"
  have first: "10 \<le> k \<Longrightarrow> k < 1000 \<Longrightarrow>
      \<not> (hd (Itoa k) < CHR ''1'' \<or> CHR ''9'' < hd (Itoa k))" for k
    by (cases "k < 100") (auto simp: Itoa_2 Itoa_3 less_char_def digit_char_def)
  then have "1 < length (Itoa n) \<Longrightarrow> \<not> (hd (Itoa n) < CHR ''1'' \<or> CHR ''9'' < hd (Itoa n))"
    using \<open>n < 1000\<close> by (cases "n < 10") (auto simp: Itoa_1)
  then show ?thesis using \<open>n \<le> mx\<close> Itoa_digits [of n] by (simp add: parse_bits_def list_all_iff)
qed

text \<open>Printing an IPv4 prefix and parsing it again gives the prefix back.\<close>

lemma ParsePrefix_v4_prefix_string:
  assumes "n \<le> 32"
  shows "ParsePrefix (v4_prefix_string a n) = Inr (Prefix (V4 a) n)"
proof -
  have "CHR ''/'' \<notin> set (Itoa n)" using Itoa_digits [of n] by auto
  then show ?thesis
    using assms by (simp add: ParsePrefix_def v4_prefix_string_def after_last_slash_append
        before_last_slash_append parse_bits_Itoa maxBits_def)
qed

definition parse_v4 :: "string \<Rightarrow> (ipv4 \<times> nat) option" where
  "parse_v4 s = (case ParsePrefix s of Inr (Prefix (V4 a) n) \<Rightarrow> Some (a, n) | _ \<Rightarrow> None)"

interpretation v4p: text_codec "\<lambda>(a, n). v4_prefix_string a n" parse_v4 "\<lambda>(a, n). n \<le> 32"
  by unfold_locales (auto simp: parse_v4_def ParsePrefix_v4_prefix_string)

text \<open>Every parsed prefix has a length its family admits.\<close>

lemma parse_bits_le: "parse_bits b mx = Inr n \<Longrightarrow> n \<le> mx"
  by (auto simp: parse_bits_def split: if_splits)

lemma ParsePrefix_Bits: "ParsePrefix s = Inr p \<Longrightarrow> Bits p \<le> maxBits (Addr p)"
  by (auto simp: ParsePrefix_def split: if_splits sum.splits dest: parse_bits_le)

lemma ParsePrefix_V4_le: "ParsePrefix s = Inr (Prefix (V4 a) n) \<Longrightarrow> n \<le> 32"
  using ParsePrefix_Bits by (fastforce simp: maxBits_def)

text \<open>The text of an IPv4 prefix consists of digits, dots and slashes only.\<close>

lemma parseIPv4Fields_chars:
  "parseIPv4Fields s v d dot fs = Inr r \<Longrightarrow> c \<in> set s \<Longrightarrow> is_digit c \<or> c = CHR ''.''"
  by (induction s v d dot fs rule: parseIPv4Fields.induct) (auto split: if_splits)

lemma ParseAddr_V4_chars:
  assumes "ParseAddr s = Inr (V4 a)" and "c \<in> set s"
  shows "is_digit c \<or> c = CHR ''.''"
proof -
  have "parseIPv6 s \<noteq> Inr (V4 a)"
    unfolding parseIPv6_def Let_def by (simp split: sum.split option.split prod.split)
  with assms(1) have "parseIPv4 s = Inr (V4 a)"
    by (auto simp: ParseAddr_def split: if_splits option.splits)
  with assms(2) show ?thesis
    by (auto simp: parseIPv4_def split: sum.splits dest: parseIPv4Fields_chars)
qed

lemma slash_split: "CHR ''/'' \<in> set s \<Longrightarrow> s = before_last_slash s @ CHR ''/'' # after_last_slash s"
proof -
  assume "CHR ''/'' \<in> set s"
  then obtain xs ys where s: "s = xs @ CHR ''/'' # ys" "CHR ''/'' \<notin> set ys"
    by (meson split_list_last)
  then show ?thesis by (simp add: after_last_slash_append before_last_slash_append)
qed

lemma ParsePrefix_V4_chars:
  assumes "ParsePrefix s = Inr p" and "Is4 (Addr p)" and "c \<in> set s"
  shows "is_digit c \<or> c = CHR ''.'' \<or> c = CHR ''/''"
proof -
  from assms(1) have slash: "CHR ''/'' \<in> set s"
    and addr: "ParseAddr (before_last_slash s) = Inr (Addr p)"
    and bits: "list_all is_digit (after_last_slash s)"
    by (auto simp: ParsePrefix_def parse_bits_def split: if_splits sum.splits)
  from assms(2) obtain a where v4: "Addr p = V4 a" by (cases "Addr p") auto
  have "c \<in> set (before_last_slash s @ CHR ''/'' # after_last_slash s)"
    using assms(3) by (simp only: slash_split [OF slash, symmetric])
  then consider "c \<in> set (before_last_slash s)" | "c = CHR ''/''" | "c \<in> set (after_last_slash s)"
    by auto
  then show ?thesis
    using addr bits v4 by cases (auto simp: list_all_iff dest: ParseAddr_V4_chars)
qed

lemma ParsePrefix_neq_Nil: "ParsePrefix s = Inr p \<Longrightarrow> s \<noteq> []"
  by (auto simp: ParsePrefix_def)

end
