(* ===== verification/Bootstrap.thy ===== *)
theory Bootstrap
  imports Files Json_Decode Netip Go_Http "HOL-Library.Multiset"
begin

text \<open>
  Package \<open>bootstrap\<close> of the agent: the four ways to find a discovery server, the download of a
  topology and its trust root configurations (TRCs), the pinning check, the replacement of the
  cached files and the refresh loop. The answers of DNS, DHCP, multicast DNS and of the
  discovery servers are parameters, indexed by the attempt and the request.

  The lemmas show that a pinned TRC is never replaced by other bytes in any state a reader can
  see, that a successful fetch leaves what one server served, that the topology appears only
  after its TRCs, and when the refresh loop notifies.
\<close>

section \<open>Discovery of the server\<close>

datatype Discoverer =
    URLDiscoverer string
  | DNSDiscoverer string
  | DHCPDiscoverer string
  | MDNSDiscoverer

definition NewDiscoverer :: "string \<Rightarrow> string \<Rightarrow> string \<Rightarrow> string \<Rightarrow> Discoverer result" where
  "NewDiscoverer m url dnsDomain iface =
     (if m = ''url'' then Inr (URLDiscoverer url)
      else if m = ''dns'' then Inr (DNSDiscoverer dnsDomain)
      else if m = ''dhcp'' then Inr (DHCPDiscoverer iface)
      else if m = ''mdns'' then Inr MDNSDiscoverer
      else Inl (Err (''unknown bootstrap mode '' @ m)))"

record SRV =
  Target :: string
  Port :: nat

record discovery =
  LookupSRV :: "string \<Rightarrow> string \<Rightarrow> string \<Rightarrow> SRV list result"
  NewDHCP :: "string \<Rightarrow> goerror option"
  DiscoverOffer :: "string \<Rightarrow> ipv4 list result"
  NewResolver :: "goerror option"
  Browse :: "string \<Rightarrow> string \<Rightarrow> (ipv4 list \<times> nat) list result"

definition discoveryPort :: nat where
  "discoveryPort = 8041"

definition host_url :: "string \<Rightarrow> nat \<Rightarrow> string" where
  "host_url host port = ''http://'' @ host @ '':'' @ Itoa port"

definition urlsFromWWWServers :: "ipv4 list \<Rightarrow> string list" where
  "urlsFromWWWServers ips = map (\<lambda>ip. host_url (v4_string ip) discoveryPort) ips"

definition dns_BaseURLs :: "discovery \<Rightarrow> string \<Rightarrow> string list result" where
  "dns_BaseURLs dsc domain =
     (case LookupSRV dsc ''sciondiscovery'' ''tcp'' domain of
        Inl e \<Rightarrow> Inl (Wrap (''SRV _sciondiscovery._tcp.'' @ domain) e)
      | Inr srvs \<Rightarrow>
          (let urls = map (\<lambda>s. host_url (TrimSuffix (Target s) ''.'') (Port s)) (filter (\<lambda>s. Target s \<noteq> ''.'') srvs)
           in if urls = [] then Inl (Err (''no SRV records for _sciondiscovery._tcp.'' @ domain)) else Inr urls))"

definition dhcp_BaseURLs :: "discovery \<Rightarrow> string \<Rightarrow> string list result" where
  "dhcp_BaseURLs dsc iface =
     (case NewDHCP dsc iface of
        Some e \<Rightarrow> Inl (Wrap (''dhcp client on '' @ iface) e)
      | None \<Rightarrow>
          (case DiscoverOffer dsc iface of
             Inl e \<Rightarrow> Inl (Wrap ''dhcp discover'' e)
           | Inr ips \<Rightarrow>
               (if ips = [] then Inl (Err ''dhcp: no option 72 (WWW server) in offer'')
                else Inr (urlsFromWWWServers ips))))"

definition mdns_BaseURLs :: "discovery \<Rightarrow> string list result" where
  "mdns_BaseURLs dsc =
     (case NewResolver dsc of
        Some e \<Rightarrow> Inl e
      | None \<Rightarrow>
          (case Browse dsc ''_sciondiscovery._tcp'' ''local.'' of
             Inl e \<Rightarrow> Inl e
           | Inr entries \<Rightarrow>
               (let urls = concat (map (\<lambda>(ips, port). map (\<lambda>ip. host_url (v4_string ip) port) ips) entries)
                in if urls = [] then Inl (Err ''mdns: no _sciondiscovery._tcp services found'') else Inr urls)))"

fun BaseURLs :: "discovery \<Rightarrow> Discoverer \<Rightarrow> string list result" where
  "BaseURLs dsc (URLDiscoverer url) = Inr [url]"
| "BaseURLs dsc (DNSDiscoverer domain) = dns_BaseURLs dsc domain"
| "BaseURLs dsc (DHCPDiscoverer iface) = dhcp_BaseURLs dsc iface"
| "BaseURLs dsc MDNSDiscoverer = mdns_BaseURLs dsc"

section \<open>Download\<close>

definition maxBodySize :: nat where
  "maxBodySize = 4 * 2 ^ 20"

text \<open>The answer to the request with a given number.\<close>

type_synonym web = "nat \<Rightarrow> string \<Rightarrow> web_response result"

definition httpGet :: "web \<Rightarrow> nat \<Rightarrow> string \<Rightarrow> string result" where
  "httpGet web n url =
     (case web n url of
        Inl e \<Rightarrow> Inl e
      | Inr resp \<Rightarrow>
          (if StatusCode resp \<noteq> 200 then Inl (Err (''GET '' @ url @ '': '' @ StatusLine resp))
           else
             (let body = take (maxBodySize + 1) (Bytes resp)
              in if length body \<le> maxBodySize \<and> ReadError resp \<noteq> None then Inl (the (ReadError resp))
                 else if maxBodySize < length body
                 then Inl (Err (''GET '' @ url @ '': response exceeds '' @ Itoa maxBodySize @ '' bytes''))
                 else Inr body)))"

record trcID =
  ISD :: int
  Base :: int
  Serial :: int

definition zero_trcID :: trcID where
  "zero_trcID = \<lparr>ISD = 0, Base = 0, Serial = 0\<rparr>"

fun dec_trcID_fields :: "trcID \<Rightarrow> (string \<times> json) list \<Rightarrow> trcID result" where
  "dec_trcID_fields i [] = Inr i"
| "dec_trcID_fields i ((k, v) # ms) =
     (if field_is ''isd'' (unquote k)
      then (case dec_int (ISD i) v of Inl e \<Rightarrow> Inl e | Inr x \<Rightarrow> dec_trcID_fields (i\<lparr>ISD := x\<rparr>) ms)
      else if field_is ''base_number'' (unquote k)
      then (case dec_int (Base i) v of Inl e \<Rightarrow> Inl e | Inr x \<Rightarrow> dec_trcID_fields (i\<lparr>Base := x\<rparr>) ms)
      else if field_is ''serial_number'' (unquote k)
      then (case dec_int (Serial i) v of Inl e \<Rightarrow> Inl e | Inr x \<Rightarrow> dec_trcID_fields (i\<lparr>Serial := x\<rparr>) ms)
      else dec_trcID_fields i ms)"

definition dec_trcID :: "trcID \<Rightarrow> json \<Rightarrow> trcID result" where
  "dec_trcID old j =
     (case j of
        JNull \<Rightarrow> Inr old
      | JObj ms \<Rightarrow> dec_trcID_fields old ms
      | _ \<Rightarrow> Inl (type_error ''trcID''))"

text \<open>A \<open>trcEntry\<close> is represented by its only field.\<close>

fun dec_trcEntry_fields :: "trcID \<Rightarrow> (string \<times> json) list \<Rightarrow> trcID result" where
  "dec_trcEntry_fields i [] = Inr i"
| "dec_trcEntry_fields i ((k, v) # ms) =
     (if field_is ''id'' (unquote k)
      then (case dec_trcID i v of Inl e \<Rightarrow> Inl e | Inr x \<Rightarrow> dec_trcEntry_fields x ms)
      else dec_trcEntry_fields i ms)"

definition dec_trcEntry :: "json \<Rightarrow> trcID result" where
  "dec_trcEntry j =
     (case j of
        JNull \<Rightarrow> Inr zero_trcID
      | JObj ms \<Rightarrow> dec_trcEntry_fields zero_trcID ms
      | _ \<Rightarrow> Inl (type_error ''trcEntry''))"

definition fmt_int :: "int \<Rightarrow> string" where
  "fmt_int n = (if n < 0 then CHR ''-'' # Itoa (nat (- n)) else Itoa (nat n))"

definition blob_url :: "string \<Rightarrow> trcID \<Rightarrow> string" where
  "blob_url base i =
     base @ ''/trcs/isd'' @ fmt_int (ISD i) @ ''-b'' @ fmt_int (Base i) @ ''-s'' @ fmt_int (Serial i) @ ''/blob''"

definition trc_name :: "trcID \<Rightarrow> string" where
  "trc_name i = ''ISD'' @ fmt_int (ISD i) @ ''-B'' @ fmt_int (Base i) @ ''-S'' @ fmt_int (Serial i) @ ''.trc''"

fun get_trcs :: "web \<Rightarrow> string \<Rightarrow> nat \<Rightarrow> trcID list \<Rightarrow> string gomap \<Rightarrow> string gomap result" where
  "get_trcs web base n [] trcs = Inr trcs"
| "get_trcs web base n (i # is) trcs =
     (case httpGet web n (blob_url base i) of
        Inl e \<Rightarrow> Inl e
      | Inr raw \<Rightarrow> get_trcs web base (Suc n) is (mput (trc_name i) raw trcs))"

definition download :: "web \<Rightarrow> string \<Rightarrow> (string \<times> string gomap) result" where
  "download web base =
     (case httpGet web 0 (base @ ''/topology'') of
        Inl e \<Rightarrow> Inl e
      | Inr topo \<Rightarrow>
          (case Unmarshal (dec_str_field ''isd_as'') topo of
             Inl e \<Rightarrow> Inl (Wrap (''invalid topology from '' @ base) e)
           | Inr ia \<Rightarrow>
               (if ia = [] then Inl (Err (''topology from '' @ base @ '' has no isd_as''))
                else
                  (case httpGet web 1 (base @ ''/trcs'') of
                     Inl e \<Rightarrow> Inl e
                   | Inr lst \<Rightarrow>
                       (case Unmarshal (dec_slice dec_trcEntry) lst of
                          Inl e \<Rightarrow> Inl (Wrap ''invalid trc list'' e)
                        | Inr entries \<Rightarrow>
                            (case get_trcs web base 2 entries [] of
                               Inl e \<Rightarrow> Inl e
                             | Inr trcs \<Rightarrow> Inr (topo, trcs)))))))"

section \<open>Cache\<close>

definition topology_file :: "string \<Rightarrow> string" where
  "topology_file dir = path_join [dir, ''topology.json'']"

definition cert_file :: "string \<Rightarrow> string \<Rightarrow> string" where
  "cert_file dir n = path_join [dir, ''certs'', n]"

definition pin_file :: "string \<Rightarrow> string \<Rightarrow> string" where
  "pin_file dir n = path_join [dir, ''..'', ''pinned-trcs'', path_base n]"

text \<open>\<open>check_pins\<close> visits the TRCs in the order of the list; nothing is written.\<close>

fun check_pins :: "fsenv \<Rightarrow> string \<Rightarrow> string \<Rightarrow> (string \<times> string) list \<Rightarrow> io \<Rightarrow> goerror option" where
  "check_pins env base dir [] s = None"
| "check_pins env base dir ((n, raw) # trcs) s =
     (case ReadFile env (pin_file dir n) s of
        Inl e \<Rightarrow>
          (if IsNotExist e then check_pins env base dir trcs s
           else Some (Wrap (''reading pin for '' @ n) e))
      | Inr pin \<Rightarrow>
          (if pin \<noteq> raw
           then Some (Err (''pinned TRC '' @ n @ '': discovery server '' @ base @
             '' served different bytes than pin; refusing to update''))
           else check_pins env base dir trcs s))"

definition atomic_temp :: "fsenv \<Rightarrow> string \<Rightarrow> string" where
  "atomic_temp env path =
     (case path_split path of (dir, base) \<Rightarrow> temp_name dir (base @ ''.tmp'') (Random env) [])"

definition atomicWrite :: "fsenv \<Rightarrow> string \<Rightarrow> string \<Rightarrow> io \<Rightarrow> outcome" where
  "atomicWrite env path data =
     (let tmp = atomic_temp env path
      in via_temp env tmp
           (\<lambda>s. and_then (and_then (and_then (Write env tmp data s) (Sync env tmp)) (Chmod env tmp mode644)) (Close env tmp))
           path)"

fun write_trcs :: "fsenv \<Rightarrow> string \<Rightarrow> (string \<times> string) list \<Rightarrow> io \<Rightarrow> outcome" where
  "write_trcs env dir [] s = (None, s)"
| "write_trcs env dir ((n, raw) # trcs) s =
     and_then (atomicWrite env (cert_file dir n) raw s) (write_trcs env dir trcs)"

text \<open>
  What one attempt runs in: the answers of the server, the file system, and the orders in
  which the two loops over the map of TRCs visit it.
\<close>

record attempt =
  Web :: web
  FsEnv :: fsenv
  PinOrder :: "(string \<times> string) list \<Rightarrow> (string \<times> string) list"
  WriteOrder :: "(string \<times> string) list \<Rightarrow> (string \<times> string) list"

definition fetchFrom :: "attempt \<Rightarrow> string \<Rightarrow> string \<Rightarrow> io \<Rightarrow> outcome" where
  "fetchFrom a base dir =
     guarded (FsEnv a) OpMkdir (path_join [dir, ''certs'']) (\<lambda>s.
       case download (Web a) base of
         Inl e \<Rightarrow> (Some e, s)
       | Inr (topo, trcs) \<Rightarrow>
           (case check_pins (FsEnv a) base dir (PinOrder a trcs) s of
              Some e \<Rightarrow> (Some e, s)
            | None \<Rightarrow>
                and_then (write_trcs (FsEnv a) dir (WriteOrder a trcs) s)
                  (atomicWrite (FsEnv a) (topology_file dir) topo)))"

fun fetch_loop :: "(nat \<Rightarrow> attempt) \<Rightarrow> string \<Rightarrow> nat \<Rightarrow> goerror \<Rightarrow> string list \<Rightarrow> io \<Rightarrow> outcome" where
  "fetch_loop att dir k lastErr [] s = (Some (Wrap ''all discovery servers failed'' lastErr), s)"
| "fetch_loop att dir k lastErr (base # urls) s =
     (case fetchFrom (att k) (TrimRight base ''/'') dir s of
        (Some e, s') \<Rightarrow> fetch_loop att dir (Suc k) (Wrap base e) urls s'
      | (None, s') \<Rightarrow> (None, s'))"

definition Fetch :: "discovery \<Rightarrow> (nat \<Rightarrow> attempt) \<Rightarrow> Discoverer \<Rightarrow> string \<Rightarrow> io \<Rightarrow> outcome" where
  "Fetch dsc att d dir s =
     (case BaseURLs dsc d of
        Inl e \<Rightarrow> (Some e, s)
      | Inr urls \<Rightarrow>
          (if urls = [] then (Some (Err ''discoverer returned no discovery server URLs''), s)
           else fetch_loop att dir 0 (Err []) urls s))"

section \<open>Refresh loop\<close>

text \<open>
  The state the loop shares with the agent: the disk, and whether the notification channel
  (of capacity one) holds a value.
\<close>

record refresh =
  Files :: io
  TopoChanged :: bool

record round =
  Sources :: discovery
  Attempts :: "nat \<Rightarrow> attempt"
  Before :: fsenv
  After :: fsenv

definition content_or_empty :: "string result \<Rightarrow> string" where
  "content_or_empty r = (case r of Inl _ \<Rightarrow> [] | Inr x \<Rightarrow> x)"

definition refetch :: "Discoverer \<Rightarrow> string \<Rightarrow> round \<Rightarrow> refresh \<Rightarrow> refresh" where
  "refetch d dir r st =
     (let before = content_or_empty (ReadFile (Before r) (topology_file dir) (Files st))
      in case Fetch (Sources r) (Attempts r) d dir (Files st) of
           (Some e, s) \<Rightarrow> st\<lparr>Files := s\<rparr>
         | (None, s) \<Rightarrow>
             (let after = content_or_empty (ReadFile (After r) (topology_file dir) s)
              in st\<lparr>Files := s, TopoChanged := TopoChanged st \<or> before \<noteq> after\<rparr>))"

text \<open>The events the loop waits for; the agent draining the channel is the third.\<close>

datatype refresh_event = Tick round | Taken | Done

fun refresh_loop :: "Discoverer \<Rightarrow> string \<Rightarrow> refresh_event list \<Rightarrow> refresh \<Rightarrow> goerror option \<times> refresh" where
  "refresh_loop d dir [] st = (None, st)"
| "refresh_loop d dir (Tick r # es) st = refresh_loop d dir es (refetch d dir r st)"
| "refresh_loop d dir (Taken # es) st = refresh_loop d dir es (st\<lparr>TopoChanged := False\<rparr>)"
| "refresh_loop d dir (Done # es) st = (Some (ErrCanceled), st)"

definition bootstrap_Run ::
  "Discoverer \<Rightarrow> string \<Rightarrow> int \<Rightarrow> round \<Rightarrow> refresh_event list \<Rightarrow> refresh \<Rightarrow> goerror option \<times> refresh" where
  "bootstrap_Run d dir interval r0 es st =
     (let st1 = refetch d dir r0 st
      in if interval \<le> 0 then (Some (ErrPanic ''non-positive interval for NewTicker''), st1)
         else refresh_loop d dir es st1)"

section \<open>Writing the cache\<close>

lemma atomic_temp_longer: "length path < length (atomic_temp env path)"
proof -
  have "path = fst (path_split path) @ snd (path_split path)"
    by (simp add: path_split_def flip: rev_append)
  then have "length path = length (fst (path_split path)) + length (snd (path_split path))"
    by (metis length_append)
  then show ?thesis by (auto simp: atomic_temp_def temp_name_def Let_def TempDir_def split: prod.split)
qed

lemma atomicWrite_replaced:
  assumes "map_ok (Disk s)"
  shows "replaced (atomic_temp env p) p \<lparr>Content = data, Mode = mode644\<rparr> s (atomicWrite env p data s)"
proof -
  let ?t = "atomic_temp env p"
  have fill: "on_tmp ?t (\<lambda>f. f\<lparr>Content := data, Mode := mode644\<rparr>)
    (\<lambda>s. and_then (and_then (and_then (Write env ?t data s) (Sync env ?t)) (Chmod env ?t mode644)) (Close env ?t))"
    using on_tmp_and_then [OF on_tmp_and_then [OF on_tmp_and_then [OF on_tmp_ops(1,2)] on_tmp_ops(3)] on_tmp_ops(4)] .
  have "?t \<noteq> p" using atomic_temp_longer [of p env] by auto
  with via_temp_replaced [OF fill _ assms] show ?thesis by (simp add: atomicWrite_def Let_def)
qed

interpretation bw: file_writer atomicWrite atomic_temp mode644 "\<lambda>_ _. True"
  by unfold_locales (simp_all add: atomicWrite_replaced)

definition cache_writes :: "string \<Rightarrow> (string \<times> string) list \<Rightarrow> (string \<times> string) list" where
  "cache_writes dir trcs = map (\<lambda>(n, raw). (cert_file dir n, raw)) trcs"

lemma write_trcs_all: "write_trcs env dir trcs s = bw.write_all env (cache_writes dir trcs) s"
proof (induction env dir trcs s rule: write_trcs.induct)
  case (2 env dir n raw trcs s)
  have "write_trcs env dir trcs t = bw.write_all env (cache_writes dir trcs) t"
    if "fst (atomicWrite env (cert_file dir n) raw s) = None" "t = snd (atomicWrite env (cert_file dir n) raw s)" for t
    using 2 that by (auto simp: and_then_def)
  then show ?case by (auto simp: cache_writes_def and_then_def split: option.split)
qed (simp add: cache_writes_def)

section \<open>Names in the cache\<close>

lemma fmt_int_chars: "c \<in> set (fmt_int n) \<Longrightarrow> is_digit c \<or> c = CHR ''-''"
  using Itoa_digits by (auto simp: fmt_int_def split: if_splits)

lemma trc_name_chars: "CHR ''/'' \<notin> set (trc_name i)"
  using fmt_int_chars [of "CHR ''/''"] by (auto simp: trc_name_def)

lemma trc_name_ok [simp]: "name_ok (trc_name i)"
  using trc_name_chars by (auto simp: name_ok_def) (auto simp: trc_name_def)

lemma trc_name_ends: "hd (trc_name i) = CHR ''I''" "last (trc_name i) = CHR ''c''"
  by (simp_all add: trc_name_def)

lemma path_base_name:
  assumes "name_ok n"
  shows "path_base n = n"
proof -
  have "takeWhile (\<lambda>c. c \<noteq> CHR ''/'') (rev n) = rev n"
    using assms by (subst takeWhile_eq_all_conv) (auto simp: name_ok_def)
  then have "snd (path_split n) = n" unfolding path_split_def snd_conv by (metis rev_rev_ident)
  with assms show ?thesis by (simp add: path_base_def name_ok_def)
qed

definition pin_steps :: "string \<Rightarrow> string list" where
  "pin_steps dir = clean_steps True (rev (dir_steps dir)) [''..'']"

lemma pin_steps_noslash: "c \<in> set (pin_steps dir) \<Longrightarrow> CHR ''/'' \<notin> set c"
  using clean_steps_noslash [of "rev (dir_steps dir)" "[''..'']" True] dir_steps_noslash
  by (auto simp: pin_steps_def)

lemma cache_paths:
  assumes "HasPrefix dir ''/''"
  shows "name_ok n \<Longrightarrow> cert_file dir n = abs_path (dir_steps dir @ [''certs'', n])"
    and "topology_file dir = abs_path (dir_steps dir @ [''topology.json''])"
    and "name_ok n \<Longrightarrow> pin_file dir n = abs_path (pin_steps dir @ [''pinned-trcs'', n])"
proof -
  show "name_ok n \<Longrightarrow> cert_file dir n = abs_path (dir_steps dir @ [''certs'', n])"
    "topology_file dir = abs_path (dir_steps dir @ [''topology.json''])"
    using path_join_names [OF assms] by (simp_all add: cert_file_def topology_file_def name_ok_def)
  assume n: "name_ok n"
  then have "list_all name_ok [''pinned-trcs'', n]" by (simp add: name_ok_def)
  from clean_steps_names [OF this, of True "rev (pin_steps dir)"]
  have "clean_steps True (rev (dir_steps dir)) ([''..''] @ [''pinned-trcs'', n]) = pin_steps dir @ [''pinned-trcs'', n]"
    unfolding clean_steps_append pin_steps_def by simp
  with path_join_abs [OF assms, of "[''..'', ''pinned-trcs'', n]"] n
  show "pin_file dir n = abs_path (pin_steps dir @ [''pinned-trcs'', n])"
    by (simp add: pin_file_def path_base_name name_ok_def)
qed

definition tmp_of :: "fsenv \<Rightarrow> string \<Rightarrow> string" where
  "tmp_of env n = n @ ''.tmp'' @ Random env"

lemma atomic_temp_abs:
  assumes "CHR ''/'' \<notin> set n"
  shows "atomic_temp env (abs_path (cs @ [n])) = abs_path (cs @ [tmp_of env n])"
proof (cases "cs = []")
  case True
  then show ?thesis
    using path_split_abs [OF assms, of cs] by (simp add: atomic_temp_def temp_name_def HasSuffix_def abs_path_def tmp_of_def)
next
  case False
  have "HasSuffix (abs_path cs @ ''/'') ''/''" by (simp add: HasSuffix_def)
  with False show ?thesis
    using path_split_abs [OF assms, of cs] by (simp add: atomic_temp_def temp_name_def Join_snoc abs_path_def tmp_of_def)
qed

definition cache_temps :: "fsenv \<Rightarrow> string \<Rightarrow> string set" where
  "cache_temps env dir =
     insert (atomic_temp env (topology_file dir)) (range (\<lambda>i. atomic_temp env (cert_file dir (trc_name i))))"

lemma cache_temps_abs:
  assumes "HasPrefix dir ''/''"
  shows "cache_temps env dir =
    insert (abs_path (dir_steps dir @ [tmp_of env ''topology.json'']))
      (range (\<lambda>i. abs_path (dir_steps dir @ [''certs'', tmp_of env (trc_name i)])))"
  using atomic_temp_abs [of "''topology.json''" env "dir_steps dir"] trc_name_chars
    atomic_temp_abs [of "trc_name _" env "dir_steps dir @ [''certs'']"]
  by (simp add: cache_temps_def cache_paths [OF assms])

lemma tmp_of_neq:
  assumes "list_all is_digit (Random env)"
  shows "trc_name i \<noteq> tmp_of env n" "''topology.json'' \<noteq> tmp_of env ''topology.json''"
    "''topology.json'' \<noteq> tmp_of env (trc_name i)"
proof
  assume "trc_name i = tmp_of env n"
  then have "last (tmp_of env n) = CHR ''c''" using trc_name_ends(2) [of i] by simp
  with assms show False by (cases "Random env" rule: rev_cases) (auto simp: is_digit_def tmp_of_def)
next
  show "''topology.json'' \<noteq> tmp_of env (trc_name i)"
    using trc_name_ends(1) [of i] by (cases "trc_name i") (auto simp: tmp_of_def)
qed (simp add: tmp_of_def)

text \<open>The files of the cache, its temporary files and the pins are all different.\<close>

definition noslash :: "string list \<Rightarrow> bool" where
  "noslash cs \<longleftrightarrow> (\<forall>c \<in> set cs. CHR ''/'' \<notin> set c)"

lemma abs_path_eq: "noslash xs \<Longrightarrow> noslash ys \<Longrightarrow> xs \<noteq> [] \<Longrightarrow> ys \<noteq> [] \<Longrightarrow> abs_path xs = abs_path ys \<longleftrightarrow> xs = ys"
  unfolding noslash_def by (rule abs_path_inject)

lemma noslash_append [simp]: "noslash (xs @ ys) \<longleftrightarrow> noslash xs \<and> noslash ys"
  by (auto simp: noslash_def)

lemma noslash_Cons [simp]: "noslash (x # xs) \<longleftrightarrow> CHR ''/'' \<notin> set x \<and> noslash xs" "noslash []"
  by (simp_all add: noslash_def)

lemma noslash_tmp_of: "list_all is_digit (Random env) \<Longrightarrow> CHR ''/'' \<notin> set n \<Longrightarrow> CHR ''/'' \<notin> set (tmp_of env n)"
  by (auto simp: tmp_of_def list_all_iff is_digit_def)

lemma noslash_steps [simp]: "noslash (dir_steps dir)" "noslash (pin_steps dir)"
  using dir_steps_noslash pin_steps_noslash by (auto simp: noslash_def)

lemma abs_path_last:
  assumes "noslash (xs @ [a])" "noslash (ys @ [b])" "a \<noteq> b"
  shows "abs_path (xs @ [a]) \<noteq> abs_path (ys @ [b])"
  using assms by (simp add: abs_path_eq)

lemma abs_path_last2:
  assumes "noslash (xs @ [a, b])" "noslash (ys @ [c, d])" "a \<noteq> c \<or> b \<noteq> d"
  shows "abs_path (xs @ [a, b]) \<noteq> abs_path (ys @ [c, d])"
proof -
  have "abs_path ((xs @ [a]) @ [b]) = abs_path ((ys @ [c]) @ [d]) \<longleftrightarrow> (xs @ [a]) @ [b] = (ys @ [c]) @ [d]"
    using assms(1,2) by (subst abs_path_eq) simp_all
  with assms(3) show ?thesis by auto
qed

lemma cache_disjoint:
  assumes dir: "HasPrefix dir ''/''" and rnd: "list_all is_digit (Random env)"
  shows "cert_file dir (trc_name i) \<notin> cache_temps env dir" "topology_file dir \<notin> cache_temps env dir"
    "pin_file dir (trc_name i) \<notin> cache_temps env dir"
proof -
  note neq = tmp_of_neq [OF rnd] and chars = trc_name_chars noslash_tmp_of [OF rnd]
  have "abs_path (xs @ [n]) \<notin> cache_temps env dir"
    if "noslash (xs @ [n])" "n \<noteq> tmp_of env ''topology.json''" "\<And>i. n \<noteq> tmp_of env (trc_name i)" for xs n
  proof
    assume "abs_path (xs @ [n]) \<in> cache_temps env dir"
    moreover have "noslash (dir_steps dir @ [tmp_of env ''topology.json''])"
      "noslash ((dir_steps dir @ [''certs'']) @ [tmp_of env (trc_name i)])" for i
      using chars(1) by (auto intro!: chars(2))
    note this [THEN abs_path_last [OF that(1)]]
    ultimately show False
      unfolding cache_temps_abs [OF dir] using that(2,3) by auto
  qed
  from this [of "dir_steps dir @ [''certs'']" "trc_name i"] this [of "dir_steps dir" "''topology.json''"]
    this [of "pin_steps dir @ [''pinned-trcs'']" "trc_name i"]
  show "cert_file dir (trc_name i) \<notin> cache_temps env dir" "topology_file dir \<notin> cache_temps env dir"
    "pin_file dir (trc_name i) \<notin> cache_temps env dir"
    using neq chars(1) by (simp_all add: cache_paths [OF dir])
qed

lemma cache_distinct:
  assumes dir: "HasPrefix dir ''/''"
  shows "cert_file dir (trc_name i) \<noteq> topology_file dir" "pin_file dir (trc_name i) \<noteq> topology_file dir"
    "pin_file dir (trc_name i) \<noteq> cert_file dir (trc_name j)"
    "cert_file dir (trc_name i) = cert_file dir (trc_name j) \<longleftrightarrow> trc_name i = trc_name j"
proof -
  have "trc_name i \<noteq> ''topology.json''" using trc_name_ends(1) [of i] by auto
  with abs_path_last [of "dir_steps dir @ [''certs'']" "trc_name i" "dir_steps dir" "''topology.json''"]
    abs_path_last [of "pin_steps dir @ [''pinned-trcs'']" "trc_name i" "dir_steps dir" "''topology.json''"]
  show "cert_file dir (trc_name i) \<noteq> topology_file dir" "pin_file dir (trc_name i) \<noteq> topology_file dir"
    using trc_name_chars by (simp_all add: cache_paths [OF dir])
  show "pin_file dir (trc_name i) \<noteq> cert_file dir (trc_name j)"
    using abs_path_last2 [of "pin_steps dir" "''pinned-trcs''" "trc_name i" "dir_steps dir" "''certs''" "trc_name j"]
      trc_name_chars by (simp add: cache_paths [OF dir])
  show "cert_file dir (trc_name i) = cert_file dir (trc_name j) \<longleftrightarrow> trc_name i = trc_name j"
    using abs_path_last2 [of "dir_steps dir" "''certs''" "trc_name i" "dir_steps dir" "''certs''" "trc_name j"]
      trc_name_chars by (auto simp: cache_paths [OF dir])
qed

section \<open>One attempt\<close>

text \<open>
  What is assumed of the run-time system: temporary names end in digits and a loop over a map
  visits each entry once, in some order.
\<close>

definition attempt_ok :: "attempt \<Rightarrow> bool" where
  "attempt_ok a \<longleftrightarrow> list_all is_digit (Random (FsEnv a)) \<and>
     (\<forall>xs. mset (PinOrder a xs) = mset xs) \<and> (\<forall>xs. mset (WriteOrder a xs) = mset xs)"

lemma attempt_okD:
  assumes "attempt_ok a"
  shows "list_all is_digit (Random (FsEnv a))" "set (PinOrder a xs) = set xs" "set (WriteOrder a xs) = set xs"
    "distinct (map fst xs) \<Longrightarrow> distinct (map fst (WriteOrder a xs))"
proof -
  show "set (PinOrder a xs) = set xs" "set (WriteOrder a xs) = set xs"
    using assms by (metis attempt_ok_def set_mset_mset)+
  have "mset (map fst (WriteOrder a xs)) = mset (map fst xs)"
    using assms by (simp add: attempt_ok_def)
  then show "distinct (map fst xs) \<Longrightarrow> distinct (map fst (WriteOrder a xs))"
    by (metis mset_eq_imp_distinct_iff)
qed (use assms in \<open>simp add: attempt_ok_def\<close>)

lemma httpGet_length: "httpGet web n url = Inr x \<Longrightarrow> length x \<le> maxBodySize"
  by (auto simp: httpGet_def Let_def split: sum.splits if_splits)

definition served_ok :: "string gomap \<Rightarrow> bool" where
  "served_ok trcs \<longleftrightarrow> map_ok trcs \<and> (\<forall>(n, raw) \<in> set trcs. n \<in> range trc_name \<and> length raw \<le> maxBodySize)"

lemma get_trcs_ok: "get_trcs web base k is trcs = Inr trcs' \<Longrightarrow> served_ok trcs \<Longrightarrow> served_ok trcs'"
proof (induction web base k "is" trcs rule: get_trcs.induct)
  case (2 web base n i "is" trcs)
  from "2.prems"(1) obtain raw where raw: "httpGet web n (blob_url base i) = Inr raw"
    "get_trcs web base (Suc n) is (mput (trc_name i) raw trcs) = Inr trcs'"
    by (auto split: sum.splits)
  have "served_ok (mput (trc_name i) raw trcs)"
    using "2.prems"(2) httpGet_length [OF raw(1)]
    by (auto simp: served_ok_def map_ok_mput dest!: set_mput [THEN subsetD])
  with "2.IH" raw show ?case by blast
qed simp

lemma download_ok:
  assumes "download web base = Inr (topo, trcs)"
  shows "served_ok trcs" "length topo \<le> maxBodySize"
proof -
  from assms obtain entries where "get_trcs web base 2 entries [] = Inr trcs" "httpGet web 0 (base @ ''/topology'') = Inr topo"
    by (auto simp: download_def split: sum.splits if_splits)
  then show "served_ok trcs" "length topo \<le> maxBodySize"
    using get_trcs_ok httpGet_length by (auto simp: served_ok_def)
qed

lemma served_names:
  assumes "served_ok trcs"
  shows "distinct (map fst trcs)" "(n, raw) \<in> set trcs \<Longrightarrow> \<exists>i. n = trc_name i"
    "(n, raw) \<in> set trcs \<Longrightarrow> length raw \<le> maxBodySize"
  using assms by (auto simp: served_ok_def map_ok_distinct)

text \<open>An attempt fails before it writes, or writes the TRCs and then the topology.\<close>

definition attempt_writes :: "attempt \<Rightarrow> string \<Rightarrow> string \<Rightarrow> string gomap \<Rightarrow> (string \<times> string) list" where
  "attempt_writes a dir topo trcs = cache_writes dir (WriteOrder a trcs) @ [(topology_file dir, topo)]"

lemma fetchFrom_cases:
  obtains e where "fetchFrom a base dir s = (Some e, s)"
  | topo trcs where "download (Web a) base = Inr (topo, trcs)"
      "check_pins (FsEnv a) base dir (PinOrder a trcs) s = None"
      "fetchFrom a base dir s = bw.write_all (FsEnv a) (attempt_writes a dir topo trcs) s"
proof -
  have "fetchFrom a base dir s = bw.write_all (FsEnv a) (attempt_writes a dir topo trcs) s"
    if "download (Web a) base = Inr (topo, trcs)" "check_pins (FsEnv a) base dir (PinOrder a trcs) s = None"
      "Fault (FsEnv a) OpMkdir (path_join [dir, ''certs'']) = None" for topo trcs
  proof -
    have "bw.write_all (FsEnv a) [(topology_file dir, topo)] = atomicWrite (FsEnv a) (topology_file dir) topo"
      by (rule ext) (rule bw.write_all_single)
    with that show ?thesis
      by (simp add: fetchFrom_def guarded_def attempt_writes_def bw.write_all_append write_trcs_all
          del: file_writer.write_all.simps)
  qed
  then show ?thesis
    using that by (cases "Fault (FsEnv a) OpMkdir (path_join [dir, ''certs''])"; cases "download (Web a) base";
      cases "check_pins (FsEnv a) base dir (PinOrder a (snd (projr (download (Web a) base)))) s")
      (auto simp: fetchFrom_def guarded_def)
qed

definition file644 :: "string \<Rightarrow> fsfile" where
  "file644 x = \<lparr>Content = x, Mode = mode644\<rparr>"

definition served_files :: "string \<Rightarrow> string \<Rightarrow> string gomap \<Rightarrow> (string \<times> fsfile) set" where
  "served_files dir topo trcs =
     insert (topology_file dir, file644 topo) {(cert_file dir n, file644 raw) |n raw. (n, raw) \<in> set trcs}"

lemma set_attempt_writes:
  assumes "attempt_ok a"
  shows "set (map (\<lambda>(p, x). (p, file644 x)) (attempt_writes a dir topo trcs)) = served_files dir topo trcs"
  using attempt_okD(3) [OF assms, of trcs]
  by (force simp: attempt_writes_def cache_writes_def served_files_def)


lemma attempt_writes_distinct:
  assumes a: "attempt_ok a" and dir: "HasPrefix dir ''/''" and d: "download (Web a) base = Inr (topo, trcs)"
  shows "distinct (map fst (attempt_writes a dir topo trcs))"
proof -
  note names = served_names [OF download_ok(1) [OF d]]
  have "inj_on (cert_file dir) (fst ` set trcs)"
  proof (rule inj_onI)
    fix m n assume "m \<in> fst ` set trcs" "n \<in> fst ` set trcs" "cert_file dir m = cert_file dir n"
    moreover from this obtain i j where "m = trc_name i" "n = trc_name j" using names(2) by fastforce
    ultimately show "m = n" using cache_distinct(4) [OF dir, of i j] by simp
  qed
  then have "distinct (map (\<lambda>(n, raw). cert_file dir n) (WriteOrder a trcs))"
    using attempt_okD(3,4) [OF a, of trcs] names(1) by (simp add: distinct_map comp_def case_prod_beta' comp_inj_on_iff)
  moreover have "topology_file dir \<notin> cert_file dir ` fst ` set trcs"
    using names(2) cache_distinct(1) [OF dir] by force
  ultimately show ?thesis
    using attempt_okD(3) [OF a, of trcs]
    by (auto simp: attempt_writes_def cache_writes_def comp_def case_prod_beta' image_image)
qed

lemma fetchFrom_writes:
  assumes a: "attempt_ok a" and dir: "HasPrefix dir ''/''" and s: "map_ok (Disk s)"
    and d: "download (Web a) base = Inr (topo, trcs)"
  defines "r \<equiv> bw.write_all (FsEnv a) (attempt_writes a dir topo trcs) s"
  shows "map_ok (Disk (snd r))"
    and "\<exists>hs. History (snd r) = History s @ hs \<and>
      (\<forall>d \<in> set (Disk (snd r) # hs). \<forall>q. q \<notin> cache_temps (FsEnv a) dir \<longrightarrow>
        mget d q = mget (Disk s) q \<or> (\<exists>f. mget d q = Some f \<and> (q, f) \<in> served_files dir topo trcs))"
    and "fst r = None \<Longrightarrow> (q, f) \<in> served_files dir topo trcs \<Longrightarrow> mget (Disk (snd r)) q = Some f"
proof -
  let ?ws = "attempt_writes a dir topo trcs" and ?T = "cache_temps (FsEnv a) dir"
  let ?fs = "map (\<lambda>(p, x). (p, file644 x)) ?ws"
  note ok = download_ok [OF d] and names = served_names [OF download_ok(1) [OF d]] and rnd = attempt_okD(1) [OF a]
  have T: "\<forall>(p, x) \<in> set ?ws. atomic_temp (FsEnv a) p \<in> ?T"
    using names(2) attempt_okD(3) [OF a]
    by (fastforce simp: attempt_writes_def cache_writes_def cache_temps_def)
  have w: "all_or_old ?fs ?T s r"
    using bw.write_all_atomic [OF s T] by (simp add: r_def file644_def)
  then show "map_ok (Disk (snd r))" by (simp add: all_or_old_def)
  show "\<exists>hs. History (snd r) = History s @ hs \<and>
      (\<forall>d \<in> set (Disk (snd r) # hs). \<forall>q. q \<notin> ?T \<longrightarrow>
        mget d q = mget (Disk s) q \<or> (\<exists>f. mget d q = Some f \<and> (q, f) \<in> served_files dir topo trcs))"
    using w unfolding all_or_old_def may_hold_def set_attempt_writes [OF a] by fastforce
  have dist: "distinct (map fst ?fs)"
    using attempt_writes_distinct [OF a dir d] by (simp add: comp_def case_prod_beta')
  assume "fst r = None" "(q, f) \<in> served_files dir topo trcs"
  moreover from this(2) have "q \<notin> ?T"
    using names(2) cache_disjoint(1,2) [OF dir rnd] by (force simp: served_files_def)
  ultimately show "mget (Disk (snd r)) q = Some f"
    using w dist unfolding all_or_old_def set_attempt_writes [OF a] by blast
qed

section \<open>What every attempt keeps\<close>

text \<open>
  How the disk evolves from one state to a later one: all the states on the way are related
  to the first by \<open>R\<close>.
\<close>

definition evolves :: "(fs \<Rightarrow> fs \<Rightarrow> bool) \<Rightarrow> io \<Rightarrow> io \<Rightarrow> bool" where
  "evolves R s0 s \<longleftrightarrow> map_ok (Disk s) \<and>
     (\<exists>hs. History s = History s0 @ hs \<and> (\<forall>d \<in> set (Disk s # hs). R (Disk s0) d))"

fun round_of :: "refresh_event \<Rightarrow> round option" where
  "round_of (Tick r) = Some r"
| "round_of e = None"

definition rounds :: "refresh_event list \<Rightarrow> round list" where
  "rounds es = List.map_filter round_of es"

lemma rounds_simps [simp]:
  "rounds [] = []" "rounds (Tick r # es) = r # rounds es" "rounds (Taken # es) = rounds es" "rounds (Done # es) = rounds es"
  by (simp_all add: rounds_def map_filter_simps)

lemma Files_refetch: "Files (refetch d dir r st) = snd (Fetch (Sources r) (Attempts r) d dir (Files st))"
  by (auto simp: refetch_def Let_def split: prod.split option.split)

text \<open>
  A reflexive and transitive relation that every single attempt respects is respected by the
  whole loop, with any number of servers and rounds.
\<close>

locale attempt_law =
  fixes R :: "fs \<Rightarrow> fs \<Rightarrow> bool"
    and dir :: string
    and ok :: "attempt \<Rightarrow> bool"
  assumes R_refl: "R d d"
    and R_trans: "R d d' \<Longrightarrow> R d' d'' \<Longrightarrow> R d d''"
    and attempt: "map_ok (Disk s) \<Longrightarrow> ok a \<Longrightarrow> evolves R s (snd (fetchFrom a base dir s))"
begin

lemma evolves_refl: "map_ok (Disk s) \<Longrightarrow> evolves R s s"
  by (simp add: evolves_def R_refl)

lemma evolves_trans:
  assumes "evolves R s t" "evolves R t u"
  shows "evolves R s u"
proof -
  from assms(1) obtain hs where hs: "History t = History s @ hs" "\<forall>d \<in> set (Disk t # hs). R (Disk s) d"
    by (auto simp: evolves_def)
  from assms(2) obtain hs' where hs': "History u = History t @ hs'" "map_ok (Disk u)" "\<forall>d \<in> set (Disk u # hs'). R (Disk t) d"
    by (auto simp: evolves_def)
  from hs(2) have "R (Disk s) (Disk t)" by simp
  with hs hs' show ?thesis
    unfolding evolves_def by (intro conjI exI [of _ "hs @ hs'"]) (auto intro: R_trans)
qed

lemma evolves_ok: "evolves R s t \<Longrightarrow> map_ok (Disk t)"
  by (simp add: evolves_def)

lemma fetch_loop_law:
  assumes "\<And>k. ok (att k)" "map_ok (Disk s)"
  shows "evolves R s (snd (fetch_loop att dir k le urls s))"
  using assms(2)
proof (induction urls arbitrary: k le s)
  case (Cons base urls)
  obtain e s1 where r: "fetchFrom (att k) (TrimRight base ''/'') dir s = (e, s1)" by (cases "fetchFrom (att k) (TrimRight base ''/'') dir s")
  have s1: "evolves R s s1" using attempt [OF Cons.prems assms(1), of k "TrimRight base ''/''"] r by simp
  show ?case
    using evolves_trans [OF s1 Cons.IH [OF evolves_ok [OF s1]]] s1 r by (cases e) auto
qed (simp add: evolves_refl)

lemma Fetch_law: "(\<And>k. ok (att k)) \<Longrightarrow> map_ok (Disk s) \<Longrightarrow> evolves R s (snd (Fetch dsc att d dir s))"
  using fetch_loop_law by (auto simp: Fetch_def evolves_refl split: sum.split)

lemma refetch_law:
  assumes "evolves R s0 (Files st)" "\<And>k. ok (Attempts r k)"
  shows "evolves R s0 (Files (refetch d dir r st))"
  unfolding Files_refetch by (rule evolves_trans [OF assms(1) Fetch_law [OF assms(2) evolves_ok [OF assms(1)]]])

lemma refresh_loop_law:
  assumes "evolves R s0 (Files st)" "\<forall>r \<in> set (rounds es). \<forall>k. ok (Attempts r k)"
  shows "evolves R s0 (Files (snd (refresh_loop d dir es st)))"
  using assms
proof (induction es arbitrary: st)
  case (Cons e es)
  then show ?case by (cases e) (auto intro: refetch_law)
qed simp

lemma Run_law:
  assumes "map_ok (Disk (Files st))" "\<forall>r \<in> set (r0 # rounds es). \<forall>k. ok (Attempts r k)"
  shows "evolves R (Files st) (Files (snd (bootstrap_Run d dir interval r0 es st)))"
proof -
  have "evolves R (Files st) (Files (refetch d dir r0 st))"
    using assms by (intro refetch_law evolves_refl) auto
  with refresh_loop_law [OF this] assms(2) show ?thesis by (simp add: bootstrap_Run_def Let_def)
qed

end

section \<open>Pinned TRCs\<close>

text \<open>
  While a pin is there, it stays, and for the pinned name the cache holds what it held before or
  the pin's bytes.
\<close>

definition pin_kept :: "string \<Rightarrow> string \<Rightarrow> fsfile \<Rightarrow> fs \<Rightarrow> fs \<Rightarrow> bool" where
  "pin_kept dir n f d0 d \<longleftrightarrow>
     (mget d0 (pin_file dir n) = Some f \<longrightarrow>
       mget d (pin_file dir n) = Some f \<and>
       mget d (cert_file dir n) \<in> {mget d0 (cert_file dir n), Some (file644 (Content f))})"

text \<open>A pin that exists is not reported as missing when it is read.\<close>

definition pin_visible :: "string \<Rightarrow> string \<Rightarrow> attempt \<Rightarrow> bool" where
  "pin_visible dir n a \<longleftrightarrow> (\<forall>e. Fault (FsEnv a) OpRead (pin_file dir n) = Some e \<longrightarrow> \<not> IsNotExist e)"

lemma check_pins_None:
  assumes "check_pins env base dir ps s = None" "(n, raw) \<in> set ps" "mget (Disk s) (pin_file dir n) = Some f"
    "\<forall>e. Fault env OpRead (pin_file dir n) = Some e \<longrightarrow> \<not> IsNotExist e"
  shows "raw = Content f"
  using assms
  by (induction env base dir ps s rule: check_pins.induct)
    (auto simp: ReadFile_def split: sum.splits option.splits if_splits)

lemma fetchFrom_pin_kept:
  assumes a: "attempt_ok a" and dir: "HasPrefix dir ''/''" and s: "map_ok (Disk s)"
    and vis: "pin_visible dir (trc_name i) a"
  shows "evolves (pin_kept dir (trc_name i) f) s (snd (fetchFrom a base dir s))"
proof (cases a base dir s rule: fetchFrom_cases)
  case (2 topo trcs)
  let ?p = "pin_file dir (trc_name i)" and ?c = "cert_file dir (trc_name i)" and ?t = "snd (fetchFrom a base dir s)"
  note w = fetchFrom_writes(1,2) [OF a dir s 2(1), folded 2(3)] and rnd = attempt_okD(1) [OF a]
  from w(2) obtain hs where hs: "History ?t = History s @ hs"
    "\<forall>d \<in> set (Disk ?t # hs). \<forall>q. q \<notin> cache_temps (FsEnv a) dir \<longrightarrow>
      mget d q = mget (Disk s) q \<or> (\<exists>f. mget d q = Some f \<and> (q, f) \<in> served_files dir topo trcs)"
    by blast
  have raw: "raw = Content f" if "mget (Disk s) ?p = Some f" "(trc_name i, raw) \<in> set trcs" for raw
    using check_pins_None [OF 2(2) _ that(1)] vis that(2) attempt_okD(2) [OF a] by (auto simp: pin_visible_def)
  have "(?p, g) \<notin> served_files dir topo trcs" for g
    using cache_distinct(2,3) [OF dir, of i] served_names(2) [OF download_ok(1) [OF 2(1)]]
    by (force simp: served_files_def)
  moreover have "g = file644 (Content f)" if "(?c, g) \<in> served_files dir topo trcs" "mget (Disk s) ?p = Some f" for g
  proof -
    from that(1) cache_distinct(1) [OF dir, of i] obtain n x where n: "?c = cert_file dir n" "g = file644 x" "(n, x) \<in> set trcs"
      by (auto simp: served_files_def)
    moreover from served_names(2) [OF download_ok(1) [OF 2(1)] n(3)] obtain j where "n = trc_name j" ..
    ultimately show ?thesis using cache_distinct(4) [OF dir, of i j] raw that(2) by simp
  qed
  ultimately have "\<forall>d \<in> set (Disk ?t # hs). pin_kept dir (trc_name i) f (Disk s) d"
    using bspec [OF hs(2)] cache_disjoint(1,3) [OF dir rnd, of i] unfolding pin_kept_def by (metis insert_iff)
  with hs(1) w(1) show ?thesis by (auto simp: evolves_def)
qed (use s in \<open>simp add: evolves_def pin_kept_def\<close>)


text \<open>The directory is fixed by making the law vacuous for relative ones.\<close>

definition pin_attempt :: "string \<Rightarrow> string \<Rightarrow> attempt \<Rightarrow> bool" where
  "pin_attempt dir n a \<longleftrightarrow> HasPrefix dir ''/'' \<and> attempt_ok a \<and> pin_visible dir n a"

interpretation pins: attempt_law "pin_kept dir (trc_name i) f" dir "pin_attempt dir (trc_name i)" for dir i f
  by unfold_locales (auto simp: pin_kept_def pin_attempt_def intro: fetchFrom_pin_kept)

section \<open>Served files\<close>

definition cached_from :: "string set \<Rightarrow> (string \<times> fsfile) set \<Rightarrow> fs \<Rightarrow> fs \<Rightarrow> bool" where
  "cached_from T F d0 d \<longleftrightarrow> (\<forall>q. q \<notin> T \<longrightarrow> mget d q = mget d0 q \<or> (\<exists>x. mget d q = Some x \<and> (q, x) \<in> F))"

definition serves :: "string \<Rightarrow> attempt \<Rightarrow> (string \<times> fsfile) set" where
  "serves dir a = {p. \<exists>base topo trcs. download (Web a) base = Inr (topo, trcs) \<and> p \<in> served_files dir topo trcs}"

definition serving :: "string \<Rightarrow> string set \<Rightarrow> (string \<times> fsfile) set \<Rightarrow> attempt \<Rightarrow> bool" where
  "serving dir T F a \<longleftrightarrow> HasPrefix dir ''/'' \<and> attempt_ok a \<and> cache_temps (FsEnv a) dir \<subseteq> T \<and> serves dir a \<subseteq> F"

lemma fetchFrom_cached_from:
  assumes "serving dir T F a" "map_ok (Disk s)"
  shows "evolves (cached_from T F) s (snd (fetchFrom a base dir s))"
proof (cases a base dir s rule: fetchFrom_cases)
  case (2 topo trcs)
  from assms(1) have a: "attempt_ok a" "HasPrefix dir ''/''" by (auto simp: serving_def)
  note w = fetchFrom_writes(1,2) [OF a assms(2) 2(1), folded 2(3)]
  have "cache_temps (FsEnv a) dir \<subseteq> T" "served_files dir topo trcs \<subseteq> F"
    using assms(1) 2(1) unfolding serving_def serves_def by blast+
  with w show ?thesis unfolding evolves_def cached_from_def by (meson subsetD)
qed (use assms(2) in \<open>simp add: evolves_def cached_from_def\<close>)

interpretation srv: attempt_law "cached_from T F" dir "serving dir T F" for T F dir
  by unfold_locales (auto simp: cached_from_def fetchFrom_cached_from, metis+)

lemma serves_bounded: "(q, x) \<in> serves dir a \<Longrightarrow> length (Content x) \<le> maxBodySize \<and> Mode x = mode644"
  using served_names(3) [OF download_ok(1)] download_ok(2)
  by (fastforce simp: serves_def served_files_def file644_def)


section \<open>Topology after its TRCs\<close>

lemma fetchFrom_last:
  assumes a: "attempt_ok a" and dir: "HasPrefix dir ''/''" and s: "map_ok (Disk s)"
    and d: "download (Web a) base = Inr (topo, trcs)"
    and r: "r = bw.write_all (FsEnv a) (attempt_writes a dir topo trcs) s"
  shows "\<exists>hs. History (snd r) = History s @ hs \<and>
    (\<forall>d \<in> set (Disk (snd r) # hs). mget d (topology_file dir) = mget (Disk s) (topology_file dir) \<or>
      (\<forall>(n, raw) \<in> set trcs. mget d (cert_file dir n) = Some (file644 raw)))"
    and "fst r \<noteq> None \<Longrightarrow> mget (Disk (snd r)) (topology_file dir) = mget (Disk s) (topology_file dir)"
proof -
  let ?ws = "cache_writes dir (WriteOrder a trcs)" and ?T = "cache_temps (FsEnv a) dir"
  have fsts: "fst ` set ?ws = cert_file dir ` fst ` set trcs"
    using attempt_okD(3) [OF a, of trcs] by (force simp: cache_writes_def)
  have names: "n \<in> fst ` set trcs \<Longrightarrow> \<exists>i. n = trc_name i" for n
    using served_names(2) [OF download_ok(1) [OF d]] by force
  have T: "\<forall>(q, x) \<in> set (?ws @ [(topology_file dir, topo)]). atomic_temp (FsEnv a) q \<in> ?T"
    using names attempt_okD(3) [OF a, of trcs] by (fastforce simp: cache_writes_def cache_temps_def)
  have ws: "distinct (map fst ?ws)" "topology_file dir \<notin> fst ` set ?ws"
    using attempt_writes_distinct [OF a dir d] by (auto simp: attempt_writes_def)
  have disj: "fst ` set (?ws @ [(topology_file dir, topo)]) \<inter> ?T = {}"
  proof -
    have "cert_file dir n \<notin> ?T" if "n \<in> fst ` set trcs" for n
      using names [OF that] cache_disjoint(1) [OF dir attempt_okD(1) [OF a]] by auto
    with cache_disjoint(2) [OF dir attempt_okD(1) [OF a]] show ?thesis by (auto simp: fsts)
  qed
  note last = bw.write_all_last [OF s T ws disj r [unfolded attempt_writes_def]]
  show "\<exists>hs. History (snd r) = History s @ hs \<and>
    (\<forall>d \<in> set (Disk (snd r) # hs). mget d (topology_file dir) = mget (Disk s) (topology_file dir) \<or>
      (\<forall>(n, raw) \<in> set trcs. mget d (cert_file dir n) = Some (file644 raw)))"
    using last(1) attempt_okD(3) [OF a, of trcs] by (simp add: file644_def cache_writes_def) fast
  show "fst r \<noteq> None \<Longrightarrow> mget (Disk (snd r)) (topology_file dir) = mget (Disk s) (topology_file dir)"
    by (rule last(2))
qed

lemma fetchFrom_failed:
  assumes "attempt_ok a" "HasPrefix dir ''/''" "map_ok (Disk s)" "fst (fetchFrom a base dir s) \<noteq> None"
  shows "mget (Disk (snd (fetchFrom a base dir s))) (topology_file dir) = mget (Disk s) (topology_file dir)"
proof (cases a base dir s rule: fetchFrom_cases)
  case (2 topo trcs)
  with fetchFrom_last(2) [OF assms(1-3) 2(1,3)] assms(4) show ?thesis by simp
qed simp

section \<open>Success and notification\<close>

lemma fetchFrom_map_ok:
  assumes "attempt_ok a" "HasPrefix dir ''/''" "map_ok (Disk s)"
  shows "map_ok (Disk (snd (fetchFrom a base dir s)))"
proof -
  have "serving dir UNIV UNIV a" using assms by (simp add: serving_def)
  from srv.evolves_ok [OF srv.attempt [OF assms(3) this]] show ?thesis .
qed

lemma fetch_loop_success:
  assumes "\<And>k. attempt_ok (att k)" "HasPrefix dir ''/''"
    and "map_ok (Disk s)" "fetch_loop att dir k le urls s = (None, s')"
  shows "\<exists>j topo trcs. j < length urls \<and>
    download (Web (att (k + j))) (TrimRight (urls ! j) ''/'') = Inr (topo, trcs) \<and>
    (\<forall>(q, f) \<in> served_files dir topo trcs. mget (Disk s') q = Some f)"
  using assms(3,4)
proof (induction urls arbitrary: k le s)
  case (Cons base urls)
  let ?b = "TrimRight base ''/''"
  show ?case
  proof (cases "fetchFrom (att k) ?b dir s")
    case (Pair e s1)
    show ?thesis
    proof (cases e)
      case None
      have eq: "s' = s1" using Cons.prems Pair None by simp
      show ?thesis
      proof (cases "att k" ?b dir s rule: fetchFrom_cases)
        case (2 topo trcs)
        have "\<forall>(q, f) \<in> served_files dir topo trcs. mget (Disk s1) q = Some f"
          using fetchFrom_writes(3) [OF assms(1,2) Cons.prems(1) 2(1), folded 2(3)] Pair None by auto
        with 2(1) eq show ?thesis by (intro exI [of _ 0]) auto
      qed (use Pair None in simp)
    next
      case (Some e')
      have "map_ok (Disk s1)"
        using fetchFrom_map_ok [OF assms(1,2) Cons.prems(1), of k ?b] Pair by simp
      moreover have "fetch_loop att dir (Suc k) (Wrap base e') urls s1 = (None, s')"
        using Cons.prems(2) Pair Some by simp
      ultimately obtain j topo trcs where "j < length urls"
        "download (Web (att (Suc k + j))) (TrimRight (urls ! j) ''/'') = Inr (topo, trcs)"
        "\<forall>(q, f) \<in> served_files dir topo trcs. mget (Disk s') q = Some f"
        using Cons.IH by blast
      then show ?thesis by (intro exI [of _ "Suc j"]) auto
    qed
  qed
qed simp

lemma fetch_loop_failed:
  assumes "\<And>k. attempt_ok (att k)" "HasPrefix dir ''/''"
    and "map_ok (Disk s)" "fst (fetch_loop att dir k le urls s) \<noteq> None"
  shows "mget (Disk (snd (fetch_loop att dir k le urls s))) (topology_file dir) = mget (Disk s) (topology_file dir)"
  using assms(3,4)
proof (induction urls arbitrary: k le s)
  case (Cons base urls)
  let ?b = "TrimRight base ''/''"
  obtain e s1 where r: "fetchFrom (att k) ?b dir s = (Some e, s1)"
    using Cons.prems by (cases "fetchFrom (att k) ?b dir s") (auto split: option.splits)
  have "map_ok (Disk s1)" using fetchFrom_map_ok [OF assms(1,2) Cons.prems(1), of k ?b] r by simp
  moreover have "mget (Disk s1) (topology_file dir) = mget (Disk s) (topology_file dir)"
    using fetchFrom_failed [OF assms(1,2) Cons.prems(1), of k ?b] r by simp
  ultimately show ?case using Cons.IH [of s1] Cons.prems(2) r by simp
qed simp

lemma Fetch_failed:
  assumes "\<And>k. attempt_ok (att k)" "HasPrefix dir ''/''" "map_ok (Disk s)" "fst (Fetch dsc att d dir s) \<noteq> None"
  shows "mget (Disk (snd (Fetch dsc att d dir s))) (topology_file dir) = mget (Disk s) (topology_file dir)"
proof (cases "BaseURLs dsc d")
  case (Inr urls)
  with fetch_loop_failed [of att, OF assms(1-3), of 0 "Err []" urls] assms(4) show ?thesis
    by (cases "urls = []") (auto simp: Fetch_def)
qed (simp add: Fetch_def)

definition topo_content :: "string \<Rightarrow> refresh \<Rightarrow> string" where
  "topo_content dir st = (case mget (Disk (Files st)) (topology_file dir) of None \<Rightarrow> [] | Some f \<Rightarrow> Content f)"

text \<open>The loop with the content the receiver of the notifications last acted on.\<close>

fun refresh_step :: "Discoverer \<Rightarrow> string \<Rightarrow> refresh_event \<Rightarrow> refresh \<times> string \<Rightarrow> refresh \<times> string" where
  "refresh_step d dir (Tick r) (st, seen) = (refetch d dir r st, seen)"
| "refresh_step d dir Taken (st, seen) = (st\<lparr>TopoChanged := False\<rparr>, topo_content dir st)"
| "refresh_step d dir Done (st, seen) = (st, seen)"

lemma refresh_loop_fold:
  "Done \<notin> set es \<Longrightarrow> refresh_loop d dir es st = (None, fst (fold (refresh_step d dir) es (st, seen)))"
proof (induction es arbitrary: st seen)
  case (Cons e es)
  then show ?case by (cases e) auto
qed simp

definition readable_round :: "string \<Rightarrow> refresh_event \<Rightarrow> bool" where
  "readable_round dir e =
     (case round_of e of
        None \<Rightarrow> True
      | Some r \<Rightarrow> Fault (Before r) OpRead (topology_file dir) = None \<and>
          Fault (After r) OpRead (topology_file dir) = None \<and> (\<forall>k. attempt_ok (Attempts r k)))"

definition notify_inv :: "string \<Rightarrow> refresh \<times> string \<Rightarrow> bool" where
  "notify_inv dir p \<longleftrightarrow> map_ok (Disk (Files (fst p))) \<and> (TopoChanged (fst p) \<or> topo_content dir (fst p) = snd p)"

lemma content_read: "Fault env OpRead (topology_file dir) = None \<Longrightarrow>
    content_or_empty (ReadFile env (topology_file dir) (Files st)) = topo_content dir st"
  by (simp add: content_or_empty_def ReadFile_def topo_content_def split: option.split)

lemma refetch_notifies:
  assumes dir: "HasPrefix dir ''/''" and r: "readable_round dir (Tick r)" and st: "map_ok (Disk (Files st))"
  shows "TopoChanged (refetch d dir r st) \<or> (\<not> TopoChanged st \<and> topo_content dir (refetch d dir r st) = topo_content dir st)"
proof (cases "Fetch (Sources r) (Attempts r) d dir (Files st)")
  case (Pair e s)
  from r have reads: "Fault (Before r) OpRead (topology_file dir) = None" "Fault (After r) OpRead (topology_file dir) = None"
    "\<And>k. attempt_ok (Attempts r k)" by (auto simp: readable_round_def)
  show ?thesis
  proof (cases e)
    case None
    have "content_or_empty (ReadFile (After r) (topology_file dir) s) = topo_content dir (st\<lparr>Files := s\<rparr>)"
      using content_read [OF reads(2), of "st\<lparr>Files := s\<rparr>"] by simp
    then show ?thesis
      using Pair None content_read [OF reads(1), of st]
      by (auto simp: refetch_def Let_def topo_content_def)
  next
    case (Some e')
    have "mget (Disk s) (topology_file dir) = mget (Disk (Files st)) (topology_file dir)"
      using Fetch_failed [of "Attempts r", OF reads(3) dir st] Pair Some by (metis fst_conv option.discI snd_conv)
    then show ?thesis
      using Pair Some by (auto simp: refetch_def topo_content_def)
  qed
qed

lemma refetch_map_ok:
  assumes "HasPrefix dir ''/''" "readable_round dir (Tick r)" "map_ok (Disk (Files st))"
  shows "map_ok (Disk (Files (refetch d dir r st)))"
proof -
  have "serving dir UNIV UNIV (Attempts r k)" for k
    using assms(1,2) by (simp add: serving_def readable_round_def)
  from srv.evolves_ok [OF srv.refetch_law [OF srv.evolves_refl [OF assms(3)] this]] show ?thesis .
qed

lemma refresh_step_inv:
  assumes "HasPrefix dir ''/''" "notify_inv dir p" "readable_round dir e"
  shows "notify_inv dir (refresh_step d dir e p)"
proof (cases p)
  case (Pair st seen)
  show ?thesis
  proof (cases e)
    case (Tick r)
    with refetch_notifies [OF assms(1)] refetch_map_ok [OF assms(1)] assms(2,3) show ?thesis
      by (fastforce simp: Pair notify_inv_def)
  qed (use assms(2) in \<open>simp_all add: Pair notify_inv_def topo_content_def\<close>)
qed

interpretation ntf: event_machine "(st, topo_content dir st)" "refresh_step d dir" "readable_round dir"
  "\<lambda>p. HasPrefix dir ''/'' \<longrightarrow> map_ok (Disk (Files st)) \<longrightarrow> notify_inv dir p" for st d dir
  by unfold_locales (auto simp: notify_inv_def [of _ "(st, topo_content dir st)"] refresh_step_inv)


section \<open>Correctness of the refresh loop\<close>

definition ok_response :: "string \<Rightarrow> web_response result" where
  "ok_response x = Inr \<lparr>StatusCode = 200, StatusLine = ''200 OK'', Bytes = x, ReadError = None\<rparr>"

definition ex_web :: "string \<Rightarrow> web" where
  "ex_web blob n url =
     (if HasSuffix url ''/topology'' then ok_response (''{'' @ quoted ''isd_as'' @ '':'' @ quoted ''1-ff00:0:110'' @ ''}'')
      else if HasSuffix url ''/trcs''
      then ok_response (''[{'' @ quoted ''id'' @ '':{'' @ quoted ''isd'' @ '':1,'' @ quoted ''base_number'' @ '':1,'' @
        quoted ''serial_number'' @ '':2}}]'')
      else ok_response blob)"

definition ex_fs :: fsenv where
  "ex_fs = \<lparr>Fault = (\<lambda>_ _. None), Short = 0, Random = ''42''\<rparr>"

definition ex_attempt :: "string \<Rightarrow> attempt" where
  "ex_attempt blob = \<lparr>Web = ex_web blob, FsEnv = ex_fs, PinOrder = (\<lambda>xs. xs), WriteOrder = (\<lambda>xs. xs)\<rparr>"

definition ex_trc :: trcID where
  "ex_trc = \<lparr>ISD = 1, Base = 1, Serial = 2\<rparr>"

definition ex_round :: "string \<Rightarrow> round" where
  "ex_round blob =
     \<lparr>Sources = \<lparr>LookupSRV = (\<lambda>_ _ _. Inr []), NewDHCP = (\<lambda>_. None), DiscoverOffer = (\<lambda>_. Inr []),
        NewResolver = None, Browse = (\<lambda>_ _. Inr [])\<rparr>,
      Attempts = (\<lambda>_. ex_attempt blob), Before = ex_fs, After = ex_fs\<rparr>"

definition ex_dir :: string where
  "ex_dir = ''/var/lib/scion-node-agent/etc''"

definition ex_refresh :: refresh where
  "ex_refresh =
     \<lparr>Files = \<lparr>Disk = [(''/var/lib/scion-node-agent/pinned-trcs/ISD1-B1-S2.trc'', file644 ''good'')], History = []\<rparr>,
      TopoChanged = False\<rparr>"

lemma boot_ok: "attempt_ok (ex_attempt blob)" "pin_visible dir n (ex_attempt blob)" "readable_round dir (Tick (ex_round blob))"
  "HasPrefix ex_dir ''/''" "map_ok (Disk (Files ex_refresh))"
  by (simp_all add: attempt_ok_def pin_visible_def readable_round_def ex_attempt_def ex_fs_def ex_round_def is_digit_def
      ex_dir_def ex_refresh_def HasPrefix_def map_ok_def)

lemma ex_pin: "mget (Disk (Files ex_refresh)) (pin_file ex_dir (trc_name ex_trc)) = Some (file644 ''good'')"
  by code_simp

text \<open>
  C4. A pinned TRC is never replaced by other bytes. Whatever discovery servers answer and
  whichever file operations fail, in every state of the disk during a run of the refresh loop
  the pin is intact and the cache holds under the pinned name what it held at the start or
  exactly the pin's bytes.
\<close>

theorem Run_keeps_pins:
  assumes "HasPrefix dir ''/''" "map_ok (Disk (Files st))"
    and "mget (Disk (Files st)) (pin_file dir (trc_name i)) = Some f"
    and "\<forall>r \<in> set (r0 # rounds es). \<forall>k. attempt_ok (Attempts r k) \<and> pin_visible dir (trc_name i) (Attempts r k)"
    and "s = Files (snd (bootstrap_Run d dir interval r0 es st))"
  shows "\<exists>hs. History s = History (Files st) @ hs \<and>
    (\<forall>x \<in> set (Disk s # hs). mget x (pin_file dir (trc_name i)) = Some f \<and>
      mget x (cert_file dir (trc_name i)) \<in> {mget (Disk (Files st)) (cert_file dir (trc_name i)), Some (file644 (Content f))})"
proof -
  have "\<forall>r \<in> set (r0 # rounds es). \<forall>k. pin_attempt dir (trc_name i) (Attempts r k)"
    using assms(1,4) by (simp add: pin_attempt_def)
  from pins.Run_law [OF assms(2) this] have "evolves (pin_kept dir (trc_name i) f) (Files st) s"
    unfolding assms(5) .
  with assms(3) show ?thesis by (simp add: evolves_def pin_kept_def)
qed

theorem Run_keeps_pins_witness:
  "mget (Disk (Files (snd (bootstrap_Run (URLDiscoverer ''http://h'') ex_dir 5 (ex_round ''evil'') [Tick (ex_round ''good''), Done] ex_refresh))))
     (cert_file ex_dir (trc_name ex_trc)) \<in> {None, Some (file644 ''good'')}"
proof -
  have "mget (Disk (Files ex_refresh)) (cert_file ex_dir (trc_name ex_trc)) = None" by code_simp
  with Run_keeps_pins [OF boot_ok(4,5) ex_pin _ refl, of "ex_round ''evil''" "[Tick (ex_round ''good''), Done]" "URLDiscoverer ''http://h''" 5]
  show ?thesis by (auto simp: boot_ok ex_round_def file644_def)
qed

text \<open>
  C37. In every state of the disk during a run of the refresh loop each file other than the
  temporary ones is what it was at the start or a complete file of one server's answer, of at
  most 4 MiB and readable for all: no reader ever sees a partial file.
\<close>

theorem Run_files_complete:
  assumes "HasPrefix dir ''/''" "map_ok (Disk (Files st))"
    and "\<forall>r \<in> set (r0 # rounds es). \<forall>k. attempt_ok (Attempts r k)"
    and "s = Files (snd (bootstrap_Run d dir interval r0 es st))"
  shows "\<exists>hs. History s = History (Files st) @ hs \<and>
    (\<forall>x \<in> set (Disk s # hs). \<forall>q. (\<forall>r \<in> set (r0 # rounds es). \<forall>k. q \<notin> cache_temps (FsEnv (Attempts r k)) dir) \<longrightarrow>
      mget x q = mget (Disk (Files st)) q \<or>
      (\<exists>f. mget x q = Some f \<and> (\<exists>r \<in> set (r0 # rounds es). \<exists>k. (q, f) \<in> serves dir (Attempts r k)) \<and>
        length (Content f) \<le> maxBodySize \<and> Mode f = mode644))"
proof -
  define T where "T = (\<Union>r \<in> set (r0 # rounds es). \<Union>k. cache_temps (FsEnv (Attempts r k)) dir)"
  define F where "F = (\<Union>r \<in> set (r0 # rounds es). \<Union>k. serves dir (Attempts r k))"
  have "\<forall>r \<in> set (r0 # rounds es). \<forall>k. serving dir T F (Attempts r k)"
    using assms(1,3) by (auto simp: serving_def T_def F_def)
  from srv.Run_law [OF assms(2) this] have "evolves (cached_from T F) (Files st) s"
    unfolding assms(4) .
  then obtain hs where hs: "History s = History (Files st) @ hs"
    "\<forall>x \<in> set (Disk s # hs). cached_from T F (Disk (Files st)) x"
    unfolding evolves_def by blast
  moreover have "length (Content f) \<le> maxBodySize \<and> Mode f = mode644" if "(q, f) \<in> F" for q f
    using that serves_bounded by (auto simp: F_def)
  moreover have "(\<forall>r \<in> set (r0 # rounds es). \<forall>k. q \<notin> cache_temps (FsEnv (Attempts r k)) dir) \<longleftrightarrow> q \<notin> T" for q
    by (auto simp: T_def)
  moreover have "(\<exists>r \<in> set (r0 # rounds es). \<exists>k. (q, f) \<in> serves dir (Attempts r k)) \<longleftrightarrow> (q, f) \<in> F" for q f
    by (auto simp: F_def)
  ultimately show ?thesis
    unfolding cached_from_def by (intro exI [of _ hs]) metis
qed

theorem Run_files_complete_witness:
  "mget (Disk (Files (snd (bootstrap_Run (URLDiscoverer ''http://h'') ex_dir 5 (ex_round ''good'') [] ex_refresh)))) (topology_file ex_dir) \<in>
    {None} \<union> {Some f |f. length (Content f) \<le> maxBodySize}"
proof -
  have temps: "topology_file ex_dir \<notin> cache_temps (FsEnv (Attempts r k)) ex_dir" if "r = ex_round ''good''" for r k
    using cache_disjoint(2) [OF boot_ok(4) attempt_okD(1) [OF boot_ok(1)]] that by (simp add: ex_round_def)
  have "mget (Disk (Files ex_refresh)) (topology_file ex_dir) = None" by code_simp
  with Run_files_complete [OF boot_ok(4,5) _ refl, of "ex_round ''good''" "[]" "URLDiscoverer ''http://h''" 5] temps
  show ?thesis by (fastforce simp: boot_ok ex_round_def)
qed



text \<open>
  A topology appears only after its TRCs: in every state of the disk during an attempt the
  topology file is the old one, or every TRC the server listed is already in the cache.
\<close>

theorem topology_after_trcs:
  assumes "attempt_ok a" "HasPrefix dir ''/''" "map_ok (Disk s)" "download (Web a) base = Inr (topo, trcs)"
    and "s' = snd (fetchFrom a base dir s)"
  shows "\<exists>hs. History s' = History s @ hs \<and>
    (\<forall>x \<in> set (Disk s' # hs). mget x (topology_file dir) = mget (Disk s) (topology_file dir) \<or>
      (\<forall>(n, raw) \<in> set trcs. mget x (cert_file dir n) = Some (file644 raw)))"
proof (cases a base dir s rule: fetchFrom_cases)
  case (2 topo' trcs')
  with assms(4) have "fetchFrom a base dir s = bw.write_all (FsEnv a) (attempt_writes a dir topo trcs) s" by simp
  from fetchFrom_last(1) [OF assms(1-4) this] show ?thesis unfolding assms(5) .
qed (simp add: assms(5))

theorem topology_after_trcs_witness:
  "\<exists>hs topo trcs. download (ex_web ''good'') ''http://h'' = Inr (topo, trcs) \<and>
    History (snd (fetchFrom (ex_attempt ''good'') ''http://h'' ex_dir (Files ex_refresh))) = hs \<and>
    (\<forall>x \<in> set hs. mget x (topology_file ex_dir) = None \<or>
      (\<forall>(n, raw) \<in> set trcs. mget x (cert_file ex_dir n) = Some (file644 raw)))"
proof -
  have "is_ok (download (ex_web ''good'') ''http://h'')" by code_simp
  then obtain topo trcs where d: "download (Web (ex_attempt ''good'')) ''http://h'' = Inr (topo, trcs)"
    by (auto simp: is_ok_iff ex_attempt_def)
  have "mget (Disk (Files ex_refresh)) (topology_file ex_dir) = None" "History (Files ex_refresh) = []" by code_simp+
  with topology_after_trcs [OF boot_ok(1,4,5) d refl] d show ?thesis by (force simp: ex_attempt_def)
qed

text \<open>
  C39. No change of the topology is missed: along every sequence of refreshes and of
  notifications taken, when no notification is pending the content of the topology file is the
  one that was there when the last notification was taken (or at the start).
\<close>

theorem no_change_missed:
  assumes "HasPrefix dir ''/''" "map_ok (Disk (Files st))" "list_all (readable_round dir) es" "Done \<notin> set es"
    and "fold (refresh_step d dir) es (st, topo_content dir st) = (st', seen)"
  shows "snd (refresh_loop d dir es st) = st' \<and> (TopoChanged st' \<or> topo_content dir st' = seen)"
proof -
  have "notify_inv dir (fold (refresh_step d dir) es (st, topo_content dir st))"
    using ntf.ok_reachable [OF assms(3)] assms(1,2) by blast
  moreover have "snd (refresh_loop d dir es st) = st'"
    using refresh_loop_fold [OF assms(4), of d dir st "topo_content dir st"] assms(5) by simp
  ultimately show ?thesis by (simp add: assms(5) notify_inv_def)
qed

theorem no_change_missed_witness:
  "let es = [Tick (ex_round ''good''), Taken, Tick (ex_round ''good'')];
     p = fold (refresh_step (URLDiscoverer ''http://h'') ex_dir) es (ex_refresh, topo_content ex_dir ex_refresh)
   in snd (refresh_loop (URLDiscoverer ''http://h'') ex_dir es ex_refresh) = fst p \<and>
     (TopoChanged (fst p) \<or> topo_content ex_dir (fst p) = snd p)"
proof -
  let ?es = "[Tick (ex_round ''good''), Taken, Tick (ex_round ''good'')]"
  have "list_all (readable_round ex_dir) ?es"
    by (simp add: boot_ok readable_round_def [of _ Taken])
  from no_change_missed [OF boot_ok(4,5) this _ prod.collapse [symmetric]] show ?thesis by simp
qed

text \<open>
  A failed write can leave TRCs of two servers in the cache: the first server's TRC is
  written, writing its topology fails, and the second server's files are added to it.
\<close>

definition second_trc_web :: web where
  "second_trc_web n url =
     (if HasSuffix url ''/trcs''
      then ok_response (''[{'' @ quoted ''id'' @ '':{'' @ quoted ''isd'' @ '':1,'' @ quoted ''base_number'' @ '':1,'' @
        quoted ''serial_number'' @ '':7}}]'')
      else ex_web ''other'' n url)"

definition full_disk :: fsenv where
  "full_disk = ex_fs\<lparr>Fault := (\<lambda>op p. if op = OpWrite \<and> HasSuffix p ''topology.json.tmp42'' then Some (Err ''no space left'') else None)\<rparr>"

lemma failed_write_mixes_servers:
  "let r = fetch_loop (\<lambda>k. if k = 0 then (ex_attempt ''good'')\<lparr>FsEnv := full_disk\<rparr> else (ex_attempt [])\<lparr>Web := second_trc_web\<rparr>)
      ex_dir 0 (Err []) [''http://a'', ''http://b''] (Files ex_refresh)
   in fst r = None \<and> mget (Disk (snd r)) (cert_file ex_dir ''ISD1-B1-S2.trc'') = Some (file644 ''good'') \<and>
     mget (Disk (snd r)) (cert_file ex_dir ''ISD1-B1-S7.trc'') = Some (file644 ''other'')"
  by code_simp

end
