(* ===== verification/Kube.thy ===== *)
theory Kube
  imports Json_Decode
begin

text \<open>
  Package \<open>kube\<close> of the agent: a node's pod prefixes and address from the Node object, from the
  block affinities of Calico and from the node objects of Cilium. The API server's answers are
  parameters; so are the accessors of unstructured objects, which return the zero value for a
  missing field or one of another type.

  The lemmas characterise which prefixes are found, and show that both shapes of the
  OVN-Kubernetes annotation are read.
\<close>

section \<open>Node objects\<close>

record Node =
  SpecPodCIDRs :: "string list"
  SpecPodCIDR :: string
  Annotations :: "string gomap"
  Addresses :: "(string \<times> string) list"

record NodeInfo =
  PodCIDRs :: "string list"
  InternalIP :: string

definition ovnSubnets :: "string \<Rightarrow> string list" where
  "ovnSubnets raw =
     (if raw = [] then []
      else (case Unmarshal dec_map raw of
         Inl e \<Rightarrow> []
       | Inr networks \<Rightarrow>
           (case mget (case networks of None \<Rightarrow> [] | Some m \<Rightarrow> m) ''default'' of
              None \<Rightarrow> []
            | Some def \<Rightarrow>
                (case dec_slice (dec_string []) def of
                   Inr l \<Rightarrow> l
                 | Inl e \<Rightarrow>
                     (case dec_string [] def of
                        Inl e \<Rightarrow> []
                      | Inr single \<Rightarrow> (if single \<noteq> [] then [single] else []))))))"

definition node_pod_cidrs :: "Node \<Rightarrow> string list" where
  "node_pod_cidrs nd =
     (let cs = SpecPodCIDRs nd;
          cs = (if cs = [] \<and> SpecPodCIDR nd \<noteq> [] then [SpecPodCIDR nd] else cs)
      in if cs = [] then ovnSubnets (case mget (Annotations nd) ''k8s.ovn.org/node-subnets'' of None \<Rightarrow> [] | Some x \<Rightarrow> x)
         else cs)"

fun internal_ip :: "(string \<times> string) list \<Rightarrow> string" where
  "internal_ip [] = []"
| "internal_ip ((ty, addr) # as) = (if ty = ''InternalIP'' then addr else internal_ip as)"

definition GetNodeInfo :: "(string \<Rightarrow> Node result) \<Rightarrow> string \<Rightarrow> NodeInfo result" where
  "GetNodeInfo get name =
     (case get name of
        Inl e \<Rightarrow> Inl (Wrap (''get node '' @ name) e)
      | Inr nd \<Rightarrow>
          (let info = \<lparr>PodCIDRs = node_pod_cidrs nd, InternalIP = internal_ip (Addresses nd)\<rparr>
           in if InternalIP info = [] then Inl (Err (''node '' @ name @ '' has no InternalIP'')) else Inr info))"

section \<open>CNI objects\<close>

record 'o accessors =
  NestedString :: "'o \<Rightarrow> string list \<Rightarrow> string"
  NestedStringSlice :: "'o \<Rightarrow> string list \<Rightarrow> string list"
  GetName :: "'o \<Rightarrow> string"

definition calico_block :: "'o accessors \<Rightarrow> string \<Rightarrow> 'o \<Rightarrow> string option" where
  "calico_block acc node item =
     (if NestedString acc item [''spec'', ''node''] \<noteq> node then None
      else if NestedString acc item [''spec'', ''state''] \<noteq> ''confirmed'' then None
      else if NestedString acc item [''spec'', ''deleted''] = ''true'' then None
      else if NestedString acc item [''spec'', ''cidr''] \<noteq> [] then Some (NestedString acc item [''spec'', ''cidr''])
      else None)"

definition CalicoPodCIDRs :: "'o accessors \<Rightarrow> 'o list result \<Rightarrow> string \<Rightarrow> string list result" where
  "CalicoPodCIDRs acc lst node =
     (case lst of
        Inl e \<Rightarrow> Inl (Wrap ''list calico block affinities'' e)
      | Inr items \<Rightarrow> Inr (List.map_filter (calico_block acc node) items))"

fun cilium_node :: "'o accessors \<Rightarrow> string \<Rightarrow> 'o list \<Rightarrow> string list" where
  "cilium_node acc node [] = []"
| "cilium_node acc node (item # items) =
     (if GetName acc item \<noteq> node then cilium_node acc node items
      else NestedStringSlice acc item [''spec'', ''ipam'', ''podCIDRs''])"

definition CiliumPodCIDRs :: "'o accessors \<Rightarrow> 'o list result \<Rightarrow> string \<Rightarrow> string list result" where
  "CiliumPodCIDRs acc lst node =
     (case lst of
        Inl e \<Rightarrow> Inl (Wrap ''list cilium nodes'' e)
      | Inr items \<Rightarrow> Inr (cilium_node acc node items))"

section \<open>The OVN-Kubernetes annotation\<close>

text \<open>A value of the annotation: one subnet as a plain string, or a list of subnets.\<close>

fun ovn_value :: "string + string list \<Rightarrow> json" where
  "ovn_value (Inl c) = JStr (escape c)"
| "ovn_value (Inr cs) = JArr (map (\<lambda>c. JStr (escape c)) cs)"

fun ovn_list :: "string + string list \<Rightarrow> string list" where
  "ovn_list (Inl c) = (if c = [] then [] else [c])"
| "ovn_list (Inr cs) = cs"

lemma wf_ovn_value: "wf_json (ovn_value v)"
  by (cases v) (auto simp: list_all_iff)

lemma dec_string_escape [simp]: "dec_string old (JStr (html_raw (escape c))) = Inr c"
  by (simp add: dec_string_def unquote_html_raw)

lemma dec_all_strings: "dec_all (dec_string []) (map (\<lambda>c. JStr (html_raw (escape c))) cs) = Inr cs"
  by (induction cs) auto

text \<open>
  The annotation of OVN-Kubernetes, as the JSON encoder writes it, is read in both of its
  forms, with a list of subnets or with one subnet as a plain string under the key \<open>default\<close>,
  beside whatever other networks it names.
\<close>

theorem ovnSubnets_reads:
  assumes "map_ok m" "\<forall>(k, v) \<in> set m. wf_json v" "mget m ''default'' = Some (ovn_value v)"
  shows "ovnSubnets (compact (enc_map m)) = ovn_list v"
proof -
  have "parse_json [] = None" by code_simp
  then have "compact (enc_map m) \<noteq> []"
    using Unmarshal_compact [OF wf_enc_map [OF assms(2)], of dec_map] dec_enc_map [OF assms(1)]
    by (auto simp: Unmarshal_def split: option.splits)
  moreover have "Unmarshal dec_map (compact (enc_map m)) = Inr (Some (mmap rewrite_raw m))"
    using Unmarshal_compact [OF wf_enc_map [OF assms(2)], of dec_map] dec_enc_map [OF assms(1)] by (rule trans)
  ultimately show ?thesis
    using assms(3) by (cases v) (simp_all add: ovnSubnets_def mget_mmap dec_slice_def dec_all_strings comp_def)
qed

theorem ovnSubnets_reads_witness:
  "ovnSubnets (compact (enc_map [(''default'', ovn_value (Inr [''10.128.0.0/23'', ''fd01::/64'']))])) = [''10.128.0.0/23'', ''fd01::/64'']"
  using ovnSubnets_reads [of "[(''default'', ovn_value (Inr [''10.128.0.0/23'', ''fd01::/64'']))]" "Inr [''10.128.0.0/23'', ''fd01::/64'']"]
  by (simp add: map_ok_def mget_def list_all_iff)

section \<open>Which blocks are found\<close>

lemma set_CalicoPodCIDRs:
  "CalicoPodCIDRs acc (Inr items) node = Inr cs \<Longrightarrow> c \<in> set cs \<longleftrightarrow> (\<exists>item \<in> set items. calico_block acc node item = Some c)"
  by (force simp: CalicoPodCIDRs_def List.map_filter_def)

end
