(* ===== verification/Policy.thy ===== *)
theory Policy
  imports Netip
begin

text \<open>
  Package \<open>policy\<close> of the node agent (\<open>internal/agent/policy/policy.go\<close>): the accepted
  prefixes are everything in IPv4 minus the forbidden CIDRs, computed by recursive halving,
  checked again by a guardrail, and rendered as the gateway's routing policy.

  The lemmas show that the subtraction is exact, that its result is disjoint, sorted and
  of minimal length, that it succeeds exactly on IPv4 CIDRs, and that the guardrail only
  ever fires on an empty deny list.
\<close>

unbundle bit_operations_syntax

section \<open>Input\<close>

record Input =
  LocalIA :: string
  AdvertisedNets :: "string list"
  AcceptISDASes :: "string list"
  ForbiddenCIDRs :: "string list"

section \<open>Subtraction of CIDRs\<close>

definition upperHalfAddr :: "ipv4 \<Rightarrow> nat \<Rightarrow> ipv4" where
  "upperHalfAddr a b =
     (let a4 = As4 a
      in AddrFrom4 (a4[b div 8 := a4 ! (b div 8) OR push_bit (7 - b mod 8) 1]))"

text \<open>
  The loop over the excluded prefixes inside \<open>walk\<close>: \<open>None\<close> is the early return for a
  prefix that is excluded as a whole, \<open>Some ov\<close> reports whether any exclude overlaps.
\<close>

fun walk_scan :: "netprefix \<Rightarrow> netprefix list \<Rightarrow> bool \<Rightarrow> bool option" where
  "walk_scan p [] ov = Some ov"
| "walk_scan p (e # es) ov =
     (if Bits e \<le> Bits p \<and> Contains e (Addr p) then None
      else walk_scan p es (ov \<or> Overlaps p e))"

text \<open>The recursive halving; the prefix in hand is \<open>Prefix (V4 a) n\<close>.\<close>

function walk :: "netprefix list \<Rightarrow> ipv4 \<Rightarrow> nat \<Rightarrow> string list" where
  "walk ex a n =
     (case walk_scan (Prefix (V4 a) n) ex False of
        None \<Rightarrow> []
      | Some overlap \<Rightarrow>
          (if \<not> overlap then [v4_prefix_string a n]
           else if 32 \<le> n then []
           else walk ex a (Suc n) @ walk ex (upperHalfAddr a n) (Suc n)))"
  by pat_completeness auto
termination
  by (relation "measure (\<lambda>(ex, a, n). 32 - n)") auto

declare walk.simps [simp del]

fun parse_excludes :: "string list \<Rightarrow> netprefix list result" where
  "parse_excludes [] = Inr []"
| "parse_excludes (e # es) =
     (case ParsePrefix e of
        Inl err \<Rightarrow> Inl (Wrap (''parsing exclude '' @ e) err)
      | Inr p \<Rightarrow>
          (if \<not> Is4 (Addr p) then Inl (Err (''exclude '' @ e @ '': only IPv4 is supported''))
           else (case parse_excludes es of
               Inl err \<Rightarrow> Inl err
             | Inr ps \<Rightarrow> Inr (Masked p # ps))))"

definition subtractCIDRs :: "string \<Rightarrow> string list \<Rightarrow> string list result" where
  "subtractCIDRs base excludes =
     (case ParsePrefix base of
        Inl err \<Rightarrow> Inl (Wrap (''parsing base '' @ base) err)
      | Inr b \<Rightarrow>
          (case Masked b of
             Prefix (V6 _ _) _ \<Rightarrow> Inl (Err (''base '' @ base @ '': only IPv4 is supported''))
           | Prefix (V4 a) n \<Rightarrow>
               (case parse_excludes excludes of
                  Inl err \<Rightarrow> Inl err
                | Inr ex \<Rightarrow> Inr (sort (walk ex a n)))))"

section \<open>Guardrail\<close>

fun parse_forbidden :: "string list \<Rightarrow> netprefix list result" where
  "parse_forbidden [] = Inr []"
| "parse_forbidden (f # fs) =
     (case ParsePrefix f of
        Inl err \<Rightarrow> Inl (Wrap (''parsing forbidden CIDR '' @ f) err)
      | Inr p \<Rightarrow>
          (case parse_forbidden fs of Inl err \<Rightarrow> Inl err | Inr ps \<Rightarrow> Inr (p # ps)))"

fun check_nets :: "netprefix list \<Rightarrow> string list \<Rightarrow> unit result" where
  "check_nets fps [] = Inr ()"
| "check_nets fps (n # ns) =
     (case ParsePrefix n of
        Inl err \<Rightarrow> Inl (Wrap (''parsing prefix '' @ n) err)
      | Inr p \<Rightarrow>
          (if Bits p = 0 then Inl (Err (''prefix '' @ n @ '' is a default route''))
           else if list_ex (\<lambda>fp. Overlaps p fp) fps
           then Inl (Err (''prefix '' @ n @ '' overlaps forbidden CIDR''))
           else check_nets fps ns))"

definition ValidateNoOverlap :: "string list \<Rightarrow> string list \<Rightarrow> unit result" where
  "ValidateNoOverlap nets forbidden =
     (case parse_forbidden forbidden of
        Inl err \<Rightarrow> Inl err
      | Inr fps \<Rightarrow> check_nets fps nets)"

definition prepare :: "Input \<Rightarrow> string list result" where
  "prepare inp =
     (if LocalIA inp = [] then Inl (Err ''local IA must not be empty'')
      else if AcceptISDASes inp = []
      then Inl (Err ''no remote ISD-ASes to exchange prefixes with'')
      else (case subtractCIDRs ''0.0.0.0/0'' (ForbiddenCIDRs inp) of
         Inl err \<Rightarrow> Inl (Wrap ''computing accepted prefixes'' err)
       | Inr accepted \<Rightarrow>
           (case ValidateNoOverlap accepted (ForbiddenCIDRs inp) of
              Inl err \<Rightarrow> Inl (Wrap ''guardrail violated'' err)
            | Inr _ \<Rightarrow> Inr accepted)))"

section \<open>Rendering\<close>

definition newline :: string where
  "newline = [CHR 0x0A]"

definition advertise_rule :: "Input \<Rightarrow> string \<Rightarrow> string \<Rightarrow> string" where
  "advertise_rule inp remote net =
     ''advertise '' @ LocalIA inp @ '' '' @ remote @ '' '' @ net @ newline"

definition accept_rule :: "Input \<Rightarrow> string list \<Rightarrow> string \<Rightarrow> string" where
  "accept_rule inp accepted remote =
     ''accept '' @ remote @ '' '' @ LocalIA inp @ '' '' @ Join accepted '','' @ newline"

definition RenderRoutingPolicy :: "Input \<Rightarrow> string result" where
  "RenderRoutingPolicy inp =
     (case prepare inp of
        Inl err \<Rightarrow> Inl err
      | Inr accepted \<Rightarrow>
          Inr (concat (map (\<lambda>remote.
            concat (map (advertise_rule inp remote) (AdvertisedNets inp)) @
            accept_rule inp accepted remote) (AcceptISDASes inp))))"

section \<open>The subtraction is exact\<close>

lemma upperHalfAddr_set_bit:
  assumes "b < 32"
  shows "upperHalfAddr a b = Bit_Operations.set_bit (31 - b) a"
proof (rule bit_word_eqI)
  fix i assume "i < LENGTH(32)"
  define q r where "q = i div 8" and "r = i mod 8"
  have i: "i = 8 * q + r" and q: "q < 4" and r: "r < 8"
    using \<open>i < LENGTH(32)\<close> by (auto simp: q_def r_def)
  have at: "i = 31 - b \<longleftrightarrow> 3 - q = b div 8 \<and> r = 7 - b mod 8"
  proof -
    define k j where "k = b div 8" and "j = b mod 8"
    have "b = 8 * k + j" "k < 4" "j < 8" using assms by (auto simp: k_def j_def)
    moreover from this q have "k \<in> {0, 1, 2, 3}" "q \<in> {0, 1, 2, 3}" by auto
    ultimately show ?thesis
      unfolding i k_def [symmetric] j_def [symmetric] using r by auto
  qed
  have len: "length (As4 a) = 4" by (simp add: As4_def)
  have "bit (upperHalfAddr a b) i \<longleftrightarrow>
      bit ((As4 a)[b div 8 := As4 a ! (b div 8) OR push_bit (7 - b mod 8) 1] ! (3 - q)) r"
    unfolding i upperHalfAddr_def Let_def by (rule bit_AddrFrom4 [OF q r])
  also have "\<dots> \<longleftrightarrow> bit (As4 a ! (3 - q)) r \<or> 3 - q = b div 8 \<and> r = 7 - b mod 8"
    using assms r len by (auto simp: nth_list_update bit_simps)
  finally show "bit (upperHalfAddr a b) i = bit (Bit_Operations.set_bit (31 - b) a) i"
    using \<open>i < LENGTH(32)\<close> bit_As4 [OF q r, of a] at i by (auto simp: bit_simps)
qed

text \<open>
  The walk on prefixes instead of their text: the abstract result the strings print.
\<close>

function walk_prefixes :: "netprefix list \<Rightarrow> ipv4 \<Rightarrow> nat \<Rightarrow> (ipv4 \<times> nat) list" where
  "walk_prefixes ex a n =
     (case walk_scan (Prefix (V4 a) n) ex False of
        None \<Rightarrow> []
      | Some ov \<Rightarrow>
          (if \<not> ov then [(a, n)]
           else if 32 \<le> n then []
           else walk_prefixes ex a (Suc n) @ walk_prefixes ex (upperHalfAddr a n) (Suc n)))"
  by pat_completeness auto
termination
  by (relation "measure (\<lambda>(ex, a, n). 32 - n)") auto

declare walk_prefixes.simps [simp del]

lemma walk_prints: "walk ex a n = map (\<lambda>(a, n). v4_prefix_string a n) (walk_prefixes ex a n)"
proof (induction ex a n rule: walk.induct)
  case (1 ex a n)
  then show ?case
    by (simp add: walk.simps [of ex a n] walk_prefixes.simps [of ex a n] split: option.splits)
qed

definition v4_prefixes :: "netprefix list \<Rightarrow> bool" where
  "v4_prefixes ex = (\<forall>e \<in> set ex. Is4 (Addr e) \<and> Bits e \<le> 32)"

definition excluded :: "netprefix list \<Rightarrow> ipv4 \<Rightarrow> bool" where
  "excluded ex x = (\<exists>e \<in> set ex. Contains e (V4 x))"

text \<open>A prefix is aligned when its host bits are zero; halving keeps this.\<close>

definition aligned :: "ipv4 \<Rightarrow> nat \<Rightarrow> bool" where
  "aligned a n \<longleftrightarrow> n \<le> 32 \<and> v4_mask n a = a"

lemma walk_scan_None_iff:
  "walk_scan p ex ov = None \<longleftrightarrow> (\<exists>e \<in> set ex. Bits e \<le> Bits p \<and> Contains e (Addr p))"
  by (induction p ex ov rule: walk_scan.induct) auto

lemma walk_scan_SomeD:
  "walk_scan p ex ov = Some r \<Longrightarrow> r \<longleftrightarrow> ov \<or> (\<exists>e \<in> set ex. Overlaps p e)"
  by (induction p ex ov rule: walk_scan.induct) (auto split: if_splits)

lemma v4_cases:
  assumes "v4_prefixes ex" and "e \<in> set ex"
  obtains b m where "e = Prefix (V4 b) m" and "m \<le> 32"
  using assms that by (cases e; cases "Addr e") (auto simp: v4_prefixes_def)

lemma aligned_halves:
  assumes "aligned a n" and "n < 32"
  shows "aligned a (Suc n)" and "aligned (upperHalfAddr a n) (Suc n)"
    and "v4_mask n x = a \<longleftrightarrow> v4_mask (Suc n) x = a \<or> v4_mask (Suc n) x = upperHalfAddr a n"
    and "a \<noteq> upperHalfAddr a n"
proof -
  have a: "32 - n \<le> i" if "bit a i" for i
    using assms(1) that unfolding aligned_def by (metis bit_v4_mask)
  then have a': "bit a i \<Longrightarrow> 32 - Suc n \<le> i" for i
    by fastforce
  have a31: "\<not> bit a (31 - n)"
    using a [of "31 - n"] assms(2) by auto
  show s: "aligned a (Suc n)"
    unfolding aligned_def using assms(2) a' by (auto intro: bit_eqI simp: bit_v4_mask)
  show u: "aligned (upperHalfAddr a n) (Suc n)"
    unfolding aligned_def using assms(2) a'
    by (auto intro!: bit_eqI simp: upperHalfAddr_set_bit bit_v4_mask bit_simps)
  have "unset_bit (31 - n) a = a"
    using a31 by (auto intro!: bit_eqI simp: bit_simps)
  with v4_mask_Suc_split [OF assms(2), of x a] s u assms
  show "v4_mask n x = a \<longleftrightarrow> v4_mask (Suc n) x = a \<or> v4_mask (Suc n) x = upperHalfAddr a n"
    by (simp add: aligned_def upperHalfAddr_set_bit)
  have "bit (upperHalfAddr a n) (31 - n)"
    using assms(2) by (auto simp: upperHalfAddr_set_bit bit_simps)
  with a31 show "a \<noteq> upperHalfAddr a n" by metis
qed


text \<open>A prefix inside another one is at least as long.\<close>

lemma longer_inside:
  assumes "aligned d m" and "n \<le> 32" and inside: "\<And>x. v4_mask m x = d \<Longrightarrow> v4_mask n x = a"
  shows "n \<le> m"
proof (rule ccontr)
  assume "\<not> n \<le> m"
  have d: "32 - m \<le> i" if "bit d i" for i
    using assms(1) that unfolding aligned_def by (metis bit_v4_mask)
  let ?x = "Bit_Operations.set_bit (31 - m) d"
  have low: "31 - m < 32 - m" "32 - n \<le> 31 - m" using \<open>\<not> n \<le> m\<close> \<open>n \<le> 32\<close> by auto
  have "v4_mask m ?x = d"
    using d low by (intro bit_word_eqI) (auto simp: bit_v4_mask bit_simps)
  then have "v4_mask n ?x = v4_mask n d"
    using inside assms(1) by (simp add: aligned_def)
  then have "bit (v4_mask n ?x) (31 - m) = bit (v4_mask n d) (31 - m)" by simp
  then show False using d [of "31 - m"] low by (auto simp: bit_v4_mask bit_simps)
qed

text \<open>One unfolding of the walk, as the three outcomes the code distinguishes.\<close>

lemma walk_cases:
  assumes ex: "v4_prefixes ex" and al: "aligned a n"
  obtains (covered) "walk_prefixes ex a n = []"
      "\<forall>x. v4_mask n x = a \<longrightarrow> excluded ex x"
  | (free) "walk_prefixes ex a n = [(a, n)]"
      "\<forall>x. v4_mask n x = a \<longrightarrow> \<not> excluded ex x"
  | (split) "n < 32" "walk_prefixes ex a n =
        walk_prefixes ex a (Suc n) @ walk_prefixes ex (upperHalfAddr a n) (Suc n)"
      "\<exists>x. v4_mask n x = a \<and> excluded ex x"
proof (cases "walk_scan (Prefix (V4 a) n) ex False")
  case None
  then obtain e where e: "e \<in> set ex" "Bits e \<le> n" "Contains e (V4 a)"
    by (auto simp: walk_scan_None_iff)
  then have "\<forall>x. v4_mask n x = a \<longrightarrow> excluded ex x"
    using al v4_cases [OF ex e(1)] unfolding excluded_def aligned_def
    by (metis Contains_V4 netprefix.sel(2) v4_mask_eq_mono)
  with None covered show thesis by (simp add: walk_prefixes.simps [of ex a n])
next
  case (Some ov)
  have share: "Overlaps (Prefix (V4 a) n) e \<longleftrightarrow> (\<exists>x. v4_mask n x = a \<and> Contains e (V4 x))"
    if "e \<in> set ex" for e
    using v4_cases [OF ex that] al by (metis Contains_V4 Overlaps_V4_iff aligned_def)
  from Some have ov: "ov \<longleftrightarrow> (\<exists>x. v4_mask n x = a \<and> excluded ex x)"
    using walk_scan_SomeD [OF Some] share by (auto simp: excluded_def)
  show thesis
  proof (cases ov)
    case False
    with Some ov free show thesis by (simp add: walk_prefixes.simps [of ex a n])
  next
    case True
    have "n < 32"
    proof (rule ccontr)
      assume "\<not> n < 32"
      with al have "n = 32" by (simp add: aligned_def)
      from True ov obtain x e where e: "e \<in> set ex" "v4_mask n x = a" "Contains e (V4 x)"
        by (auto simp: excluded_def)
      moreover from v4_cases [OF ex e(1)] have "Bits e \<le> n"
        using \<open>n = 32\<close> by force
      ultimately have "walk_scan (Prefix (V4 a) n) ex False = None"
        using \<open>n = 32\<close> by (auto simp: walk_scan_None_iff)
      with Some show False by simp
    qed
    with True Some ov split show thesis by (simp add: walk_prefixes.simps [of ex a n])
  qed
qed

text \<open>The walk's own induction: the outcomes above, with the hypotheses for both halves.\<close>

lemma walk_induct [consumes 2, case_names covered free split]:
  assumes ex: "v4_prefixes ex" and "aligned a n"
    and covered: "\<And>a n. aligned a n \<Longrightarrow> walk_prefixes ex a n = [] \<Longrightarrow>
      \<forall>x. v4_mask n x = a \<longrightarrow> excluded ex x \<Longrightarrow> P a n"
    and free: "\<And>a n. aligned a n \<Longrightarrow> walk_prefixes ex a n = [(a, n)] \<Longrightarrow>
      \<forall>x. v4_mask n x = a \<longrightarrow> \<not> excluded ex x \<Longrightarrow> P a n"
    and split: "\<And>a n. aligned a n \<Longrightarrow> n < 32 \<Longrightarrow> walk_prefixes ex a n =
        walk_prefixes ex a (Suc n) @ walk_prefixes ex (upperHalfAddr a n) (Suc n) \<Longrightarrow>
      \<exists>x. v4_mask n x = a \<and> excluded ex x \<Longrightarrow>
      P a (Suc n) \<Longrightarrow> P (upperHalfAddr a n) (Suc n) \<Longrightarrow> P a n"
  shows "P a n"
  using assms(2)
proof (induction "32 - n" arbitrary: a n rule: less_induct)
  case less
  from ex less.prems show ?case
  proof (cases rule: walk_cases)
    case halves: split
    have "32 - Suc n < 32 - n" using halves(1) by simp
    then have "P a (Suc n)" "P (upperHalfAddr a n) (Suc n)"
      using less.hyps aligned_halves [OF less.prems halves(1)] by blast+
    with less.prems halves show ?thesis by (rule split)
  qed (rule covered [OF less.prems] free [OF less.prems], assumption+)+
qed

text \<open>What a walk returns are aligned prefixes inside the prefix it started from.\<close>

lemma walk_prefixes_inside:
  assumes "v4_prefixes ex" and "aligned a n"
  shows "(b, m) \<in> set (walk_prefixes ex a n) \<Longrightarrow> aligned b m \<and> n \<le> m \<and> v4_mask n b = a"
  using assms
proof (induction a n rule: walk_induct)
  case (split a n)
  then have "aligned b m \<and> Suc n \<le> m \<and> (v4_mask (Suc n) b = a \<or> v4_mask (Suc n) b = upperHalfAddr a n)"
    by auto
  with split(1,2) show ?case using aligned_halves(3) by auto
qed (auto simp: aligned_def)

text \<open>Exactness: the returned prefixes hold the addresses that are not excluded.\<close>

lemma walk_prefixes_exact:
  assumes "v4_prefixes ex" and "aligned a n"
  shows "(\<exists>(b, m) \<in> set (walk_prefixes ex a n). v4_mask m x = b) \<longleftrightarrow>
    v4_mask n x = a \<and> \<not> excluded ex x"
  using assms
proof (induction a n rule: walk_induct)
  case (split a n)
  from split(3,5,6) have "(\<exists>(b, m) \<in> set (walk_prefixes ex a n). v4_mask m x = b) \<longleftrightarrow>
      (v4_mask (Suc n) x = a \<or> v4_mask (Suc n) x = upperHalfAddr a n) \<and> \<not> excluded ex x"
    by (simp add: bex_Un) blast
  with split(1,2) show ?case by (simp add: aligned_halves(3))
qed auto

text \<open>Maximality: every prefix free of excludes lies inside a returned one.\<close>

lemma walk_prefixes_maximal:
  assumes "v4_prefixes ex" and "aligned a n"
  shows "n \<le> m \<Longrightarrow> aligned b m \<Longrightarrow> v4_mask n b = a \<Longrightarrow>
    \<forall>x. v4_mask m x = b \<longrightarrow> \<not> excluded ex x \<Longrightarrow>
    \<exists>(c, k) \<in> set (walk_prefixes ex a n). k \<le> m \<and> v4_mask k b = c"
  using assms
proof (induction a n rule: walk_induct)
  case (covered a n)
  then show ?case by (auto simp: aligned_def)
next
  case (split a n)
  have "n \<noteq> m"
    using split.prems split(4) by (auto simp: aligned_def)
  with split.prems(1) have "Suc n \<le> m" by simp
  from aligned_halves(3) [OF split(1,2)] split.prems(3)
  consider (lower) "v4_mask (Suc n) b = a" | (upper) "v4_mask (Suc n) b = upperHalfAddr a n"
    by blast
  then have "\<exists>(c, k) \<in> set (walk_prefixes ex a (Suc n)) \<union>
      set (walk_prefixes ex (upperHalfAddr a n) (Suc n)). k \<le> m \<and> v4_mask k b = c"
  proof cases
    case lower
    from split.IH(1) [OF \<open>Suc n \<le> m\<close> split.prems(2) lower split.prems(4)] show ?thesis by blast
  next
    case upper
    from split.IH(2) [OF \<open>Suc n \<le> m\<close> split.prems(2) upper split.prems(4)] show ?thesis by blast
  qed
  then show ?case by (simp add: split(3))
qed auto

text \<open>The returned prefixes share no address.\<close>

lemma walk_prefixes_disjoint:
  assumes "v4_prefixes ex" and "aligned a n"
  shows "distinct (walk_prefixes ex a n) \<and>
    (\<forall>(b, m) \<in> set (walk_prefixes ex a n). \<forall>(c, k) \<in> set (walk_prefixes ex a n).
      v4_mask m x = b \<longrightarrow> v4_mask k x = c \<longrightarrow> (b, m) = (c, k))"
  using assms
proof (induction a n rule: walk_induct)
  case (split a n)
  let ?l = "set (walk_prefixes ex a (Suc n))" and ?r = "set (walk_prefixes ex (upperHalfAddr a n) (Suc n))"
  note h = aligned_halves [OF split(1,2)]
  have l: "(b, m) \<in> ?l \<Longrightarrow> Suc n \<le> m \<and> v4_mask (Suc n) b = a"
    and r: "(b, m) \<in> ?r \<Longrightarrow> Suc n \<le> m \<and> v4_mask (Suc n) b = upperHalfAddr a n" for b m
    using walk_prefixes_inside [OF assms(1)] h by blast+
  have apart: "v4_mask m x = b \<Longrightarrow> v4_mask k x = c \<Longrightarrow> (b, m) \<in> ?l \<Longrightarrow> (c, k) \<in> ?r \<Longrightarrow> False" for b m c k
    using l r h(4) by (metis min.absorb1 v4_mask_mask)
  have "?l \<inter> ?r = {}" using l r h(4) by fastforce
  then have "distinct (walk_prefixes ex a n)" using split(3,5,6) by simp
  moreover have "(b, m) = (c, k)" if "(b, m) \<in> ?l \<union> ?r" "(c, k) \<in> ?l \<union> ?r"
    "v4_mask m x = b" "v4_mask k x = c" for b m c k
    using that split(5,6) apart [of m b k c] apart [of k c m b] by blast
  ultimately show ?case unfolding split(3) by auto
qed auto


section \<open>Correctness of the subtraction\<close>

text \<open>The IPv4 addresses a CIDR text denotes; none when it does not parse.\<close>

definition cidr_has :: "string \<Rightarrow> ipv4 \<Rightarrow> bool" where
  "cidr_has s x = (case ParsePrefix s of Inl _ \<Rightarrow> False | Inr p \<Rightarrow> Contains p (V4 x))"

definition v4_cidr :: "string \<Rightarrow> bool" where
  "v4_cidr s = (case ParsePrefix s of Inl _ \<Rightarrow> False | Inr p \<Rightarrow> Is4 (Addr p))"

lemma v4_cidrE:
  assumes "v4_cidr s"
  obtains a n where "ParsePrefix s = Inr (Prefix (V4 a) n)" "n \<le> 32"
proof -
  from assms obtain p where p: "ParsePrefix s = Inr p" "Is4 (Addr p)"
    by (auto simp: v4_cidr_def split: sum.splits)
  then obtain a n where "p = Prefix (V4 a) n" by (cases p; cases "Addr p") auto
  with p that show thesis by (auto dest: ParsePrefix_V4_le)
qed

lemma cidr_has_v4: "cidr_has s x \<Longrightarrow> v4_cidr s"
  by (auto simp: cidr_has_def v4_cidr_def split: sum.splits dest: Contains_family)

lemma cidr_has_printed:
  "m \<le> 32 \<Longrightarrow> cidr_has (v4_prefix_string b m) x \<longleftrightarrow> v4_mask m x = v4_mask m b"
  by (simp add: cidr_has_def ParsePrefix_v4_prefix_string Contains_V4)

lemma parse_excludes_ok:
  "parse_excludes es = Inr ex \<Longrightarrow>
    v4_prefixes ex \<and> (\<forall>e \<in> set es. v4_cidr e) \<and> (excluded ex x \<longleftrightarrow> (\<exists>e \<in> set es. cidr_has e x))"
proof (induction es arbitrary: ex)
  case (Cons e es)
  from Cons.prems obtain p ps where p: "ParsePrefix e = Inr p" "Is4 (Addr p)"
    "parse_excludes es = Inr ps" "ex = Masked p # ps"
    by (auto split: sum.splits if_splits)
  moreover from p have "Bits p \<le> 32" using ParsePrefix_Bits by (fastforce simp: maxBits_def)
  ultimately show ?case
    using Cons.IH [OF p(3)] by (auto simp: v4_prefixes_def v4_cidr_def excluded_def cidr_has_def)
qed (simp add: v4_prefixes_def excluded_def)

lemma parse_excludes_total: "is_ok (parse_excludes es) \<longleftrightarrow> (\<forall>e \<in> set es. v4_cidr e)"
proof (induction es)
  case (Cons e es)
  then show ?case
    by (cases "ParsePrefix e"; cases "parse_excludes es") (auto simp: v4_cidr_def)
qed simp

text \<open>
  What the walk computes, as a specification: aligned prefixes whose addresses are exactly
  those of a set, no two sharing an address, and such that every aligned prefix inside the
  set is inside one of them.
\<close>

definition max_partition :: "(ipv4 \<times> nat) list \<Rightarrow> (ipv4 \<Rightarrow> bool) \<Rightarrow> bool" where
  "max_partition ws S \<longleftrightarrow> distinct ws \<and>
     (\<forall>(b, m) \<in> set ws. aligned b m) \<and>
     (\<forall>x. (\<exists>(b, m) \<in> set ws. v4_mask m x = b) \<longleftrightarrow> S x) \<and>
     (\<forall>(b, m) \<in> set ws. \<forall>(c, k) \<in> set ws. \<forall>x.
        v4_mask m x = b \<longrightarrow> v4_mask k x = c \<longrightarrow> (b, m) = (c, k)) \<and>
     (\<forall>b m. aligned b m \<longrightarrow> (\<forall>x. v4_mask m x = b \<longrightarrow> S x) \<longrightarrow>
        (\<exists>(c, k) \<in> set ws. k \<le> m \<and> v4_mask k b = c))"

lemma max_partitionD:
  assumes "max_partition ws S"
  shows "distinct ws"
    and "(b, m) \<in> set ws \<Longrightarrow> aligned b m"
    and "(\<exists>(b, m) \<in> set ws. v4_mask m x = b) \<longleftrightarrow> S x"
    and "(b, m) \<in> set ws \<Longrightarrow> (c, k) \<in> set ws \<Longrightarrow> v4_mask m x = b \<Longrightarrow> v4_mask k x = c \<Longrightarrow>
      (b, m) = (c, k)"
    and "aligned b m \<Longrightarrow> \<forall>x. v4_mask m x = b \<longrightarrow> S x \<Longrightarrow>
      \<exists>(c, k) \<in> set ws. k \<le> m \<and> v4_mask k b = c"
  using assms unfolding max_partition_def by blast+

lemma max_partition_walk:
  assumes ex: "v4_prefixes ex" and al: "aligned a n"
  shows "max_partition (walk_prefixes ex a n) (\<lambda>x. v4_mask n x = a \<and> \<not> excluded ex x)"
proof -
  have "\<exists>(c, k) \<in> set (walk_prefixes ex a n). k \<le> m \<and> v4_mask k b = c"
    if b: "aligned b m" "\<forall>x. v4_mask m x = b \<longrightarrow> v4_mask n x = a \<and> \<not> excluded ex x" for b m
  proof (rule walk_prefixes_maximal [OF ex al _ b(1)])
    show "v4_mask n b = a" "\<forall>x. v4_mask m x = b \<longrightarrow> \<not> excluded ex x"
      using b by (auto simp: aligned_def)
    show "n \<le> m"
      using b al by (intro longer_inside [OF b(1)]) (auto simp: aligned_def)
  qed
  then show ?thesis
    unfolding max_partition_def
    using walk_prefixes_inside [OF ex al] walk_prefixes_exact [OF ex al]
      walk_prefixes_disjoint [OF ex al] by blast
qed

text \<open>
  No list of prefixes with the same addresses is shorter: each member of the partition
  needs a prefix of its own, one that lies inside it.
\<close>

lemma max_partition_minimal:
  assumes P: "max_partition ws S"
    and vs: "\<And>b m. (b, m) \<in> set vs \<Longrightarrow> aligned b m"
    and same: "\<And>x. (\<exists>(b, m) \<in> set vs. v4_mask m x = b) \<longleftrightarrow> S x"
  shows "length ws \<le> length vs"
proof -
  define inside where
    "inside v w \<longleftrightarrow> v \<in> set vs \<and> snd w \<le> snd v \<and> v4_mask (snd w) (fst v) = fst w" for v w
  have "\<exists>v. inside v (b, m)" if w: "(b, m) \<in> set ws" for b m
  proof -
    have "v4_mask m b = b" using max_partitionD(2) [OF P w] by (simp add: aligned_def)
    with w have "S b" using max_partitionD(3) [OF P] by blast
    then obtain d k where d: "(d, k) \<in> set vs" "v4_mask k b = d" using same by blast
    then have "\<forall>x. v4_mask k x = d \<longrightarrow> S x" using same by blast
    with max_partitionD(5) [OF P vs [OF d(1)]] obtain c j
      where c: "(c, j) \<in> set ws" "j \<le> k" "v4_mask j d = c" by blast
    from c(2,3) d(2) have "v4_mask j b = c" by auto
    with max_partitionD(4) [OF P w c(1) \<open>v4_mask m b = b\<close>] c d show ?thesis
      unfolding inside_def by auto
  qed
  then have ex: "\<exists>v. inside v w" if "w \<in> set ws" for w using that by (cases w) blast
  define pick where "pick w = (SOME v. inside v w)" for w
  have pick: "inside (pick w) w" if "w \<in> set ws" for w
    unfolding pick_def using ex [OF that] by (rule someI_ex)
  have "inj_on pick (set ws)"
  proof (rule inj_onI)
    fix v w assume vw: "v \<in> set ws" "w \<in> set ws" "pick v = pick w"
    with pick [of v] pick [of w]
      max_partitionD(4) [OF P, of "fst v" "snd v" "fst w" "snd w" "fst (pick w)"]
    show "v = w" by (simp add: inside_def)
  qed
  moreover have "pick ` set ws \<subseteq> set vs" using pick by (auto simp: inside_def)
  ultimately have "card (set ws) \<le> card (set vs)" by (metis List.finite_set card_inj_on_le)
  also have "\<dots> \<le> length vs" by (rule card_length)
  finally show ?thesis using max_partitionD(1) [OF P] by (simp add: distinct_card)
qed

text \<open>
  A successful subtraction is the sorted print-out of the partition of the base minus the
  excludes.
\<close>

lemma subtractCIDRs_walk:
  assumes "subtractCIDRs base es = Inr out"
  obtains ws where "out = sort (map (\<lambda>(b, m). v4_prefix_string b m) ws)"
    and "max_partition ws (\<lambda>x. cidr_has base x \<and> \<not> (\<exists>e \<in> set es. cidr_has e x))"
proof -
  from assms obtain b a n ex where b: "ParsePrefix base = Inr b" "Masked b = Prefix (V4 a) n"
    and ex: "parse_excludes es = Inr ex" and out: "out = sort (walk ex a n)"
    by (auto simp: subtractCIDRs_def split: sum.splits netprefix.splits addr.splits)
  from b(2) obtain a0 where b0: "b = Prefix (V4 a0) n" "a = v4_mask n a0"
    by (cases b rule: Masked.cases) auto
  with b have "n \<le> 32" by (auto dest: ParsePrefix_V4_le)
  with b0 have al: "aligned a n" by (simp add: aligned_def)
  have base: "cidr_has base x \<longleftrightarrow> v4_mask n x = a" for x
    using b b0 by (simp add: cidr_has_def Contains_V4)
  have v4: "v4_prefixes ex" and excl: "excluded ex x \<longleftrightarrow> (\<exists>e \<in> set es. cidr_has e x)" for x
    using parse_excludes_ok [OF ex] by blast+
  from max_partition_walk [OF v4 al] show thesis
    by (intro that [of "walk_prefixes ex a n"]) (simp_all add: out walk_prints base excl)
qed

lemma partition_denotes:
  assumes "max_partition ws S" and "(b, m) \<in> set ws"
  shows "cidr_has (v4_prefix_string b m) x \<longleftrightarrow> v4_mask m x = b"
  using max_partitionD(2) [OF assms] by (auto simp: aligned_def cidr_has_printed)

lemma subtract_addresses:
  assumes "subtractCIDRs base es = Inr out"
  shows "(\<exists>s \<in> set out. cidr_has s x) \<longleftrightarrow> cidr_has base x \<and> \<not> (\<exists>e \<in> set es. cidr_has e x)"
proof -
  obtain ws where out: "out = sort (map (\<lambda>(b, m). v4_prefix_string b m) ws)"
    and P: "max_partition ws (\<lambda>x. cidr_has base x \<and> \<not> (\<exists>e \<in> set es. cidr_has e x))"
    by (rule subtractCIDRs_walk [OF assms])
  have "(\<exists>s \<in> set out. cidr_has s x) \<longleftrightarrow> (\<exists>(b, m) \<in> set ws. v4_mask m x = b)"
    unfolding out using partition_denotes [OF P] by fastforce
  with max_partitionD(3) [OF P] show ?thesis by simp
qed

section \<open>The guardrail\<close>

lemma v4_cidr_ok: "v4_cidr s \<Longrightarrow> is_ok (ParsePrefix s)"
  by (auto simp: v4_cidr_def split: sum.splits)

lemma subtract_ok_iff:
  "is_ok (subtractCIDRs base es) \<longleftrightarrow> v4_cidr base \<and> (\<forall>e \<in> set es. v4_cidr e)"
proof (cases "ParsePrefix base")
  case (Inr b)
  then show ?thesis
    using parse_excludes_total [of es]
    by (cases b rule: Masked.cases; cases "parse_excludes es")
      (auto simp: subtractCIDRs_def v4_cidr_def)
qed (simp add: subtractCIDRs_def v4_cidr_def)

lemma subtract_printed:
  assumes "subtractCIDRs base es = Inr out" and "s \<in> set out"
  obtains b m where "s = v4_prefix_string b m" and "m \<le> 32"
proof -
  obtain ws where out: "out = sort (map (\<lambda>(b, m). v4_prefix_string b m) ws)"
    and P: "max_partition ws (\<lambda>x. cidr_has base x \<and> \<not> (\<exists>e \<in> set es. cidr_has e x))"
    by (rule subtractCIDRs_walk [OF assms(1)])
  with assms(2) obtain b m where "s = v4_prefix_string b m" "(b, m) \<in> set ws" by auto
  with max_partitionD(2) [OF P] that show thesis by (auto simp: aligned_def)
qed

lemma v4_cidr_printed: "m \<le> 32 \<Longrightarrow> v4_cidr (v4_prefix_string b m)"
  by (simp add: v4_cidr_def ParsePrefix_v4_prefix_string)

lemma v4_cidr_holds: "v4_cidr s \<Longrightarrow> \<exists>x. cidr_has s x"
  by (erule v4_cidrE) (auto simp: cidr_has_def Contains_V4)

definition default_route :: "string \<Rightarrow> bool" where
  "default_route s = (case ParsePrefix s of Inl _ \<Rightarrow> False | Inr p \<Rightarrow> Bits p = 0)"

text \<open>What is left holds a default route only when nothing at all was excluded.\<close>

lemma subtract_default_route:
  assumes "subtractCIDRs base es = Inr out" and "s \<in> set out" and "default_route s"
  shows "es = []"
proof (rule ccontr)
  assume "es \<noteq> []"
  then obtain e where e: "e \<in> set es" by (cases es) auto
  with subtract_ok_iff [of base es] assms(1) have "v4_cidr e" by simp
  then obtain x where "cidr_has e x" using v4_cidr_holds by blast
  moreover obtain b m where s: "s = v4_prefix_string b m" "m \<le> 32"
    by (rule subtract_printed [OF assms(1,2)])
  with assms(3) have "cidr_has s x"
    by (simp add: default_route_def ParsePrefix_v4_prefix_string cidr_has_printed)
  ultimately show False
    using subtract_addresses [OF assms(1), of x] assms(2) e by blast
qed

lemma parse_forbidden_total: "is_ok (parse_forbidden fs) \<longleftrightarrow> (\<forall>f \<in> set fs. is_ok (ParsePrefix f))"
proof (induction fs)
  case (Cons f fs)
  then show ?case by (cases "ParsePrefix f"; cases "parse_forbidden fs") auto
qed simp

lemma parse_forbidden_set:
  "parse_forbidden fs = Inr ps \<Longrightarrow> set ps = {p. \<exists>f \<in> set fs. ParsePrefix f = Inr p}"
  by (induction fs arbitrary: ps) (auto split: sum.splits)

lemma check_nets_iff:
  "check_nets fps ns = Inr () \<longleftrightarrow> (\<forall>n \<in> set ns. \<exists>p. ParsePrefix n = Inr p \<and> Bits p \<noteq> 0 \<and>
      (\<forall>fp \<in> set fps. \<not> Overlaps p fp))"
  by (induction fps ns rule: check_nets.induct) (auto simp: list_ex_iff split: sum.splits)

lemma validate_iff:
  "ValidateNoOverlap nets forbidden = Inr () \<longleftrightarrow>
    (\<forall>f \<in> set forbidden. is_ok (ParsePrefix f)) \<and>
    (\<forall>s \<in> set nets. \<exists>p. ParsePrefix s = Inr p \<and> Bits p \<noteq> 0 \<and>
      (\<forall>f \<in> set forbidden. \<forall>q. ParsePrefix f = Inr q \<longrightarrow> \<not> Overlaps p q))"
proof (cases "parse_forbidden forbidden")
  case (Inl err)
  then show ?thesis
    using parse_forbidden_total [of forbidden] by (simp add: ValidateNoOverlap_def)
next
  case (Inr fps)
  then show ?thesis
    using parse_forbidden_total [of forbidden] parse_forbidden_set [OF Inr]
    by (fastforce simp: ValidateNoOverlap_def check_nets_iff)
qed

lemma Overlaps_cidr:
  assumes "ParsePrefix s = Inr p" and "ParsePrefix t = Inr q" and "Is4 (Addr p)" and "Overlaps p q"
  shows "\<exists>x. cidr_has s x \<and> cidr_has t x"
proof -
  from assms(3) obtain a m where p: "p = Prefix (V4 a) m" by (cases p; cases "Addr p") auto
  with assms(4) obtain b n where "q = Prefix (V4 b) n"
    by (cases "(p, q)" rule: Overlaps.cases) auto
  with p assms show ?thesis by (simp add: Overlaps_V4_iff cidr_has_def)
qed

text \<open>The guardrail passes whatever a subtraction of a non-empty list returned.\<close>

lemma validate_subtract:
  assumes "subtractCIDRs base es = Inr out" and "es \<noteq> []"
  shows "ValidateNoOverlap out es = Inr ()"
  unfolding validate_iff
proof (intro conjI ballI)
  show "is_ok (ParsePrefix f)" if "f \<in> set es" for f
    using subtract_ok_iff [of base es] assms(1) that by (simp add: v4_cidr_ok)
  fix s assume s: "s \<in> set out"
  obtain b m where bm: "s = v4_prefix_string b m" "m \<le> 32"
    by (rule subtract_printed [OF assms(1) s])
  then have p: "ParsePrefix s = Inr (Prefix (V4 b) m)"
    by (simp add: ParsePrefix_v4_prefix_string)
  have "m \<noteq> 0"
    using subtract_default_route [OF assms(1) s] assms(2) p by (auto simp: default_route_def)
  moreover have "\<not> Overlaps (Prefix (V4 b) m) q" if "f \<in> set es" "ParsePrefix f = Inr q" for f q
    using Overlaps_cidr [OF p that(2)] subtract_addresses [OF assms(1)] s that(1) by auto
  ultimately show "\<exists>p. ParsePrefix s = Inr p \<and> Bits p \<noteq> 0 \<and>
      (\<forall>f \<in> set es. \<forall>q. ParsePrefix f = Inr q \<longrightarrow> \<not> Overlaps p q)"
    using p by auto
qed

lemma v4_cidr_all: "v4_cidr ''0.0.0.0/0''"
  by code_simp

lemma all_addresses: "cidr_has ''0.0.0.0/0'' x"
proof -
  have "ParsePrefix ''0.0.0.0/0'' = Inr (Prefix (V4 0) 0)" by code_simp
  then show ?thesis by (simp add: cidr_has_def Contains_V4)
qed

lemma prepare_Inr:
  "prepare inp = Inr acc \<Longrightarrow> LocalIA inp \<noteq> [] \<and> AcceptISDASes inp \<noteq> [] \<and>
    subtractCIDRs ''0.0.0.0/0'' (ForbiddenCIDRs inp) = Inr acc \<and>
    ValidateNoOverlap acc (ForbiddenCIDRs inp) = Inr ()"
  by (auto simp: prepare_def split: if_splits sum.splits)

section \<open>Properties\<close>

section \<open>A concrete deny list\<close>

lemma half_space: "subtractCIDRs ''0.0.0.0/0'' [''128.0.0.0/1''] = Inr [''0.0.0.0/1'']"
  by code_simp

lemma half_space_cidr: "v4_cidr ''0.0.0.0/1''" "v4_cidr ''128.0.0.0/1''"
  by code_simp+

lemma prepare_half_space:
  "prepare \<lparr>LocalIA = ''1-ff00:0:112'', AdvertisedNets = [], AcceptISDASes = [''1-ff00:0:110''],
     ForbiddenCIDRs = [''128.0.0.0/1'']\<rparr> = Inr [''0.0.0.0/1'']"
  by code_simp

text \<open>
  C9. The prefixes \<open>subtractCIDRs\<close> returns hold exactly the addresses of the base that no
  exclude holds.
\<close>

theorem subtractCIDRs_exact:
  assumes "subtractCIDRs base es = Inr out"
  shows "(\<exists>s \<in> set out. cidr_has s x) \<longleftrightarrow> cidr_has base x \<and> \<not> (\<exists>e \<in> set es. cidr_has e x)"
  by (rule subtract_addresses [OF assms])

theorem subtractCIDRs_exact_witness:
  "subtractCIDRs ''0.0.0.0/0'' [''128.0.0.0/1''] = Inr [''0.0.0.0/1''] \<and>
   (\<forall>x. cidr_has ''0.0.0.0/1'' x \<longleftrightarrow> cidr_has ''0.0.0.0/0'' x \<and> \<not> cidr_has ''128.0.0.0/1'' x)"
  using half_space subtractCIDRs_exact [OF half_space] by simp

text \<open>
  The returned prefixes are sorted, distinct and pairwise disjoint.
\<close>

theorem subtractCIDRs_disjoint:
  assumes "subtractCIDRs base es = Inr out"
  shows "sorted out \<and> distinct out \<and>
    (\<forall>s \<in> set out. \<forall>t \<in> set out. \<forall>x. cidr_has s x \<and> cidr_has t x \<longrightarrow> s = t)"
proof -
  obtain ws where out: "out = sort (map (\<lambda>(b, m). v4_prefix_string b m) ws)"
    and P: "max_partition ws (\<lambda>x. cidr_has base x \<and> \<not> (\<exists>e \<in> set es. cidr_has e x))"
    by (rule subtractCIDRs_walk [OF assms])
  have wf: "\<forall>w \<in> set ws. (\<lambda>(a, n). n \<le> 32) w"
    using max_partitionD(2) [OF P] by (auto simp: aligned_def)
  have "distinct out"
    unfolding out using v4p.distinct_print [OF wf max_partitionD(1) [OF P]] by simp
  moreover have "s = t" if "s \<in> set out" "t \<in> set out" "cidr_has s x" "cidr_has t x" for s t x
  proof -
    from that obtain b m c k where "s = v4_prefix_string b m" "(b, m) \<in> set ws"
      "t = v4_prefix_string c k" "(c, k) \<in> set ws" by (auto simp: out)
    with that partition_denotes [OF P] max_partitionD(4) [OF P, of b m c k x] show ?thesis
      by simp
  qed
  ultimately show ?thesis by (auto simp: out)
qed

theorem subtractCIDRs_disjoint_witness:
  "subtractCIDRs ''0.0.0.0/0'' [''128.0.0.0/1''] = Inr [''0.0.0.0/1''] \<and>
   sorted [''0.0.0.0/1''] \<and> distinct [''0.0.0.0/1'']"
  using half_space subtractCIDRs_disjoint [OF half_space] by blast



lemma prepare_succeeds:
  "is_ok (prepare inp) \<longleftrightarrow> LocalIA inp \<noteq> [] \<and> AcceptISDASes inp \<noteq> [] \<and>
    ForbiddenCIDRs inp \<noteq> [] \<and> (\<forall>f \<in> set (ForbiddenCIDRs inp). v4_cidr f)"
proof (cases "subtractCIDRs ''0.0.0.0/0'' (ForbiddenCIDRs inp)")
  case (Inl err)
  then show ?thesis
    using subtract_ok_iff [of "''0.0.0.0/0''" "ForbiddenCIDRs inp"]
    by (simp add: prepare_def v4_cidr_all)
next
  case (Inr acc)
  have v4: "\<forall>f \<in> set (ForbiddenCIDRs inp). v4_cidr f"
    using subtract_ok_iff [of "''0.0.0.0/0''" "ForbiddenCIDRs inp"] Inr by simp
  show ?thesis
  proof (cases "ForbiddenCIDRs inp = []")
    case True
    have "is_ok (ValidateNoOverlap acc [])" if "is_ok (prepare inp)"
      using that True Inr by (auto simp: prepare_def split: if_splits sum.splits)
    moreover have "subtractCIDRs ''0.0.0.0/0'' [] = Inr [''0.0.0.0/0'']"
      "\<not> is_ok (ValidateNoOverlap [''0.0.0.0/0''] [])"
      by code_simp+
    ultimately show ?thesis using True Inr by auto
  next
    case False
    then show ?thesis
      using v4 Inr validate_subtract [OF Inr False] by (simp add: prepare_def)
  qed
qed

text \<open>
  C25. \<open>prepare\<close> succeeds exactly when the local IA and the remote ASes are given and the
  deny list is non-empty and consists of IPv4 CIDRs: the guardrail behind the subtraction
  only ever rejects an empty deny list.
\<close>

theorem prepare_ok_iff:
  "is_ok (prepare inp) \<longleftrightarrow> LocalIA inp \<noteq> [] \<and> AcceptISDASes inp \<noteq> [] \<and>
    ForbiddenCIDRs inp \<noteq> [] \<and> (\<forall>f \<in> set (ForbiddenCIDRs inp). v4_cidr f)"
  by (rule prepare_succeeds)

theorem prepare_ok_iff_witness:
  "is_ok (prepare \<lparr>LocalIA = ''1-ff00:0:112'', AdvertisedNets = [], AcceptISDASes = [''1-ff00:0:110''],
     ForbiddenCIDRs = [''128.0.0.0/1'']\<rparr>)"
  unfolding prepare_ok_iff using half_space_cidr by simp

text \<open>
  C26. What \<open>prepare\<close> accepts: every address outside the forbidden CIDRs, none inside, and
  never a default route.
\<close>

theorem prepare_accepts:
  assumes "prepare inp = Inr acc"
  shows "(\<forall>x. (\<exists>s \<in> set acc. cidr_has s x) \<longleftrightarrow> \<not> (\<exists>f \<in> set (ForbiddenCIDRs inp). cidr_has f x)) \<and>
    (\<forall>s \<in> set acc. \<not> default_route s)"
proof -
  from prepare_Inr [OF assms] have sub: "subtractCIDRs ''0.0.0.0/0'' (ForbiddenCIDRs inp) = Inr acc"
    and val: "ValidateNoOverlap acc (ForbiddenCIDRs inp) = Inr ()" by auto
  from val have "\<forall>s \<in> set acc. \<not> default_route s"
    by (fastforce simp: validate_iff default_route_def)
  with subtract_addresses [OF sub] show ?thesis by (simp add: all_addresses)
qed

theorem prepare_accepts_witness:
  "(\<forall>x. cidr_has ''0.0.0.0/1'' x \<longleftrightarrow> \<not> cidr_has ''128.0.0.0/1'' x) \<and> \<not> default_route ''0.0.0.0/1''"
  using prepare_accepts [OF prepare_half_space] by simp

end
