(* ===== verification/Policy_Text.thy ===== *)
theory Policy_Text
  imports Policy Json_Decode
begin

text \<open>
  The two documents the agent writes for the gateway: the text of the routing policy read
  back rule by rule, and the traffic policy JSON (\<open>RenderTrafficPolicy\<close>).
\<close>

section \<open>Traffic policy\<close>

record trafficPolicyAS =
  Nets :: "string list"

record trafficPolicyDoc =
  ASes :: "trafficPolicyAS gomap"
  ConfigVersion :: nat

definition enc_trafficPolicyAS :: "trafficPolicyAS \<Rightarrow> json" where
  "enc_trafficPolicyAS a = JObj [(''Nets'', JArr (map (\<lambda>n. JStr (escape n)) (Nets a)))]"

definition enc_trafficPolicyDoc :: "trafficPolicyDoc \<Rightarrow> json" where
  "enc_trafficPolicyDoc d =
     JObj [(''ASes'', JObj (map (\<lambda>(ia, a). (escape ia, enc_trafficPolicyAS a)) (ASes d))),
           (''ConfigVersion'', JNum (Itoa (ConfigVersion d)))]"

definition RenderTrafficPolicy :: "Input \<Rightarrow> string result" where
  "RenderTrafficPolicy inp =
     (case prepare inp of
        Inl err \<Rightarrow> Inl err
      | Inr _ \<Rightarrow>
          Inr (indented ''    '' (enc_trafficPolicyDoc
            \<lparr>ASes = mputs (map (\<lambda>remote. (remote, \<lparr>Nets = []\<rparr>)) (AcceptISDASes inp)) [], ConfigVersion = 1\<rparr>) @ newline))"

text \<open>The ASes a traffic policy declares and the nets of each, as a reader of the JSON finds them.\<close>

definition policy_nets :: "string \<Rightarrow> string \<Rightarrow> json option" where
  "policy_nets text ia =
     (case Unmarshal dec_map text of
        Inr (Some doc) \<Rightarrow>
          (case mget doc ''ASes'' of
             Some as \<Rightarrow> (case dec_map as of Inr (Some m) \<Rightarrow> mget m ia | _ \<Rightarrow> None)
           | None \<Rightarrow> None)
      | _ \<Rightarrow> None)"

lemma raw_ok_keys: "raw_ok ''Nets''" "raw_ok ''ASes''" "raw_ok ''ConfigVersion''" "num_ok ''1''"
  by code_simp+

lemma unquote_keys: "unquote ''Nets'' = ''Nets''" "unquote ''ASes'' = ''ASes''"
    "unquote ''ConfigVersion'' = ''ConfigVersion''" "Itoa 1 = ''1''"
  by code_simp+

lemma wf_traffic: "wf_json (enc_trafficPolicyDoc \<lparr>ASes = m, ConfigVersion = 1\<rparr>)"
  using raw_ok_keys
  by (simp add: enc_trafficPolicyDoc_def enc_trafficPolicyAS_def unquote_keys list_all_iff case_prod_unfold
      del: One_nat_def)

lemma policy_nets_doc:
  assumes "map_ok m"
  shows "policy_nets (indented ''    '' (enc_trafficPolicyDoc \<lparr>ASes = m, ConfigVersion = 1\<rparr>) @ newline) ia =
    map_option enc_trafficPolicyAS (mget m ia)"
proof -
  let ?as = "JObj (map (\<lambda>(ia, a). (escape ia, enc_trafficPolicyAS a)) m)"
  have "dec_map ?as = Inr (Some (mmap enc_trafficPolicyAS m))"
    using mputs_sorted [of "mmap enc_trafficPolicyAS m"] assms
    by (simp add: dec_map_def case_prod_unfold comp_def) (simp add: mmap_def case_prod_unfold)
  moreover have "Unmarshal dec_map (indented ''    '' (enc_trafficPolicyDoc \<lparr>ASes = m, ConfigVersion = 1\<rparr>) @ newline) =
      dec_map (enc_trafficPolicyDoc \<lparr>ASes = m, ConfigVersion = 1\<rparr>)"
    by (rule Unmarshal_indented) (simp_all add: wf_traffic is_ws_def newline_def del: One_nat_def)
  moreover have "dec_map (enc_trafficPolicyDoc \<lparr>ASes = m, ConfigVersion = 1\<rparr>) =
      Inr (Some (mput ''ConfigVersion'' (JNum ''1'') (mput ''ASes'' ?as [])))"
    by (simp add: enc_trafficPolicyDoc_def dec_map_def unquote_keys mputs_def del: One_nat_def)
  ultimately show ?thesis by (simp add: policy_nets_def mget_mput del: mput.simps)
qed

definition ex_input :: Input where
  "ex_input = \<lparr>LocalIA = ''1-ff00:0:112'', AdvertisedNets = [''10.1.0.0/24''], AcceptISDASes = [''1-ff00:0:110''],
     ForbiddenCIDRs = [''128.0.0.0/1'']\<rparr>"

lemma ex_prepare: "prepare ex_input = Inr [''0.0.0.0/1'']"
  by code_simp

text \<open>
  The traffic policy declares exactly the remote ASes of the input, each with an empty
  list of static nets: no route is ever programmed from it.
\<close>

theorem traffic_policy_has_no_nets:
  assumes "RenderTrafficPolicy inp = Inr text"
  shows "policy_nets text ia =
    (if ia \<in> set (AcceptISDASes inp) then Some (JObj [(''Nets'', JArr [])]) else None)"
proof -
  let ?m = "mputs (map (\<lambda>remote. (remote, \<lparr>Nets = []\<rparr>)) (AcceptISDASes inp)) []"
  have "text = indented ''    '' (enc_trafficPolicyDoc \<lparr>ASes = ?m, ConfigVersion = 1\<rparr>) @ newline"
    using assms by (auto simp: RenderTrafficPolicy_def split: sum.splits)
  moreover have "mget ?m ia = (if ia \<in> set (AcceptISDASes inp) then Some \<lparr>Nets = []\<rparr> else None)"
    by (auto simp: mget_mputs gm.ok_empty gm.get_empty rev_map map_of_map_restrict restrict_map_def)
  ultimately show ?thesis
    using policy_nets_doc [of ?m ia] by (simp add: map_ok_mputs gm.ok_empty enc_trafficPolicyAS_def)
qed

theorem traffic_policy_has_no_nets_witness:
  "\<exists>text. RenderTrafficPolicy ex_input = Inr text \<and>
    policy_nets text ''1-ff00:0:110'' = Some (JObj [(''Nets'', JArr [])]) \<and> policy_nets text ''1-ff00:0:111'' = None"
proof -
  obtain doc where t: "RenderTrafficPolicy ex_input = Inr doc" by (simp add: RenderTrafficPolicy_def ex_prepare)
  from traffic_policy_has_no_nets [OF t] t show ?thesis by (simp add: ex_input_def)
qed

section \<open>Routing policy\<close>

text \<open>The rules of a policy text: its non-empty lines, split into words.\<close>

definition policy_rules :: "string \<Rightarrow> string list list" where
  "policy_rules text = map Fields (filter (\<lambda>l. l \<noteq> []) (Split text CHR 0x0A))"

definition word_ok :: "string \<Rightarrow> bool" where
  "word_ok s \<longleftrightarrow> s \<noteq> [] \<and> list_all (\<lambda>c. \<not> is_space c) s"

definition clean_input :: "Input \<Rightarrow> bool" where
  "clean_input inp \<longleftrightarrow> word_ok (LocalIA inp) \<and> list_all word_ok (AcceptISDASes inp) \<and> list_all word_ok (AdvertisedNets inp)"

lemma fields_aux_word: "list_all (\<lambda>c. \<not> is_space c) a \<Longrightarrow> fields_aux acc (a @ s) = fields_aux (rev a @ acc) s"
  by (induction a arbitrary: acc) auto

lemma Fields_word: "word_ok a \<Longrightarrow> Fields (a @ CHR '' '' # s) = a # Fields s" "word_ok a \<Longrightarrow> Fields a = [a]"
  using fields_aux_word [of a "[]" "CHR '' '' # s"] fields_aux_word [of a "[]" "[]"]
  by (simp_all add: Fields_def word_ok_def is_space_def)

lemma concat_map_concat: "concat (map f (concat xss)) = concat (map (\<lambda>xs. concat (map f xs)) xss)"
  by (induction xss) simp_all

lemma Split_lines:
  "list_all (\<lambda>l. CHR 0x0A \<notin> set l) ls \<Longrightarrow> Split (concat (map (\<lambda>l. l @ newline) ls)) CHR 0x0A = ls @ [[]]"
  by (induction ls) (auto simp: newline_def Split_append)

lemma word_ok_no_newline: "word_ok a \<Longrightarrow> CHR 0x0A \<notin> set a"
  by (auto simp: word_ok_def list_all_iff is_space_def)

lemma v4_cidr_word:
  assumes "v4_cidr s"
  shows "word_ok s \<and> CHR '','' \<notin> set s"
proof -
  from assms obtain p where p: "ParsePrefix s = Inr p" "Is4 (Addr p)" by (auto simp: v4_cidr_def split: sum.splits)
  have "\<not> is_space c \<and> c \<noteq> CHR '',''" if "c \<in> set s" for c
    using ParsePrefix_V4_chars [OF p that] by (auto simp: is_space_def is_digit_def)
  with ParsePrefix_neq_Nil [OF p(1)] show ?thesis by (auto simp: word_ok_def list_all_iff)
qed

lemma Join_word: "xs \<noteq> [] \<Longrightarrow> list_all word_ok xs \<Longrightarrow> word_ok (Join xs '','')"
  by (induction xs "'',''" rule: Join.induct) (auto simp: word_ok_def is_space_def)

text \<open>The rules of a policy as tuples of words, and the line of a rule.\<close>

type_synonym rule_words = "string \<times> string \<times> string \<times> string"

definition policy_tuples :: "Input \<Rightarrow> string list \<Rightarrow> rule_words list" where
  "policy_tuples inp acc = concat (map (\<lambda>remote.
     map (\<lambda>net. (''advertise'', LocalIA inp, remote, net)) (AdvertisedNets inp) @
     [(''accept'', remote, LocalIA inp, Join acc '','')]) (AcceptISDASes inp))"

fun rule_line :: "rule_words \<Rightarrow> string" where
  "rule_line (a, b, c, d) = a @ '' '' @ b @ '' '' @ c @ '' '' @ d"

fun rule_list :: "rule_words \<Rightarrow> string list" where
  "rule_list (a, b, c, d) = [a, b, c, d]"

fun rule_ok :: "rule_words \<Rightarrow> bool" where
  "rule_ok (a, b, c, d) = (word_ok a \<and> word_ok b \<and> word_ok c \<and> word_ok d)"

definition policy_words :: "Input \<Rightarrow> string list \<Rightarrow> string list list" where
  "policy_words inp acc = map rule_list (policy_tuples inp acc)"

lemma rule_line_ok: "rule_ok w \<Longrightarrow> Fields (rule_line w) = rule_list w \<and> rule_line w \<noteq> [] \<and> CHR 0x0A \<notin> set (rule_line w)"
  by (cases w) (auto simp: Fields_word dest: word_ok_no_newline)

lemma routing_text:
  assumes "prepare inp = Inr acc"
  shows "RenderRoutingPolicy inp = Inr (concat (map (\<lambda>w. rule_line w @ newline) (policy_tuples inp acc)))"
proof -
  have "advertise_rule inp remote = (\<lambda>net. rule_line (''advertise'', LocalIA inp, remote, net) @ newline)"
    "accept_rule inp acc remote = rule_line (''accept'', remote, LocalIA inp, Join acc '','') @ newline" for remote
    by (simp_all add: advertise_rule_def accept_rule_def fun_eq_iff)
  then show ?thesis
    using assms by (simp add: RenderRoutingPolicy_def policy_tuples_def comp_def concat_map_concat
        del: rule_line.simps)
qed

lemma policy_tuples_ok:
  assumes "clean_input inp" "word_ok (Join acc '','')"
  shows "list_all rule_ok (policy_tuples inp acc)"
proof -
  have "word_ok ''advertise''" "word_ok ''accept''" by code_simp+
  with assms show ?thesis by (auto simp: policy_tuples_def clean_input_def list_all_iff)
qed

lemma policy_rules_text:
  assumes "list_all rule_ok ws"
  shows "policy_rules (concat (map (\<lambda>w. rule_line w @ newline) ws)) = map rule_list ws"
proof -
  have "Split (concat (map (\<lambda>l. l @ newline) (map rule_line ws))) CHR 0x0A = map rule_line ws @ [[]]"
    using assms rule_line_ok by (intro Split_lines) (auto simp: list_all_iff)
  moreover have "map Fields (filter (\<lambda>l. l \<noteq> []) (map rule_line ws)) = map rule_list ws"
    using assms by (induction ws) (auto simp: rule_line_ok)
  ultimately show ?thesis by (simp add: policy_rules_def comp_def)
qed

lemma routing_rules:
  assumes "RenderRoutingPolicy inp = Inr text" "clean_input inp"
    and "\<not> (\<exists>f \<in> set (ForbiddenCIDRs inp). cidr_has f x0)"
  shows "\<exists>acc. policy_rules text = policy_words inp acc \<and> Split (Join acc '','') CHR '','' = acc \<and>
    (\<forall>x. (\<exists>s \<in> set acc. cidr_has s x) \<longleftrightarrow> \<not> (\<exists>f \<in> set (ForbiddenCIDRs inp). cidr_has f x))"
proof -
  from assms(1) obtain acc where acc: "prepare inp = Inr acc"
    by (auto simp: RenderRoutingPolicy_def split: sum.splits)
  from prepare_Inr [OF acc] have sub: "subtractCIDRs ''0.0.0.0/0'' (ForbiddenCIDRs inp) = Inr acc" by blast
  note addresses = subtract_addresses [OF sub, unfolded simp_thms all_addresses]
  from addresses [of x0] assms(3) all_addresses have "acc \<noteq> []" by auto
  have words: "word_ok s \<and> CHR '','' \<notin> set s" if "s \<in> set acc" for s
    using subtract_printed [OF sub that] v4_cidr_printed v4_cidr_word by metis
  with \<open>acc \<noteq> []\<close> have join: "word_ok (Join acc '','')" "Split (Join acc '','') CHR '','' = acc"
    by (auto intro!: Join_word Split_Join simp: list_all_iff)
  have "text = concat (map (\<lambda>w. rule_line w @ newline) (policy_tuples inp acc))"
    using routing_text [OF acc] assms(1) by simp
  then have "policy_rules text = policy_words inp acc"
    using policy_rules_text [OF policy_tuples_ok [OF assms(2) join(1)]] by (simp add: policy_words_def)
  with join(2) addresses all_addresses show ?thesis by auto
qed



end
