(* ===== verification/Metricsauth.thy ===== *)
theory Metricsauth
  imports Go_Map Go_Http
begin

text \<open>
  Packages \<open>metricsauth\<close> and \<open>health\<close> of the agent: the middleware in front of the metrics
  endpoint and the readiness state behind the probes.

  \<open>check\<close> is the code as one call sees it. The step relation below it interleaves any
  number of concurrent calls at the points where the code holds no lock; \<open>check\<close> is one of
  its runs. The invariants show that the cache stays bounded, that an entry exists and a call
  returns 200 only for a token the API server approved, and that an entry expires.
\<close>

section \<open>Authenticator\<close>

definition cacheTTL :: nat where
  "cacheTTL = 120 * Second"

definition cacheMax :: nat where
  "cacheMax = 128"

record user_info =
  Username :: string
  Groups :: "string list"
  UID :: string

record access_review =
  ReviewUser :: user_info
  ReviewPath :: string
  ReviewVerb :: string

text \<open>
  The API server: a token review gives the user of a valid token, a subject access review
  tells whether the access is allowed.
\<close>

record kube_auth =
  TokenReviews :: "string \<Rightarrow> user_info option result"
  SubjectAccessReviews :: "access_review \<Rightarrow> bool result"

type_synonym auth_cache = "nat gomap"

definition cached :: "nat \<Rightarrow> auth_cache \<Rightarrow> string \<Rightarrow> bool" where
  "cached now allowed token = (case mget allowed token of None \<Rightarrow> False | Some expiry \<Rightarrow> now < expiry)"

definition remember :: "nat \<Rightarrow> string \<Rightarrow> auth_cache \<Rightarrow> auth_cache" where
  "remember now token allowed =
     mput token (now + cacheTTL) (if cacheMax \<le> length allowed then [] else allowed)"

definition metrics_review :: "user_info \<Rightarrow> access_review" where
  "metrics_review u = \<lparr>ReviewUser = u, ReviewPath = ''/metrics'', ReviewVerb = ''get''\<rparr>"

text \<open>\<open>now1\<close> and \<open>now2\<close> are the readings of the clock at the lookup and at the store.\<close>

definition check :: "kube_auth \<Rightarrow> nat \<Rightarrow> nat \<Rightarrow> string \<Rightarrow> auth_cache \<Rightarrow> nat result \<times> auth_cache" where
  "check cs now1 now2 token allowed =
     (if cached now1 allowed token then (Inr 200, allowed)
      else (case TokenReviews cs token of
         Inl e \<Rightarrow> (Inl e, allowed)
       | Inr None \<Rightarrow> (Inr 401, allowed)
       | Inr (Some u) \<Rightarrow>
           (case SubjectAccessReviews cs (metrics_review u) of
              Inl e \<Rightarrow> (Inl e, allowed)
            | Inr False \<Rightarrow> (Inr 403, allowed)
            | Inr True \<Rightarrow> (Inr 200, remember now2 token allowed))))"

definition Middleware ::
    "(Request \<Rightarrow> Response) \<Rightarrow> kube_auth \<Rightarrow> string list \<Rightarrow> nat \<Rightarrow> nat \<Rightarrow> Request \<Rightarrow> auth_cache \<Rightarrow> Response \<times> auth_cache" where
  "Middleware next_handler cs unauthenticated now1 now2 r allowed =
     (if Path r \<in> set unauthenticated then (next_handler r, allowed)
      else
        (let (token, ok) = CutPrefix (Authorization r) ''Bearer ''
         in if \<not> ok \<or> token = [] then (http_error ''unauthorized'' 401, allowed)
            else (case check cs now1 now2 token allowed of
               (Inl e, allowed') \<Rightarrow> (http_error ''authentication check failed'' 500, allowed')
             | (Inr status, allowed') \<Rightarrow>
                 (if status \<noteq> 200 then (http_error (StatusText status) status, allowed')
                  else (next_handler r, allowed')))))"

section \<open>Concurrent calls\<close>

text \<open>Where a call of \<open>check\<close> is: between two of its critical sections or API calls.\<close>

datatype phase =
    Idle
  | Reviewing string
  | Authorizing string user_info
  | Storing string
  | Returned string "nat result"

text \<open>\<open>approved\<close> records the positive answers of the API server with their times.\<close>

record auth_state =
  clock :: nat
  allowed :: auth_cache
  calls :: "nat \<Rightarrow> phase"
  approved :: "(string \<times> nat) list"

definition goto :: "nat \<Rightarrow> phase \<Rightarrow> auth_state \<Rightarrow> auth_state" where
  "goto i p s = s\<lparr>calls := (calls s)(i := p)\<rparr>"

inductive auth_step :: "auth_state \<Rightarrow> auth_state \<Rightarrow> bool" where
  tick: "auth_step s (s\<lparr>clock := clock s + d\<rparr>)"
| hit: "calls s i = Idle \<Longrightarrow> cached (clock s) (allowed s) token \<Longrightarrow> auth_step s (goto i (Returned token (Inr 200)) s)"
| miss: "calls s i = Idle \<Longrightarrow> \<not> cached (clock s) (allowed s) token \<Longrightarrow> auth_step s (goto i (Reviewing token) s)"
| review_fails: "calls s i = Reviewing token \<Longrightarrow> auth_step s (goto i (Returned token (Inl e)) s)"
| not_authenticated: "calls s i = Reviewing token \<Longrightarrow> auth_step s (goto i (Returned token (Inr 401)) s)"
| authenticated: "calls s i = Reviewing token \<Longrightarrow> auth_step s (goto i (Authorizing token u) s)"
| access_fails: "calls s i = Authorizing token u \<Longrightarrow> auth_step s (goto i (Returned token (Inl e)) s)"
| denied: "calls s i = Authorizing token u \<Longrightarrow> auth_step s (goto i (Returned token (Inr 403)) s)"
| granted: "calls s i = Authorizing token u \<Longrightarrow>
    auth_step s (goto i (Storing token) (s\<lparr>approved := (token, clock s) # approved s\<rparr>))"
| store: "calls s i = Storing token \<Longrightarrow>
    auth_step s (goto i (Returned token (Inr 200)) (s\<lparr>allowed := remember (clock s) token (allowed s)\<rparr>))"
| next_call: "calls s i = Returned token r \<Longrightarrow> auth_step s (goto i Idle s)"

definition auth_init :: "nat \<Rightarrow> auth_state" where
  "auth_init t = \<lparr>clock = t, allowed = [], calls = (\<lambda>_. Idle), approved = []\<rparr>"

inductive auth_reachable :: "auth_state \<Rightarrow> bool" where
  start: "auth_reachable (auth_init t)"
| step: "auth_reachable s \<Longrightarrow> auth_step s s' \<Longrightarrow> auth_reachable s'"

inductive_cases auth_stepE: "auth_step s s'"

section \<open>Readiness\<close>

definition ComponentBootstrap :: string where "ComponentBootstrap = ''bootstrap''"
definition ComponentGateway :: string where "ComponentGateway = ''gateway''"

record Health =
  ready :: "bool gomap"

definition New :: Health where
  "New = \<lparr>ready = []\<rparr>"

definition SetReady :: "string \<Rightarrow> bool \<Rightarrow> Health \<Rightarrow> Health" where
  "SetReady component ok h = h\<lparr>ready := mput component ok (ready h)\<rparr>"

definition is_ready :: "Health \<Rightarrow> string \<Rightarrow> bool" where
  "is_ready h c = (case mget (ready h) c of None \<Rightarrow> False | Some b \<Rightarrow> b)"

definition readyz :: "Health \<Rightarrow> Response" where
  "readyz h =
     (if list_all (is_ready h) [ComponentBootstrap, ComponentGateway] then Response 200 [] else Response 503 [])"

text \<open>The handler of \<open>/metrics\<close> is the Prometheus library's.\<close>

definition Mux :: "(Request \<Rightarrow> Response) \<Rightarrow> Health \<Rightarrow> Request \<Rightarrow> Response" where
  "Mux metrics h r =
     (if Path r = ''/healthz'' then Response 200 []
      else if Path r = ''/readyz'' then readyz h
      else if Path r = ''/metrics'' then metrics r
      else http_error ''404 page not found'' 404)"

section \<open>Invariants of the cache\<close>

definition approved_before :: "auth_state \<Rightarrow> string \<Rightarrow> nat \<Rightarrow> bool" where
  "approved_before s token t \<longleftrightarrow> (\<exists>u. (token, u) \<in> set (approved s) \<and> u \<le> t)"

fun phase_ok :: "auth_state \<Rightarrow> phase \<Rightarrow> bool" where
  "phase_ok s (Storing token) = approved_before s token (clock s)"
| "phase_ok s (Returned token r) = (r = Inr 200 \<longrightarrow> approved_before s token (clock s))"
| "phase_ok s p = True"

definition auth_inv :: "auth_state \<Rightarrow> bool" where
  "auth_inv s \<longleftrightarrow> map_ok (allowed s) \<and> length (allowed s) \<le> cacheMax \<and>
     (\<forall>token expiry. mget (allowed s) token = Some expiry \<longrightarrow>
        cacheTTL \<le> expiry \<and> expiry \<le> clock s + cacheTTL \<and> approved_before s token (expiry - cacheTTL)) \<and>
     (\<forall>i. phase_ok s (calls s i))"

lemma remember_ok:
  assumes "map_ok m" "length m \<le> cacheMax"
  shows "map_ok (remember now token m)" "length (remember now token m) \<le> cacheMax"
    "mget (remember now token m) k = Some e \<Longrightarrow> (k = token \<and> e = now + cacheTTL) \<or> mget m k = Some e"
  using assms length_mput [of token "now + cacheTTL" m] length_mput [of token "now + cacheTTL" "[]"]
  by (auto simp: remember_def map_ok_mput mget_mput cacheMax_def split: if_splits)

lemma approved_before_mono:
  "approved_before s token t \<Longrightarrow> set (approved s) \<subseteq> set (approved s') \<Longrightarrow> t \<le> t' \<Longrightarrow> approved_before s' token t'"
  by (force simp: approved_before_def)

lemma phase_ok_mono:
  "phase_ok s p \<Longrightarrow> set (approved s) \<subseteq> set (approved s') \<Longrightarrow> clock s \<le> clock s' \<Longrightarrow> phase_ok s' p"
  by (cases p) (auto intro: approved_before_mono)

lemma goto_fields [simp]:
  "clock (goto i p s) = clock s" "allowed (goto i p s) = allowed s" "approved (goto i p s) = approved s"
  "calls (goto i p s) j = (if j = i then p else calls s j)"
  by (simp_all add: goto_def)

lemma phase_ok_goto [simp]: "phase_ok (goto i p s) q = phase_ok s q"
  by (cases q) (simp_all add: approved_before_def)

lemma approved_before_goto [simp]: "approved_before (goto i p s) token t = approved_before s token t"
  by (simp add: approved_before_def)

lemma auth_inv_goto: "auth_inv s \<Longrightarrow> phase_ok s p \<Longrightarrow> auth_inv (goto i p s)"
  by (simp add: auth_inv_def)

lemma auth_inv_cached: "auth_inv s \<Longrightarrow> cached (clock s) (allowed s) token \<Longrightarrow> approved_before s token (clock s)"
proof -
  assume inv: "auth_inv s" and "cached (clock s) (allowed s) token"
  then obtain e where "mget (allowed s) token = Some e" by (auto simp: cached_def split: option.splits)
  with inv have "approved_before s token (e - cacheTTL)" "e \<le> clock s + cacheTTL" by (simp_all add: auth_inv_def)
  then show ?thesis by (auto intro: approved_before_mono)
qed

lemma auth_inv_init: "auth_inv (auth_init t)"
  by (simp add: auth_init_def auth_inv_def)

lemma auth_inv_tick:
  assumes "auth_inv s"
  shows "auth_inv (s\<lparr>clock := clock s + d\<rparr>)"
proof -
  have "approved_before (s\<lparr>clock := clock s + d\<rparr>) token t = approved_before s token t" for token t
    by (simp add: approved_before_def)
  with assms show ?thesis
    using phase_ok_mono [of s _ "s\<lparr>clock := clock s + d\<rparr>"] by (fastforce simp: auth_inv_def)
qed

lemma auth_inv_granted:
  assumes "auth_inv s"
  shows "auth_inv (s\<lparr>approved := (token, clock s) # approved s\<rparr>)"
proof -
  let ?s = "s\<lparr>approved := (token, clock s) # approved s\<rparr>"
  have "approved_before s t e \<Longrightarrow> approved_before ?s t e" for t e by (erule approved_before_mono) auto
  moreover have "phase_ok s p \<Longrightarrow> phase_ok ?s p" for p by (erule phase_ok_mono) auto
  ultimately show ?thesis using assms by (auto simp: auth_inv_def)
qed

lemma auth_inv_store:
  assumes "auth_inv s" "approved_before s token (clock s)"
  shows "auth_inv (s\<lparr>allowed := remember (clock s) token (allowed s)\<rparr>)"
proof -
  let ?s = "s\<lparr>allowed := remember (clock s) token (allowed s)\<rparr>"
  have m: "map_ok (allowed s)" "length (allowed s) \<le> cacheMax" using assms(1) by (simp_all add: auth_inv_def)
  have "approved_before ?s t e = approved_before s t e" for t e by (simp add: approved_before_def)
  moreover have "phase_ok s p \<Longrightarrow> phase_ok ?s p" for p by (erule phase_ok_mono) auto
  ultimately show ?thesis
    using assms remember_ok [OF m, of "clock s" token] by (fastforce simp: auth_inv_def)
qed

lemma auth_inv_step: "auth_step s s' \<Longrightarrow> auth_inv s \<Longrightarrow> auth_inv s'"
proof (induction rule: auth_step.induct)
  case (hit s i token)
  then show ?case by (simp add: auth_inv_goto auth_inv_cached)
next
  case (granted s i token u)
  let ?s = "s\<lparr>approved := (token, clock s) # approved s\<rparr>"
  have "phase_ok ?s (Storing token)" by (auto simp: approved_before_def)
  with auth_inv_granted [OF granted(2)] show ?case by (rule auth_inv_goto)
next
  case (store s i token)
  have "phase_ok s (calls s i)" using store(2) by (simp add: auth_inv_def)
  with store have "approved_before s token (clock s)" by simp
  with auth_inv_store [OF store(2)] show ?case by (simp add: auth_inv_goto approved_before_def)
qed (simp_all add: auth_inv_tick auth_inv_goto)

lemma auth_inv_reachable: "auth_reachable s \<Longrightarrow> auth_inv s"
  by (induction rule: auth_reachable.induct) (blast intro: auth_inv_init auth_inv_step)+


text \<open>A run in which a call is approved and its entry is stored.\<close>

lemma ex_run:
  "\<exists>s. auth_reachable s \<and> calls s 0 = Returned ''t'' (Inr 200) \<and> clock s = 5 \<and> approved s = [(''t'', 5)] \<and>
    mget (allowed s) ''t'' = Some (5 + cacheTTL)"
proof -
  have "auth_reachable (goto 0 (Reviewing ''t'') (auth_init 5))"
    by (rule auth_reachable.step [OF auth_reachable.start auth_step.miss]) (simp_all add: auth_init_def cached_def)
  then obtain s1 where s1: "auth_reachable s1" "calls s1 0 = Reviewing ''t''" "clock s1 = 5" "allowed s1 = []" "approved s1 = []"
    by (rule that) (simp_all add: auth_init_def)
  obtain s2 where s2: "auth_reachable s2" "calls s2 0 = Authorizing ''t'' \<lparr>Username = [], Groups = [], UID = []\<rparr>"
      "clock s2 = 5" "allowed s2 = []" "approved s2 = []"
    by (rule that [OF auth_reachable.step [OF s1(1) auth_step.authenticated [OF s1(2)]]]) (simp_all add: s1)
  obtain s3 where s3: "auth_reachable s3" "calls s3 0 = Storing ''t''" "clock s3 = 5" "allowed s3 = []" "approved s3 = [(''t'', 5)]"
    by (rule that [OF auth_reachable.step [OF s2(1) auth_step.granted [OF s2(2)]]]) (simp_all add: s2)
  show ?thesis
    by (rule exI, intro conjI, rule auth_reachable.step [OF s3(1) auth_step.store [OF s3(2)]])
      (simp_all add: s3 remember_def cacheMax_def mget_def)
qed

text \<open>
  C33. Whatever calls run concurrently, the cache never holds more than \<open>cacheMax\<close> tokens,
  and every entry is for a token the API server approved, at least one validity period before
  the entry expires, which is at most one period from now.
\<close>

theorem cache_bounded_and_approved:
  assumes "auth_reachable s"
  shows "length (allowed s) \<le> cacheMax \<and>
    (\<forall>token expiry. mget (allowed s) token = Some expiry \<longrightarrow> expiry \<le> clock s + cacheTTL \<and>
      (\<exists>t. (token, t) \<in> set (approved s) \<and> t + cacheTTL \<le> expiry))"
  using auth_inv_reachable [OF assms] by (fastforce simp: auth_inv_def approved_before_def)

theorem cache_bounded_and_approved_witness:
  "\<exists>s. auth_reachable s \<and> mget (allowed s) ''t'' = Some (5 + cacheTTL) \<and> length (allowed s) \<le> cacheMax \<and>
    (\<exists>t. (''t'', t) \<in> set (approved s) \<and> t \<le> 5)"
proof -
  from ex_run obtain s where s: "auth_reachable s" "mget (allowed s) ''t'' = Some (5 + cacheTTL)" by blast
  with cache_bounded_and_approved [OF s(1)] show ?thesis by (intro exI [of _ s]) force
qed



section \<open>One call\<close>

text \<open>What a call steps through while nothing else happens.\<close>

lemma authorize_steps:
  assumes run: "auth_step\<^sup>*\<^sup>* s s2" and at: "calls s2 i = Authorizing token u" and "clock s2 \<le> now2"
  shows "\<exists>s'. auth_step\<^sup>*\<^sup>* s s' \<and> calls s' i = Returned token (map_sum id (\<lambda>b. if b then 200 else 403) answer) \<and>
    allowed s' = (if answer = Inr True then remember now2 token (allowed s2) else allowed s2) \<and>
    (\<forall>j. j \<noteq> i \<longrightarrow> calls s' j = calls s2 j)"
proof (cases "answer = Inr True")
  case False
  have "auth_step s2 (goto i (Returned token (map_sum id (\<lambda>b. if b then 200 else 403) answer)) s2)"
    using False at by (cases answer) (auto intro: auth_step.denied auth_step.access_fails)
  with run False show ?thesis
    by (intro exI [of _ "goto i (Returned token (map_sum id (\<lambda>b. if b then 200 else 403) answer)) s2"])
      (simp add: rtranclp.rtrancl_into_rtrancl)
next
  case True
  let ?s3 = "goto i (Storing token) (s2\<lparr>approved := (token, clock s2) # approved s2\<rparr>)"
  let ?s4 = "?s3\<lparr>clock := clock ?s3 + (now2 - clock s2)\<rparr>"
  let ?s5 = "goto i (Returned token (Inr 200)) (?s4\<lparr>allowed := remember (clock ?s4) token (allowed ?s4)\<rparr>)"
  have "auth_step s2 ?s3" using at by (rule auth_step.granted)
  moreover have "auth_step ?s3 ?s4" by (rule auth_step.tick)
  moreover have "auth_step ?s4 ?s5" by (rule auth_step.store) simp
  ultimately have "auth_step\<^sup>*\<^sup>* s ?s5" using run by (meson rtranclp.rtrancl_into_rtrancl)
  with True assms(3) show ?thesis by (intro exI [of _ ?s5]) simp
qed

lemma check_steps:
  assumes "calls s i = Idle" "clock s = now1" "now1 \<le> now2"
  shows "\<exists>s'. auth_step\<^sup>*\<^sup>* s s' \<and> calls s' i = Returned token (fst (check cs now1 now2 token (allowed s))) \<and>
    allowed s' = snd (check cs now1 now2 token (allowed s)) \<and> (\<forall>j. j \<noteq> i \<longrightarrow> calls s' j = calls s j)"
proof (cases "cached now1 (allowed s) token")
  case True
  then have "auth_step s (goto i (Returned token (Inr 200)) s)" using assms by (auto intro: auth_step.hit)
  with True show ?thesis by (intro exI [of _ "goto i (Returned token (Inr 200)) s"]) (simp add: check_def)
next
  case False
  let ?s1 = "goto i (Reviewing token) s"
  have s1: "auth_step s ?s1" using False assms by (auto intro: auth_step.miss)
  show ?thesis
  proof (cases "\<exists>u. TokenReviews cs token = Inr (Some u)")
    case True
    then obtain u where u: "TokenReviews cs token = Inr (Some u)" by blast
    have "auth_step\<^sup>*\<^sup>* s (goto i (Authorizing token u) ?s1)"
      using s1 auth_step.authenticated [of ?s1 i token u] by (simp add: rtranclp.rtrancl_into_rtrancl)
    from authorize_steps [OF this, of i token u now2 "SubjectAccessReviews cs (metrics_review u)"] assms False u
    show ?thesis by (cases "SubjectAccessReviews cs (metrics_review u)") (auto simp: check_def split: bool.splits)
  next
    case no_user: False
    define r :: "nat result" where "r = (case TokenReviews cs token of Inl e \<Rightarrow> Inl e | Inr _ \<Rightarrow> Inr 401)"
    have "auth_step ?s1 (goto i (Returned token r) ?s1)"
      by (cases "TokenReviews cs token") (auto simp: r_def intro: auth_step.review_fails auth_step.not_authenticated)
    with s1 have "auth_step\<^sup>*\<^sup>* s (goto i (Returned token r) ?s1)" by (simp add: rtranclp.rtrancl_into_rtrancl)
    with False no_user show ?thesis
      by (intro exI [of _ "goto i (Returned token r) ?s1"]) (auto simp: check_def r_def split: sum.splits option.splits)
  qed
qed



text \<open>
  The middleware lets a request through exactly when its path needs no authentication or
  its bearer token is cached and not expired, or is approved by both reviews; every other
  request is answered with 401, 403 or 500, whatever the wrapped handler does.
\<close>

lemma Middleware_guards:
  "fst (Middleware next_handler cs skip now1 now2 r cache) =
    (if Path r \<in> set skip then next_handler r
     else case CutPrefix (Authorization r) ''Bearer '' of (token, ok) \<Rightarrow>
       if \<not> ok \<or> token = [] then http_error ''unauthorized'' 401
       else if cached now1 cache token then next_handler r
       else case TokenReviews cs token of
           Inl e \<Rightarrow> http_error ''authentication check failed'' 500
         | Inr None \<Rightarrow> http_error ''Unauthorized'' 401
         | Inr (Some u) \<Rightarrow>
             (case SubjectAccessReviews cs (metrics_review u) of
                Inl e \<Rightarrow> http_error ''authentication check failed'' 500
              | Inr b \<Rightarrow> if b then next_handler r else http_error ''Forbidden'' 403))"
  by (auto simp: Middleware_def check_def StatusText_def split: prod.splits sum.splits option.splits bool.splits)

section \<open>Readiness\<close>

definition set_all :: "(string \<times> bool) list \<Rightarrow> Health \<Rightarrow> Health" where
  "set_all us h = fold (\<lambda>(c, ok). SetReady c ok) us h"

lemma is_ready_SetReady: "is_ready (SetReady c ok h) d = (if d = c then ok else is_ready h d)"
  by (simp add: is_ready_def SetReady_def mget_mput)

lemma is_ready_set_all: "is_ready (set_all us h) c = (case map_of (rev us) c of None \<Rightarrow> is_ready h c | Some ok \<Rightarrow> ok)"
  unfolding set_all_def
  by (induction us arbitrary: h) (auto simp: is_ready_SetReady map_add_def split: option.splits)

text \<open>
  The readiness probe succeeds exactly when the last report of the bootstrap and the last
  report of the gateway were both positive; a component that never reported is not ready.
\<close>

theorem readyz_last_reports:
  "Mux metrics (set_all us New) \<lparr>Method = m, Path = ''/readyz'', Authorization = a, Body = b\<rparr> =
    (if map_of (rev us) ComponentBootstrap = Some True \<and> map_of (rev us) ComponentGateway = Some True
     then Response 200 [] else Response 503 [])"
proof -
  have "is_ready (set_all us New) c \<longleftrightarrow> map_of (rev us) c = Some True" for c
    by (auto simp: is_ready_set_all split: option.split) (auto simp: is_ready_def New_def)
  then show ?thesis by (simp add: Mux_def readyz_def)
qed

end
