(* ===== verification/Agent.thy ===== *)
theory Agent
  imports Agent_Config Bootstrap Kube Policy_Text Metricsauth
begin

text \<open>
  The node agent (\<open>cmd/agent\<close>): how it determines the node's prefixes, assembles the policy
  input, renders the policy files, starts up and reacts to its events. The start-up is one
  function; afterwards the goroutines that share state with the policy loop (the bootstrap
  refresh, the policy loop itself, the gateway) are the events of a step function.

  The lemmas show that the routing policy on disk always excludes the configured forbidden
  CIDRs, which prefixes are advertised, that waiting for the TLS files ends exactly when it
  can, and where the code falls short of its comments.
\<close>

section \<open>Node prefixes\<close>

text \<open>What the agent sees of the cluster when it asks.\<close>

record 'o cluster =
  InClusterConfig :: "goerror option"
  NewForConfig :: "goerror option"
  GetNode :: "string \<Rightarrow> Node result"
  NewDynamic :: "goerror option"
  BlockAffinities :: "'o list result"
  CiliumNodes :: "'o list result"

definition split :: "string \<Rightarrow> string list" where
  "split s = filter (\<lambda>p. p \<noteq> []) (map TrimSpace (Split s CHR '',''))"

definition with_cidrs :: "NodeInfo \<Rightarrow> string list \<Rightarrow> NodeInfo" where
  "with_cidrs info cs = (if cs \<noteq> [] then info\<lparr>PodCIDRs := cs\<rparr> else info)"

definition nodeInfo :: "'o accessors \<Rightarrow> 'o cluster \<Rightarrow> environ \<Rightarrow> Config \<Rightarrow> (NodeInfo \<times> bool) result" where
  "nodeInfo acc cl env cfg =
     (if env ''SCION_LOCAL_PREFIXES'' \<noteq> []
      then (case ParseIP (env ''SCION_NODE_IP'') of
          None \<Rightarrow> Inl (Err (''SCION_NODE_IP required and must be a valid IP when SCION_LOCAL_PREFIXES is set, got '' @
            env ''SCION_NODE_IP''))
        | Some _ \<Rightarrow> Inr (\<lparr>PodCIDRs = split (env ''SCION_LOCAL_PREFIXES''), InternalIP = env ''SCION_NODE_IP''\<rparr>, False))
      else (case InClusterConfig cl of
          Some e \<Rightarrow> Inl (Wrap ''in-cluster config'' e)
        | None \<Rightarrow>
      (case NewForConfig cl of
          Some e \<Rightarrow> Inl e
        | None \<Rightarrow>
      (case GetNodeInfo (GetNode cl) (NodeName cfg) of
          Inl e \<Rightarrow> Inl e
        | Inr info \<Rightarrow>
      (case NewDynamic cl of
          Some e \<Rightarrow> Inl e
        | None \<Rightarrow>
      (case CalicoPodCIDRs acc (BlockAffinities cl) (NodeName cfg) of
          Inr cs \<Rightarrow> Inr (with_cidrs info cs, True)
        | Inl e \<Rightarrow>
            (if \<not> api_is RNotFound e then Inl e
             else (case CiliumPodCIDRs acc (CiliumNodes cl) (NodeName cfg) of
                Inr cs \<Rightarrow> Inr (with_cidrs info cs, True)
              | Inl e \<Rightarrow> (if \<not> api_is RNotFound e then Inl e else Inr (info, False))))))))))"

section \<open>Policies\<close>

definition advertisedNets :: "NodeInfo \<Rightarrow> Config \<Rightarrow> string list" where
  "advertisedNets info cfg =
     (if AdvertisePodCIDR cfg
      then filter (\<lambda>cidr. case ParsePrefix cidr of Inl e \<Rightarrow> False | Inr p \<Rightarrow> Is4 (Addr p)) (PodCIDRs info) else []) @
     (if AdvertiseNodeIP cfg
      then (case ParseIP (InternalIP info) of
          None \<Rightarrow> []
        | Some ip \<Rightarrow> (if To4 ip \<noteq> None then [InternalIP info @ ''/32''] else []))
      else [])"

definition checkAdvertisable :: "Config \<Rightarrow> NodeInfo \<Rightarrow> string list \<Rightarrow> goerror option" where
  "checkAdvertisable cfg info nets =
     (if AdvertisePodCIDR cfg \<and> nets = []
      then Some (Err (''pod CIDR advertisement is enabled but no IPv4 pod CIDR was discovered (node '' @ NodeName cfg @
        '': podCIDRs=['' @ Join (PodCIDRs info) '' '' @
        '']); the CNI must use node-CIDR-allocator IPAM, or set SCION_LOCAL_PREFIXES, or disable spec.advertisement.podCIDR''))
      else None)"

definition localIA :: "fsenv \<Rightarrow> string \<Rightarrow> io \<Rightarrow> string result" where
  "localIA env confDir s =
     (case ReadFile env (path_join [confDir, ''topology.json'']) s of
        Inl e \<Rightarrow> Inl e
      | Inr data \<Rightarrow>
          (case Unmarshal (dec_str_field ''isd_as'') data of
             Inl e \<Rightarrow> Inl (Wrap ''parsing topology.json'' e)
           | Inr ia \<Rightarrow> (if ia = [] then Inl (Err ''topology.json has no isd_as field'') else Inr ia)))"

definition policy_of :: "string \<Rightarrow> NodeInfo \<Rightarrow> Config \<Rightarrow> Input" where
  "policy_of ia info cfg =
     \<lparr>LocalIA = ia,
      AdvertisedNets = advertisedNets info cfg,
      AcceptISDASes = split (CfgAcceptISDASes cfg),
      ForbiddenCIDRs = split (CfgForbiddenCIDRs cfg)\<rparr>"

definition policyInput :: "fsenv \<Rightarrow> string \<Rightarrow> NodeInfo \<Rightarrow> Config \<Rightarrow> io \<Rightarrow> Input result" where
  "policyInput env confDir info cfg s =
     (case localIA env confDir s of Inl e \<Rightarrow> Inl e | Inr ia \<Rightarrow> Inr (policy_of ia info cfg))"

definition renderPolicies :: "fsenv \<Rightarrow> Input \<Rightarrow> string \<Rightarrow> string \<Rightarrow> io \<Rightarrow> outcome" where
  "renderPolicies env inp trafficFile routingFile s =
     (case RenderTrafficPolicy inp of
        Inl e \<Rightarrow> (Some e, s)
      | Inr traffic \<Rightarrow>
          (case RenderRoutingPolicy inp of
             Inl e \<Rightarrow> (Some e, s)
           | Inr routing \<Rightarrow>
               and_then (WriteFile env trafficFile traffic mode644 s) (WriteFile env routingFile routing mode644)))"

section \<open>Start-up\<close>

definition confDir :: "Config \<Rightarrow> string" where
  "confDir cfg = path_join [StateDir cfg, ''etc'']"

definition trafficPolicyFile :: "Config \<Rightarrow> string" where
  "trafficPolicyFile cfg = path_join [StateDir cfg, ''gateway-traffic.json'']"

definition routingPolicyFile :: "Config \<Rightarrow> string" where
  "routingPolicyFile cfg = path_join [StateDir cfg, ''gateway-routing.policy'']"

record agent =
  Cfg :: Config
  Disco :: Discoverer
  Info :: NodeInfo
  Dynamic :: bool
  NodeIP :: addr
  Refresh :: refresh
  Reload :: bool
  Ready :: Health

text \<open>What the start-up finds outside the agent.\<close>

record 'o outside =
  Environ :: environ
  Cluster :: "'o cluster"
  FsCalls :: fsenv
  FirstRound :: round

definition startup ::
  "(nat \<Rightarrow> nat \<Rightarrow> nat \<Rightarrow> nat) \<Rightarrow> 'o accessors \<Rightarrow> 'o outside \<Rightarrow> io \<Rightarrow> agent result \<times> io" where
  "startup frac acc o0 s =
     (case FromEnv frac (Environ o0) of
        Inl e \<Rightarrow> (Inl (Wrap ''config'' e), s)
      | Inr cfg \<Rightarrow>
     (case nodeInfo acc (Cluster o0) (Environ o0) cfg of
        Inl e \<Rightarrow> (Inl (Wrap ''node identity'' e), s)
      | Inr (info, dynamicIPAM) \<Rightarrow>
     (case ParseIP (InternalIP info) of
        None \<Rightarrow> (Inl (Err (''invalid node IP '' @ InternalIP info)), s)
      | Some nodeIP \<Rightarrow>
     (case MkdirAll (FsCalls o0) (confDir cfg) s of
        Some e \<Rightarrow> (Inl e, s)
      | None \<Rightarrow>
     (case NewDiscoverer (BootstrapMode cfg) (DiscoveryURL cfg) (DNSDomain cfg) (DHCPInterface cfg) of
        Inl e \<Rightarrow> (Inl (Wrap ''bootstrap discoverer'' e), s)
      | Inr disc \<Rightarrow>
     (case Fetch (Sources (FirstRound o0)) (Attempts (FirstRound o0)) disc (confDir cfg) s of
        (Some e, s1) \<Rightarrow> (Inl (Wrap ''initial bootstrap fetch'' e), s1)
      | (None, s1) \<Rightarrow>
     (let h = SetReady ComponentBootstrap True New
      in case policyInput (FsCalls o0) (confDir cfg) info cfg s1 of
        Inl e \<Rightarrow> (Inl e, s1)
      | Inr inp \<Rightarrow>
     (if checkAdvertisable cfg info (AdvertisedNets inp) \<noteq> None \<and> \<not> dynamicIPAM
      then (Inl (the (checkAdvertisable cfg info (AdvertisedNets inp))), s1)
      else
     (case renderPolicies (FsCalls o0) inp (trafficPolicyFile cfg) (routingPolicyFile cfg) s1 of
        (Some e, s2) \<Rightarrow> (Inl (Wrap ''initial policy render'' e), s2)
      | (None, s2) \<Rightarrow>
          (Inr \<lparr>Cfg = cfg, Disco = disc, Info = info, Dynamic = dynamicIPAM, NodeIP = nodeIP,
             Refresh = \<lparr>Files = s2, TopoChanged = False\<rparr>, Reload = False, Ready = h\<rparr>, s2))))))))))"

section \<open>Events\<close>

definition rerender :: "fsenv \<Rightarrow> agent \<Rightarrow> agent" where
  "rerender env a =
     (let s = Files (Refresh a)
      in case policyInput env (confDir (Cfg a)) (Info a) (Cfg a) s of
        Inl e \<Rightarrow> a
      | Inr inp \<Rightarrow>
          (case renderPolicies env inp (trafficPolicyFile (Cfg a)) (routingPolicyFile (Cfg a)) s of
             (Some e, s') \<Rightarrow> a\<lparr>Refresh := (Refresh a)\<lparr>Files := s'\<rparr>\<rparr>
           | (None, s') \<Rightarrow> a\<lparr>Refresh := (Refresh a)\<lparr>Files := s'\<rparr>, Reload := True\<rparr>))"

definition advert_tick :: "'o accessors \<Rightarrow> environ \<Rightarrow> fsenv \<Rightarrow> 'o cluster \<Rightarrow> agent \<Rightarrow> agent" where
  "advert_tick acc ev env cl a =
     (case nodeInfo acc cl ev (Cfg a) of
        Inl e \<Rightarrow> a
      | Inr (current, _) \<Rightarrow>
          (if PodCIDRs current = PodCIDRs (Info a) then a
           else rerender env (a\<lparr>Info := current\<rparr>)))"

text \<open>
  The policy loop reacts to a pending topology change and, with dynamic IPAM, to the ticker; the
  bootstrap loop fetches; the gateway takes the reload trigger, comes up and goes down.
\<close>

datatype 'o agent_event =
    Refetch round
  | TopologyTaken fsenv
  | AdvertTick fsenv "'o cluster"
  | ReloadTaken
  | GatewayUp
  | GatewayDown

fun agent_step :: "'o accessors \<Rightarrow> environ \<Rightarrow> 'o agent_event \<Rightarrow> agent \<Rightarrow> agent" where
  "agent_step acc ev (Refetch r) a = a\<lparr>Refresh := refetch (Disco a) (confDir (Cfg a)) r (Refresh a)\<rparr>"
| "agent_step acc ev (TopologyTaken env) a =
     (if TopoChanged (Refresh a) then rerender env (a\<lparr>Refresh := (Refresh a)\<lparr>TopoChanged := False\<rparr>\<rparr>) else a)"
| "agent_step acc ev (AdvertTick env cl) a = (if Dynamic a then advert_tick acc ev env cl a else a)"
| "agent_step acc ev ReloadTaken a = a\<lparr>Reload := False\<rparr>"
| "agent_step acc ev GatewayUp a = a\<lparr>Ready := SetReady ComponentGateway True (Ready a)\<rparr>"
| "agent_step acc ev GatewayDown a = a\<lparr>Ready := SetReady ComponentGateway False (Ready a)\<rparr>"

section \<open>Metrics endpoint\<close>

text \<open>
  The handler the metrics server runs: with TLS configured, behind the authentication
  middleware; the probes bypass it.
\<close>

definition metrics_handler ::
  "Config \<Rightarrow> (Request \<Rightarrow> Response) \<Rightarrow> Health \<Rightarrow> kube_auth \<Rightarrow> nat \<Rightarrow> nat \<Rightarrow> Request \<Rightarrow> auth_cache \<Rightarrow> Response \<times> auth_cache" where
  "metrics_handler cfg prom h cs now1 now2 r cache =
     (if MetricsTLSCert cfg \<noteq> []
      then Middleware (Mux prom h) cs [''/healthz'', ''/readyz''] now1 now2 r cache
      else (Mux prom h r, cache))"

text \<open>
  Waiting for the TLS files: the poll with number \<open>n\<close> finds which paths exist, and the
  context may be cancelled before the next one. \<open>None\<close> is waiting for ever.
\<close>

record poll =
  Exists :: "string \<Rightarrow> bool"
  Cancelled :: bool

partial_function (option) waitForFiles :: "(nat \<Rightarrow> poll) \<Rightarrow> string list \<Rightarrow> nat \<Rightarrow> goerror option option" where
  "waitForFiles polls paths n =
     (if list_all (Exists (polls n)) paths then Some None
      else if Cancelled (polls n) then Some (Some ErrCanceled)
      else waitForFiles polls paths (Suc n))"

text \<open>The end of \<open>run\<close>: the first error of the goroutines, a cancellation being a clean exit.\<close>

definition wait_group :: "goerror option list \<Rightarrow> goerror option" where
  "wait_group rs =
     (case List.map_filter id rs of
        [] \<Rightarrow> None
      | e # _ \<Rightarrow> (if root_cause e = ErrCanceled then None else Some e))"

text \<open>\<open>closeOnce\<close>: the first call closes the channel, later ones do nothing.\<close>

definition close_chan :: "bool \<Rightarrow> bool result" where
  "close_chan closed = (if closed then Inl (ErrPanic ''close of closed channel'') else Inr True)"

definition closeOnce :: "bool \<times> bool \<Rightarrow> (bool \<times> bool) result" where
  "closeOnce st =
     (case st of (fired, closed) \<Rightarrow>
        if fired then Inr st else (case close_chan closed of Inl e \<Rightarrow> Inl e | Inr c \<Rightarrow> Inr (True, c)))"

section \<open>Rendering the policy files\<close>

lemma renderPolicies_ok:
  assumes "renderPolicies env inp tf rf s = (None, s')" "map_ok (Disk s)" "tf \<noteq> rf"
  shows "map_ok (Disk s')"
    and "\<exists>ft fr. mget (Disk s') tf = Some ft \<and> RenderTrafficPolicy inp = Inr (Content ft) \<and>
      mget (Disk s') rf = Some fr \<and> RenderRoutingPolicy inp = Inr (Content fr)"
    and "q \<noteq> tf \<Longrightarrow> q \<noteq> rf \<Longrightarrow> mget (Disk s') q = mget (Disk s) q"
proof -
  from assms(1) obtain t r where tr: "RenderTrafficPolicy inp = Inr t" "RenderRoutingPolicy inp = Inr r"
    "and_then (WriteFile env tf t mode644 s) (WriteFile env rf r mode644) = (None, s')"
    by (auto simp: renderPolicies_def split: sum.splits)
  let ?w = "WriteFile env tf t mode644 s"
  from tr(3) have w: "fst ?w = None" "WriteFile env rf r mode644 (snd ?w) = (None, s')"
    by (auto simp: and_then_def split: option.splits)
  note w1 = WriteFile_effect [OF assms(2), where env = env and p = tf and data = t and m = mode644]
  note w2 = WriteFile_effect [OF w1(1), where env = env and p = rf and data = r and m = mode644, unfolded w(2), simplified]
  show "map_ok (Disk s')" by (rule w2(1))
  show "q \<noteq> tf \<Longrightarrow> q \<noteq> rf \<Longrightarrow> mget (Disk s') q = mget (Disk s) q" using w1(2) w2(2) by simp
  show "\<exists>ft fr. mget (Disk s') tf = Some ft \<and> RenderTrafficPolicy inp = Inr (Content ft) \<and>
      mget (Disk s') rf = Some fr \<and> RenderRoutingPolicy inp = Inr (Content fr)"
    using w1(3) [OF w(1)] w2(2) [of tf] w2(3) assms(3) tr by auto
qed

text \<open>File operations on the policy files that succeed.\<close>

definition write_ok :: "Config \<Rightarrow> fsenv \<Rightarrow> bool" where
  "write_ok cfg env \<longleftrightarrow>
     (\<forall>op \<in> {OpCreate, OpWrite, OpClose}.
       Fault env op (trafficPolicyFile cfg) = None \<and> Fault env op (routingPolicyFile cfg) = None)"

lemma WriteFile_succeeds: "Fault env OpCreate p = None \<Longrightarrow> Fault env OpWrite p = None \<Longrightarrow> Fault env OpClose p = None \<Longrightarrow>
    fst (WriteFile env p data m s) = None"
  by (simp add: WriteFile_def guarded_def Write_def Close_def and_then_def Let_def)

lemma renderPolicies_failed:
  assumes "renderPolicies env inp (trafficPolicyFile cfg) (routingPolicyFile cfg) s = (Some e, s')" "write_ok cfg env"
  shows "s' = s"
  using assms WriteFile_succeeds [of env "trafficPolicyFile cfg"] WriteFile_succeeds [of env "routingPolicyFile cfg"]
  by (auto simp: renderPolicies_def write_ok_def and_then_def split: sum.splits option.splits)
    (metis fst_conv option.distinct(1))+

text \<open>The two policy files on disk are the renderings of one input for this configuration.\<close>

definition policy_on_disk :: "Config \<Rightarrow> io \<Rightarrow> bool" where
  "policy_on_disk cfg s \<longleftrightarrow> map_ok (Disk s) \<and>
     (\<exists>ia info ft fr. mget (Disk s) (trafficPolicyFile cfg) = Some ft \<and>
        RenderTrafficPolicy (policy_of ia info cfg) = Inr (Content ft) \<and>
        mget (Disk s) (routingPolicyFile cfg) = Some fr \<and>
        RenderRoutingPolicy (policy_of ia info cfg) = Inr (Content fr))"

lemma state_names: "name_ok ''etc''" "name_ok ''gateway-traffic.json''" "name_ok ''gateway-routing.policy''"
  by (simp_all add: name_ok_def)

lemma state_paths:
  assumes "HasPrefix (StateDir cfg) ''/''"
  shows "trafficPolicyFile cfg = abs_path (dir_steps (StateDir cfg) @ [''gateway-traffic.json''])"
    and "routingPolicyFile cfg = abs_path (dir_steps (StateDir cfg) @ [''gateway-routing.policy''])"
    and "confDir cfg = abs_path (dir_steps (StateDir cfg) @ [''etc''])"
  using path_join_names [OF assms] state_names
  by (simp_all add: trafficPolicyFile_def routingPolicyFile_def confDir_def)

lemma confDir_abs: "HasPrefix (StateDir cfg) ''/'' \<Longrightarrow> HasPrefix (confDir cfg) ''/''"
  by (simp add: state_paths abs_path_def HasPrefix_def)

lemma policy_files_differ:
  assumes "HasPrefix (StateDir cfg) ''/''"
  shows "trafficPolicyFile cfg \<noteq> routingPolicyFile cfg"
  using abs_path_last [of "dir_steps (StateDir cfg)" "''gateway-traffic.json''" "dir_steps (StateDir cfg)" "''gateway-routing.policy''"]
  by (simp add: state_paths [OF assms])

text \<open>The bootstrap never touches the policy files.\<close>

definition gateway_name :: "string \<Rightarrow> bool" where
  "gateway_name n = (n = ''gateway-traffic.json'' \<or> n = ''gateway-routing.policy'')"

lemma gateway_name_neq:
  assumes "gateway_name n"
  shows "n \<noteq> trc_name i" "n \<noteq> tmp_of env (trc_name i)" "n \<noteq> tmp_of env ''topology.json''" "n \<noteq> ''topology.json''"
    "CHR ''/'' \<notin> set n"
proof -
  have hd: "hd n = CHR ''g''" using assms by (auto simp: gateway_name_def)
  then show "n \<noteq> trc_name i" using trc_name_ends(1) [of i] by auto
  show "n \<noteq> tmp_of env (trc_name i)"
    using hd trc_name_ends(1) [of i] by (cases "trc_name i") (auto simp: tmp_of_def)
  show "n \<noteq> tmp_of env ''topology.json''" "n \<noteq> ''topology.json''" using hd by (auto simp: tmp_of_def)
  show "CHR ''/'' \<notin> set n" using assms by (auto simp: gateway_name_def)
qed

lemma gateway_file_kept:
  assumes dir: "HasPrefix dir ''/''" and n: "gateway_name n" and p: "p = abs_path (dir_steps sd @ [n])" and a: "attempt_ok a"
  shows "p \<notin> cache_temps (FsEnv a) dir" "(p, x) \<notin> serves dir a"
proof -
  note neq = gateway_name_neq [OF n] and rnd = attempt_okD(1) [OF a]
  have other: "abs_path (dir_steps sd @ [n]) \<noteq> abs_path (ys @ [b])" if "noslash ys" "CHR ''/'' \<notin> set b" "n \<noteq> b" for ys b
    using that neq(5) by (intro abs_path_last) simp_all
  have "p \<noteq> abs_path (dir_steps dir @ [tmp_of (FsEnv a) ''topology.json''])"
    unfolding p using neq by (intro other noslash_tmp_of [OF rnd]) simp_all
  moreover have "p \<noteq> abs_path ((dir_steps dir @ [''certs'']) @ [tmp_of (FsEnv a) (trc_name i)])" for i
    unfolding p using neq trc_name_chars by (intro other noslash_tmp_of [OF rnd]) simp_all
  ultimately show "p \<notin> cache_temps (FsEnv a) dir" by (auto simp: cache_temps_abs [OF dir])
  have "p \<noteq> abs_path (dir_steps dir @ [''topology.json''])" unfolding p using neq by (intro other) simp_all
  moreover have "p \<noteq> abs_path ((dir_steps dir @ [''certs'']) @ [trc_name i])" for i
    unfolding p using neq trc_name_chars by (intro other) simp_all
  ultimately show "(p, x) \<notin> serves dir a"
    using served_names(2) [OF download_ok(1)]
    by (fastforce simp: serves_def served_files_def cache_paths [OF dir])
qed

lemma refetch_policy_on_disk:
  assumes sd: "HasPrefix (StateDir cfg) ''/''" and ok: "\<And>k. attempt_ok (Attempts r k)"
    and st: "policy_on_disk cfg (Files st)"
  shows "policy_on_disk cfg (Files (refetch d (confDir cfg) r st))"
proof -
  let ?T = "- {trafficPolicyFile cfg, routingPolicyFile cfg}" and ?s = "Files (refetch d (confDir cfg) r st)"
  note dir = confDir_abs [OF sd]
  note kept = gateway_file_kept [OF dir _ state_paths(1) [OF sd] ok] gateway_file_kept [OF dir _ state_paths(2) [OF sd] ok]
  have "serving (confDir cfg) ?T (?T \<times> UNIV) (Attempts r k)" for k
    using kept dir ok by (auto simp: serving_def gateway_name_def)
  from srv.refetch_law [OF srv.evolves_refl this, of st]
  have "evolves (cached_from ?T (?T \<times> UNIV)) (Files st) ?s"
    using st by (simp add: policy_on_disk_def)
  then have "map_ok (Disk ?s)" "\<And>q. q \<notin> ?T \<Longrightarrow> mget (Disk ?s) q = mget (Disk (Files st)) q"
    by (auto simp: evolves_def cached_from_def)
  with st show ?thesis by (simp add: policy_on_disk_def)
qed

lemma rerender_policy_on_disk:
  assumes sd: "HasPrefix (StateDir (Cfg a)) ''/''" and env: "write_ok (Cfg a) env"
    and a: "policy_on_disk (Cfg a) (Files (Refresh a))"
  shows "policy_on_disk (Cfg a) (Files (Refresh (rerender env a)))"
proof (cases "policyInput env (confDir (Cfg a)) (Info a) (Cfg a) (Files (Refresh a))")
  case (Inr inp)
  then obtain ia where inp: "inp = policy_of ia (Info a) (Cfg a)"
    by (auto simp: policyInput_def split: sum.splits)
  let ?r = "renderPolicies env inp (trafficPolicyFile (Cfg a)) (routingPolicyFile (Cfg a)) (Files (Refresh a))"
  show ?thesis
  proof (cases "fst ?r")
    case None
    then obtain s' where r: "?r = (None, s')" by (cases ?r) auto
    have "map_ok (Disk (Files (Refresh a)))" using a by (simp add: policy_on_disk_def)
    from renderPolicies_ok(1,2) [OF r this policy_files_differ [OF sd]] have "policy_on_disk (Cfg a) s'"
      by (auto simp: policy_on_disk_def inp)
    then show ?thesis by (simp add: rerender_def Inr r)
  next
    case (Some e)
    then obtain s' where r: "?r = (Some e, s')" by (cases ?r) auto
    from renderPolicies_failed [OF r env] a show ?thesis by (simp add: rerender_def Inr r)
  qed
qed (use a in \<open>simp add: rerender_def\<close>)

lemma Cfg_rerender [simp]: "Cfg (rerender env a) = Cfg a"
  by (auto simp: rerender_def Let_def split: sum.split prod.split option.split)

lemma Cfg_agent_step [simp]: "Cfg (agent_step acc ev e a) = Cfg a"
  by (cases e) (auto simp: advert_tick_def split: sum.split)

text \<open>
  What the events are assumed to satisfy: the policy files can be written, and attempts
  are as in the bootstrap.
\<close>

fun agent_event_ok :: "Config \<Rightarrow> 'o agent_event \<Rightarrow> bool" where
  "agent_event_ok cfg (Refetch r) = (\<forall>k. attempt_ok (Attempts r k))"
| "agent_event_ok cfg (TopologyTaken env) = write_ok cfg env"
| "agent_event_ok cfg (AdvertTick env cl) = write_ok cfg env"
| "agent_event_ok cfg e = True"

definition agent_inv :: "Config \<Rightarrow> agent \<Rightarrow> bool" where
  "agent_inv cfg a \<longleftrightarrow> Cfg a = cfg \<and> policy_on_disk cfg (Files (Refresh a))"

lemma agent_step_inv:
  assumes "HasPrefix (StateDir cfg) ''/''" "agent_inv cfg a" "agent_event_ok cfg e"
  shows "agent_inv cfg (agent_step acc ev e a)"
proof -
  have a: "Cfg a = cfg" "policy_on_disk cfg (Files (Refresh a))" using assms(2) by (auto simp: agent_inv_def)
  show ?thesis
  proof (cases e)
    case (Refetch r)
    with refetch_policy_on_disk [OF assms(1) _ a(2)] assms(3) a(1) show ?thesis by (simp add: agent_inv_def)
  next
    case (TopologyTaken env)
    with rerender_policy_on_disk [of "a\<lparr>Refresh := (Refresh a)\<lparr>TopoChanged := False\<rparr>\<rparr>" env] assms(1,3) a
    show ?thesis by (simp add: agent_inv_def)
  next
    case (AdvertTick env cl)
    have "policy_on_disk cfg (Files (Refresh (rerender env (a\<lparr>Info := i\<rparr>))))" for i
      using rerender_policy_on_disk [of "a\<lparr>Info := i\<rparr>" env] assms(1,3) a AdvertTick by simp
    then show ?thesis using a AdvertTick by (auto simp: agent_inv_def advert_tick_def split: sum.split)
  qed (use a in \<open>simp_all add: agent_inv_def\<close>)
qed

lemma startup_inv:
  assumes "startup frac acc o0 s = (Inr a, s')" "map_ok (Disk s)" "HasPrefix (StateDir (Cfg a)) ''/''"
    and "\<And>k. attempt_ok (Attempts (FirstRound o0) k)"
  shows "agent_inv (Cfg a) a"
proof -
  let ?cfg = "Cfg a"
  from assms(1) obtain disc s1 inp ia where
    f: "Fetch (Sources (FirstRound o0)) (Attempts (FirstRound o0)) disc (confDir ?cfg) s = (None, s1)" and
    inp: "inp = policy_of ia (Info a) ?cfg" and
    r: "renderPolicies (FsCalls o0) inp (trafficPolicyFile ?cfg) (routingPolicyFile ?cfg) s1 = (None, s')" and
    a: "Files (Refresh a) = s'"
    by (auto simp: startup_def policyInput_def Let_def split: sum.splits option.splits prod.splits if_splits)
  have "serving (confDir ?cfg) UNIV UNIV (Attempts (FirstRound o0) k)" for k
    using assms(3,4) by (simp add: serving_def confDir_abs)
  then have "map_ok (Disk (snd (Fetch (Sources (FirstRound o0)) (Attempts (FirstRound o0)) disc (confDir ?cfg) s)))"
    by (rule srv.evolves_ok [OF srv.Fetch_law [OF _ assms(2)]])
  then have "map_ok (Disk s1)" by (simp add: f)
  from renderPolicies_ok(1,2) [OF r this policy_files_differ [OF assms(3)]] show ?thesis
    by (auto simp: agent_inv_def policy_on_disk_def a inp)
qed

interpretation ag: event_machine a "agent_step acc ev" "agent_event_ok (Cfg a)"
  "\<lambda>b. HasPrefix (StateDir (Cfg a)) ''/'' \<longrightarrow> agent_inv (Cfg a) a \<longrightarrow> agent_inv (Cfg a) b" for a acc ev
  by unfold_locales (auto simp: agent_step_inv)

section \<open>A concrete agent\<close>

definition ex_agent_env :: environ where
  "ex_agent_env k =
     (if k = ''SCION_LOCAL_PREFIXES'' then ''10.128.0.0/23''
      else if k = ''SCION_NODE_IP'' then ''192.0.2.7''
      else if k = ''SCION_ACCEPT_ISD_ASES'' then ''1-ff00:0:111, 1-ff00:0:112''
      else if k = ''SCION_FORBIDDEN_CIDRS'' then ''128.0.0.0/1''
      else ex_environ k)"

definition ex_node :: Node where
  "ex_node = \<lparr>SpecPodCIDRs = [''10.128.0.0/23''], SpecPodCIDR = [], Annotations = [], Addresses = [(''InternalIP'', ''192.0.2.7'')]\<rparr>"

definition ex_cluster :: "unit cluster" where
  "ex_cluster = \<lparr>InClusterConfig = None, NewForConfig = None, GetNode = (\<lambda>_. Inr ex_node), NewDynamic = None,
     BlockAffinities = Inr [], CiliumNodes = Inr []\<rparr>"

definition ex_accessors :: "unit accessors" where
  "ex_accessors = \<lparr>NestedString = (\<lambda>_ _. []), NestedStringSlice = (\<lambda>_ _. []), GetName = (\<lambda>_. [])\<rparr>"

definition ex_outside :: "unit outside" where
  "ex_outside = \<lparr>Environ = ex_agent_env, Cluster = ex_cluster, FsCalls = ex_fs, FirstRound = ex_round ''good''\<rparr>"

definition ex_cfg :: Config where
  "ex_cfg = (env_config ex_agent_env)\<lparr>RefreshInterval := 5400 * 10 ^ 9\<rparr>"

definition ex_info :: NodeInfo where
  "ex_info = \<lparr>PodCIDRs = [''10.128.0.0/23''], InternalIP = ''192.0.2.7''\<rparr>"

definition ex_fetched :: io where
  "ex_fetched = snd (Fetch (Sources (ex_round ''good'')) (Attempts (ex_round ''good'')) (URLDiscoverer ''http://192.0.2.1:8041'') ex_dir (Files ex_refresh))"

lemma ex_steps:
  "FromEnv (\<lambda>_ _ _. 0) ex_agent_env = Inr ex_cfg"
  "nodeInfo ex_accessors ex_cluster ex_agent_env ex_cfg = Inr (ex_info, False)"
  "ParseIP (InternalIP ex_info) \<noteq> None"
  "confDir ex_cfg = ex_dir" "StateDir ex_cfg = ''/var/lib/scion-node-agent''"
  "NewDiscoverer (BootstrapMode ex_cfg) (DiscoveryURL ex_cfg) (DNSDomain ex_cfg) (DHCPInterface ex_cfg) = Inr (URLDiscoverer ''http://192.0.2.1:8041'')"
  "advertisedNets ex_info ex_cfg = [''10.128.0.0/23'']"
  "split (CfgAcceptISDASes ex_cfg) = [''1-ff00:0:111'', ''1-ff00:0:112'']"
  "split (CfgForbiddenCIDRs ex_cfg) = [''128.0.0.0/1'']"
  by code_simp+

lemma ex_fetch:
  "Fetch (Sources (ex_round ''good'')) (Attempts (ex_round ''good'')) (URLDiscoverer ''http://192.0.2.1:8041'') ex_dir (Files ex_refresh) = (None, ex_fetched)"
  "localIA ex_fs ex_dir ex_fetched = Inr ''1-ff00:0:110''"
proof -
  have "fst (Fetch (Sources (ex_round ''good'')) (Attempts (ex_round ''good'')) (URLDiscoverer ''http://192.0.2.1:8041'') ex_dir (Files ex_refresh)) = None"
    by code_simp
  then show "Fetch (Sources (ex_round ''good'')) (Attempts (ex_round ''good'')) (URLDiscoverer ''http://192.0.2.1:8041'') ex_dir (Files ex_refresh) = (None, ex_fetched)"
    unfolding ex_fetched_def by (metis prod.collapse)
  show "localIA ex_fs ex_dir ex_fetched = Inr ''1-ff00:0:110''" by code_simp
qed

lemma prepare_deny_half:
  assumes "LocalIA inp \<noteq> []" "AcceptISDASes inp \<noteq> []" "ForbiddenCIDRs inp = [''128.0.0.0/1'']"
  shows "prepare inp = Inr [''0.0.0.0/1'']"
proof -
  have "ValidateNoOverlap [''0.0.0.0/1''] [''128.0.0.0/1''] = Inr ()" by code_simp
  with assms half_space show ?thesis by (simp add: prepare_def)
qed

lemma ex_fs_write_ok: "write_ok cfg ex_fs"
  by (simp add: write_ok_def ex_fs_def)

lemma ex_no_fault [simp]: "Fault ex_fs op p = None"
  by (simp add: ex_fs_def)

lemma ex_outside_sel [simp]:
  "Environ ex_outside = ex_agent_env" "Cluster ex_outside = ex_cluster" "FsCalls ex_outside = ex_fs"
  "FirstRound ex_outside = ex_round ''good''"
  by (simp_all add: ex_outside_def)

lemma renderPolicies_succeeds:
  assumes "prepare inp = Inr ps" "write_ok cfg env"
  shows "\<exists>s'. renderPolicies env inp (trafficPolicyFile cfg) (routingPolicyFile cfg) s = (None, s')"
proof (cases "renderPolicies env inp (trafficPolicyFile cfg) (routingPolicyFile cfg) s")
  case (Pair e s')
  have "fst (WriteFile env (trafficPolicyFile cfg) t mode644 u) = None" "fst (WriteFile env (routingPolicyFile cfg) t mode644 u) = None" for t u
    using assms(2) by (auto simp: write_ok_def intro: WriteFile_succeeds)
  then have "fst (renderPolicies env inp (trafficPolicyFile cfg) (routingPolicyFile cfg) s) = None"
    by (simp add: renderPolicies_def RenderTrafficPolicy_def RenderRoutingPolicy_def assms(1) and_then_def)
  with Pair show ?thesis by simp
qed

lemma ex_startup: "\<exists>a s. startup (\<lambda>_ _ _. 0) ex_accessors ex_outside (Files ex_refresh) = (Inr a, s) \<and> Cfg a = ex_cfg"
proof -
  let ?inp = "policy_of ''1-ff00:0:110'' ex_info ex_cfg"
  have p: "prepare ?inp = Inr [''0.0.0.0/1'']"
    by (rule prepare_deny_half) (simp_all add: policy_of_def ex_steps)
  obtain s where r: "renderPolicies ex_fs ?inp (trafficPolicyFile ex_cfg) (routingPolicyFile ex_cfg) ex_fetched = (None, s)"
    using renderPolicies_succeeds [OF p ex_fs_write_ok] by blast
  obtain ip where ip: "ParseIP (InternalIP ex_info) = Some ip" using ex_steps(3) by auto
  have "checkAdvertisable ex_cfg ex_info (AdvertisedNets ?inp) = None"
    by (simp add: checkAdvertisable_def policy_of_def ex_steps)
  then show ?thesis
    by (simp add: startup_def ex_steps(1,2,4,6) ip ex_fetch policyInput_def MkdirAll_def r)
qed

section \<open>The policy on disk\<close>

lemma agent_policy_ok:
  assumes "startup frac acc o0 s = (Inr a, s')" "map_ok (Disk s)" "HasPrefix (StateDir (Cfg a)) ''/''"
    and "\<And>k. attempt_ok (Attempts (FirstRound o0) k)" "list_all (agent_event_ok (Cfg a)) es"
    and "b = fold (agent_step acc ev) es a"
    and "\<not> (\<exists>f \<in> set (split (CfgForbiddenCIDRs (Cfg a))). cidr_has f x0)"
  shows "\<exists>ia info f. mget (Disk (Files (Refresh b))) (routingPolicyFile (Cfg a)) = Some f \<and>
    (clean_input (policy_of ia info (Cfg a)) \<longrightarrow>
      (\<exists>ps. policy_rules (Content f) = policy_words (policy_of ia info (Cfg a)) ps \<and>
        (\<forall>x. (\<exists>p \<in> set ps. cidr_has p x) \<longleftrightarrow> \<not> (\<exists>f \<in> set (split (CfgForbiddenCIDRs (Cfg a))). cidr_has f x))))"
proof -
  have "agent_inv (Cfg a) b"
    using ag.ok_reachable [OF assms(5)] startup_inv [OF assms(1-4)] assms(3,6) by blast
  then obtain ia info f where f: "mget (Disk (Files (Refresh b))) (routingPolicyFile (Cfg a)) = Some f"
    "RenderRoutingPolicy (policy_of ia info (Cfg a)) = Inr (Content f)"
    by (auto simp: agent_inv_def policy_on_disk_def)
  have forb: "ForbiddenCIDRs (policy_of ia info (Cfg a)) = split (CfgForbiddenCIDRs (Cfg a))" by (simp add: policy_of_def)
  from routing_rules [OF f(2), unfolded forb, OF _ assms(7)] f(1) show ?thesis by blast
qed


lemma ex_events_ok: "list_all (agent_event_ok ex_cfg) [Refetch (ex_round ''good''), TopologyTaken ex_fs, AdvertTick ex_fs ex_cluster, GatewayUp]"
  using boot_ok(1) by (simp add: ex_fs_write_ok ex_round_def)


section \<open>Advertised prefixes\<close>

lemma v4_cidr_host: "ParseAddr s = Inr (V4 x) \<Longrightarrow> v4_cidr (s @ ''/32'')"
proof -
  assume s: "ParseAddr s = Inr (V4 x)"
  have "parse_bits ''32'' 32 = Inr 32" by code_simp
  with s before_last_slash_append [of "''32''" s] after_last_slash_append [of "''32''" s]
  show "v4_cidr (s @ ''/32'')" by (simp add: v4_cidr_def ParsePrefix_def maxBits_def)
qed

text \<open>
  What a node advertises: with pod prefixes enabled exactly its IPv4 pod prefixes, with the
  node address enabled the address as a host route; and as long as the node's address is written
  as an IPv4 address every advertised prefix is an IPv4 prefix.
\<close>

theorem advertisedNets_ipv4:
  assumes "ParseAddr (InternalIP info) = Inr (V4 x)"
  shows "(\<forall>c. c \<in> set (advertisedNets info cfg) \<longleftrightarrow>
      (AdvertisePodCIDR cfg \<and> c \<in> set (PodCIDRs info) \<and> v4_cidr c) \<or>
      (AdvertiseNodeIP cfg \<and> c = InternalIP info @ ''/32'')) \<and>
    (\<forall>c \<in> set (advertisedNets info cfg). v4_cidr c)"
proof -
  have "ParseIP (InternalIP info) = Some (V4 x)" using assms by (simp add: ParseIP_def)
  moreover have "(\<lambda>c. case ParsePrefix c of Inl e \<Rightarrow> False | Inr p \<Rightarrow> Is4 (Addr p)) = v4_cidr"
    by (simp add: v4_cidr_def fun_eq_iff)
  ultimately have "advertisedNets info cfg =
      (if AdvertisePodCIDR cfg then filter v4_cidr (PodCIDRs info) else []) @
      (if AdvertiseNodeIP cfg then [InternalIP info @ ''/32''] else [])"
    by (simp add: advertisedNets_def)
  then have "c \<in> set (advertisedNets info cfg) \<longleftrightarrow>
      (AdvertisePodCIDR cfg \<and> c \<in> set (PodCIDRs info) \<and> v4_cidr c) \<or>
      (AdvertiseNodeIP cfg \<and> c = InternalIP info @ ''/32'')" for c
    by auto
  with v4_cidr_host [OF assms] show ?thesis by blast
qed

theorem advertisedNets_ipv4_witness:
  "list_all v4_cidr (advertisedNets \<lparr>PodCIDRs = [''10.128.0.0/23'', ''fd01::/64''], InternalIP = ''192.0.2.7''\<rparr> ex_cfg)"
proof -
  have "ParseAddr (InternalIP \<lparr>PodCIDRs = [''10.128.0.0/23'', ''fd01::/64''], InternalIP = ''192.0.2.7''\<rparr>) = Inr (V4 0xC0000207)" by code_simp
  from advertisedNets_ipv4 [OF this] show ?thesis unfolding list_all_iff by blast
qed

text \<open>
  For a node address written as an IPv4-mapped IPv6 address the host route is an IPv6 prefix of
  32 bits, which is no host route at all.
\<close>

lemma mapped_node_ip_advertised:
  "advertisedNets \<lparr>PodCIDRs = [], InternalIP = ''::ffff:192.0.2.7''\<rparr> (ex_cfg\<lparr>AdvertiseNodeIP := True\<rparr>) = [''::ffff:192.0.2.7/32'']"
  "\<not> v4_cidr ''::ffff:192.0.2.7/32'' \<and> is_ok (ParsePrefix ''::ffff:192.0.2.7/32'')"
  by code_simp+

text \<open>
  On a Calico cluster whose node has no block yet the prefix of the Node object is used, which
  Calico ignores.
\<close>

lemma calico_without_block:
  assumes "BlockAffinities cl = Inr []" "env ''SCION_LOCAL_PREFIXES'' = []" "InClusterConfig cl = None"
    "NewForConfig cl = None" "NewDynamic cl = None" "GetNodeInfo (GetNode cl) (NodeName cfg) = Inr info"
  shows "nodeInfo acc cl env cfg = Inr (info, True)"
  using assms by (simp add: nodeInfo_def CalicoPodCIDRs_def with_cidrs_def map_filter_simps)

section \<open>Prefix changes\<close>

text \<open>
  A tick that finds the same cluster as the previous one does nothing, also when rendering
  failed the first time: the new prefixes are then never written.
\<close>

lemma advert_tick_Info:
  assumes "nodeInfo acc cl ev (Cfg a) = Inr (current, dyn)"
  shows "PodCIDRs (Info (advert_tick acc ev env cl a)) = PodCIDRs current"
  using assms by (auto simp: advert_tick_def rerender_def Let_def split: sum.split prod.split option.split)

lemma failed_render_not_retried:
  assumes "nodeInfo acc cl ev (Cfg a) = Inr (current, dyn)" "b = agent_step acc ev (AdvertTick env cl) a" "Dynamic a"
  shows "fold (agent_step acc ev) (map (\<lambda>env. AdvertTick env cl) envs) b = b"
proof -
  have b: "b = advert_tick acc ev env cl a" using assms(2,3) by simp
  have "Cfg b = Cfg a" by (simp add: assms(2) del: agent_step.simps)
  moreover have "PodCIDRs (Info b) = PodCIDRs current" unfolding b by (rule advert_tick_Info [OF assms(1)])
  ultimately have "agent_step acc ev (AdvertTick e cl) b = b" for e
    using assms(1) by (simp add: advert_tick_def)
  then show ?thesis by (induction envs) simp_all
qed

section \<open>Shortcomings of the render path\<close>

text \<open>
  The AS name is taken from the topology as it is. A discovery server can thus write rules of
  its own into the routing policy: the name below, a valid JSON string, adds a rule that accepts
  every address.
\<close>

definition evil_ia :: string where
  "evil_ia = ''1-1 1-2 10.0.0.0/8'' @ newline @ ''accept 1-2 1-1 0.0.0.0/0'' @ newline @ ''advertise 1-1''"

definition evil_input :: Input where
  "evil_input = \<lparr>LocalIA = evil_ia, AdvertisedNets = [''10.128.0.0/23''], AcceptISDASes = [''1-2''], ForbiddenCIDRs = [''128.0.0.0/1'']\<rparr>"

lemma topology_injects_rules:
  "Unmarshal (dec_str_field ''isd_as'') (compact (JObj [(''isd_as'', JStr (escape evil_ia))])) = Inr evil_ia"
  "\<exists>doc. RenderRoutingPolicy evil_input = Inr doc \<and> [''accept'', ''1-2'', ''1-1'', ''0.0.0.0/0''] \<in> set (policy_rules doc)"
proof -
  show "Unmarshal (dec_str_field ''isd_as'') (compact (JObj [(''isd_as'', JStr (escape evil_ia))])) = Inr evil_ia"
    by code_simp
  have p: "prepare evil_input = Inr [''0.0.0.0/1'']"
    by (rule prepare_deny_half) (simp_all add: evil_input_def evil_ia_def)
  let ?doc = "concat (map (\<lambda>w. rule_line w @ newline) (policy_tuples evil_input [''0.0.0.0/1'']))"
  have "[''accept'', ''1-2'', ''1-1'', ''0.0.0.0/0''] \<in> set (policy_rules ?doc)" by code_simp
  with routing_text [OF p] show "\<exists>doc. RenderRoutingPolicy evil_input = Inr doc \<and>
      [''accept'', ''1-2'', ''1-1'', ''0.0.0.0/0''] \<in> set (policy_rules doc)" by blast
qed

text \<open>
  A reload trigger of an earlier rendering may still be pending while the files are rewritten:
  the gateway then reads a file that was just truncated.
\<close>

lemma History_WriteFile:
  assumes "Fault env OpCreate p = None" "Fault env OpWrite p = None" "Fault env OpClose p = None"
    and "WriteFile env p data m s = (e, s')"
  shows "\<exists>d. d \<in> set (drop (length (History s)) (History s')) \<and> map_option Content (mget d p) = Some []"
proof -
  let ?f = "case mget (Disk s) p of None \<Rightarrow> \<lparr>Content = [], Mode = m\<rparr> | Some f \<Rightarrow> f\<lparr>Content := []\<rparr>"
  have "s' = update_file p (\<lambda>f. f\<lparr>Content := data\<rparr>) (set_file p ?f s)"
    using assms by (auto simp: WriteFile_def guarded_def Write_def Close_def and_then_def Let_def)
  then have "History s' = History s @ [mput p ?f (Disk s), mput p (?f\<lparr>Content := data\<rparr>) (mput p ?f (Disk s))]"
    by (simp add: update_file_def set_file_def mutate_def mget_mput)
  then show ?thesis
    by (intro exI [of _ "mput p ?f (Disk s)"]) (simp add: mget_mput split: option.split)
qed

lemma rewriting_truncates:
  assumes "prepare inp = Inr ps" "write_ok cfg env" "r = renderPolicies env inp (trafficPolicyFile cfg) (routingPolicyFile cfg) s"
  shows "\<exists>d. d \<in> set (drop (length (History s)) (History (snd r))) \<and> map_option Content (mget d (trafficPolicyFile cfg)) = Some []"
proof -
  let ?p = "trafficPolicyFile cfg"
  from assms(1) obtain t u where tu: "RenderTrafficPolicy inp = Inr t" "RenderRoutingPolicy inp = Inr u"
    by (simp add: RenderTrafficPolicy_def RenderRoutingPolicy_def)
  have ok: "Fault env op ?p = None" "Fault env op (routingPolicyFile cfg) = None" if "op \<in> {OpCreate, OpWrite, OpClose}" for op
    using assms(2) that by (auto simp: write_ok_def)
  obtain e s1 where w: "WriteFile env ?p t mode644 s = (e, s1)" by (cases "WriteFile env ?p t mode644 s")
  have "e = None" using WriteFile_succeeds [of env ?p t mode644 s] ok(1) w by simp
  then have r: "r = WriteFile env (routingPolicyFile cfg) u mode644 s1"
    using assms(3) by (simp add: renderPolicies_def tu w and_then_def)
  have "Fault env OpCreate ?p = None" "Fault env OpWrite ?p = None" "Fault env OpClose ?p = None" by (simp_all add: ok(1))
  from History_WriteFile [OF this w]
  obtain d where d: "d \<in> set (drop (length (History s)) (History s1))" "map_option Content (mget d ?p) = Some []"
    by (elim exE conjE)
  have "\<exists>hs. History (snd r) = History s1 @ hs"
    unfolding r by (auto simp: WriteFile_def guarded_def Write_def Close_def and_then_def Let_def update_file_def
        set_file_def mutate_def split: option.split)
  with d show ?thesis by auto
qed

section \<open>Metrics endpoint\<close>

text \<open>
  C40. With TLS configured, a request for anything but the two probes is refused with 401, 403
  or 500, whatever the metrics handler does, unless it carries a bearer token that is cached
  or that both reviews approve; a refusal leaves the cache as it was.
\<close>

theorem metrics_guarded:
  assumes "MetricsTLSCert cfg \<noteq> []" "Path r \<notin> {''/healthz'', ''/readyz''}"
    and "\<not> (\<exists>token u. CutPrefix (Authorization r) ''Bearer '' = (token, True) \<and> token \<noteq> [] \<and>
      (cached now1 cache token \<or>
       TokenReviews cs token = Inr (Some u) \<and> SubjectAccessReviews cs (metrics_review u) = Inr True))"
  shows "Status (fst (metrics_handler cfg prom h cs now1 now2 r cache)) \<in> {401, 403, 500} \<and>
    snd (metrics_handler cfg prom h cs now1 now2 r cache) = cache"
  using assms
  by (auto simp: metrics_handler_def Middleware_def check_def http_error_def split: prod.splits sum.splits option.splits bool.splits)

theorem metrics_guarded_witness:
  "Status (fst (metrics_handler (ex_cfg\<lparr>MetricsTLSCert := ''/tls/tls.crt''\<rparr>) (\<lambda>_. Response 200 ''secret'') New
     \<lparr>TokenReviews = (\<lambda>_. Inr None), SubjectAccessReviews = (\<lambda>_. Inr False)\<rparr> 0 0
     \<lparr>Method = ''GET'', Path = ''/metrics'', Authorization = [], Body = []\<rparr> [])) \<in> {401, 403, 500}"
proof -
  have "\<not> snd (CutPrefix [] ''Bearer '')" by code_simp
  then have "CutPrefix [] ''Bearer '' \<noteq> (token, True)" for token by auto
  with metrics_guarded [of "ex_cfg\<lparr>MetricsTLSCert := ''/tls/tls.crt''\<rparr>" "\<lparr>Method = ''GET'', Path = ''/metrics'', Authorization = [], Body = []\<rparr>" 0 "[]"
    "\<lparr>TokenReviews = (\<lambda>_. Inr None), SubjectAccessReviews = (\<lambda>_. Inr False)\<rparr>" "\<lambda>_. Response 200 ''secret''" New 0]
  show ?thesis by simp
qed

section \<open>Waiting for files\<close>

definition settled :: "(nat \<Rightarrow> poll) \<Rightarrow> string list \<Rightarrow> nat \<Rightarrow> bool" where
  "settled polls paths n \<longleftrightarrow> list_all (Exists (polls n)) paths \<or> Cancelled (polls n)"

lemma waitForFiles_to:
  assumes "k \<le> n" "\<forall>m. k \<le> m \<and> m < n \<longrightarrow> \<not> settled polls paths m"
  shows "waitForFiles polls paths k = waitForFiles polls paths n"
  using assms
proof (induction n rule: dec_induct)
  case (step n)
  then have "\<not> settled polls paths n" by simp
  then have "waitForFiles polls paths n = waitForFiles polls paths (Suc n)"
    by (subst waitForFiles.simps) (simp add: settled_def)
  with step show ?case by auto
qed simp

lemma waitForFiles_settles:
  assumes "waitForFiles polls paths k = Some r"
  shows "\<exists>n\<ge>k. settled polls paths n"
proof (rule waitForFiles.raw_induct [OF _ assms, where P = "\<lambda>polls paths k r. \<exists>n\<ge>k. settled polls paths n"])
  fix wait polls paths k r
  assume IH: "\<And>polls paths k r. wait polls paths k = Some r \<Longrightarrow> \<exists>n\<ge>k. settled polls paths n"
    and body: "(if list_all (Exists (polls k)) paths then Some None
      else if Cancelled (polls k) then Some (Some ErrCanceled) else wait polls paths (Suc k)) = Some r"
  show "\<exists>n\<ge>k. settled polls paths n"
  proof (cases "settled polls paths k")
    case False
    with body have "wait polls paths (Suc k) = Some r" by (simp add: settled_def split: if_splits)
    from IH [OF this] show ?thesis by (meson Suc_leD)
  qed auto
qed

text \<open>
  \<open>waitForFiles\<close> returns exactly when some poll finds all files or the context is
  cancelled; it then returns what the first such poll decides: success if the files are there,
  the cancellation otherwise.
\<close>

theorem waitForFiles_returns:
  "waitForFiles polls paths 0 =
    (if \<exists>n. settled polls paths n
     then Some (if list_all (Exists (polls (LEAST n. settled polls paths n))) paths then None else Some ErrCanceled)
     else None)"
proof (cases "\<exists>n. settled polls paths n")
  case True
  define n where "n = (LEAST n. settled polls paths n)"
  have n: "settled polls paths n" "\<forall>m<n. \<not> settled polls paths m"
    using True not_less_Least by (auto simp: n_def intro: LeastI)
  have "waitForFiles polls paths 0 = waitForFiles polls paths n"
    using n(2) by (intro waitForFiles_to) auto
  also have "\<dots> = Some (if list_all (Exists (polls n)) paths then None else Some ErrCanceled)"
    using n(1) by (subst waitForFiles.simps) (auto simp: settled_def)
  finally show ?thesis using True by (simp add: n_def)
next
  case False
  then have "waitForFiles polls paths 0 = None"
    using waitForFiles_settles [of polls paths 0] by (metis not_None_eq)
  with False show ?thesis by simp
qed

section \<open>Readiness of the agent\<close>

fun gateway_event :: "'o agent_event \<Rightarrow> bool option" where
  "gateway_event GatewayUp = Some True"
| "gateway_event GatewayDown = Some False"
| "gateway_event e = None"

text \<open>Whether the gateway is up after a list of events, the last one deciding.\<close>

definition gateway_up :: "'o agent_event list \<Rightarrow> bool" where
  "gateway_up es = (case rev (List.map_filter gateway_event es) of [] \<Rightarrow> False | b # _ \<Rightarrow> b)"

lemma Ready_rerender [simp]: "Ready (rerender env a) = Ready a"
  by (auto simp: rerender_def Let_def split: sum.split prod.split option.split)

lemma Ready_step: "Ready (agent_step acc ev e a) =
    (case gateway_event e of None \<Rightarrow> Ready a | Some b \<Rightarrow> SetReady ComponentGateway b (Ready a))"
  by (cases e) (auto simp: advert_tick_def split: sum.split)

lemma components_differ: "ComponentGateway \<noteq> ComponentBootstrap"
  by (simp add: ComponentBootstrap_def ComponentGateway_def)

lemma Ready_run:
  "is_ready (Ready (fold (agent_step acc ev) es a)) ComponentBootstrap = is_ready (Ready a) ComponentBootstrap"
  "is_ready (Ready (fold (agent_step acc ev) es a)) ComponentGateway =
    (case rev (List.map_filter gateway_event es) of [] \<Rightarrow> is_ready (Ready a) ComponentGateway | b # _ \<Rightarrow> b)"
proof (induction es rule: rev_induct)
  case (snoc e es)
  show "is_ready (Ready (fold (agent_step acc ev) (es @ [e]) a)) ComponentBootstrap = is_ready (Ready a) ComponentBootstrap"
    using snoc(1) components_differ by (simp add: Ready_step is_ready_SetReady split: option.split)
  show "is_ready (Ready (fold (agent_step acc ev) (es @ [e]) a)) ComponentGateway =
    (case rev (List.map_filter gateway_event (es @ [e])) of [] \<Rightarrow> is_ready (Ready a) ComponentGateway | b # _ \<Rightarrow> b)"
    using snoc(2) by (simp add: Ready_step is_ready_SetReady List.map_filter_def split: option.split)
qed (simp_all add: map_filter_simps)

text \<open>
  A started agent reports ready exactly while the last thing its gateway did was to come
  up; the bootstrap has succeeded before.
\<close>

theorem agent_ready_iff:
  assumes "startup frac acc o0 s = (Inr a, s')"
  shows "readyz (Ready (fold (agent_step acc ev) es a)) = Response (if gateway_up es then 200 else 503) []"
proof -
  have a: "Ready a = SetReady ComponentBootstrap True New"
    using assms by (auto simp: startup_def Let_def split: sum.splits option.splits prod.splits if_splits)
  have "is_ready (Ready a) ComponentBootstrap" "\<not> is_ready (Ready a) ComponentGateway"
    using components_differ by (simp_all add: a is_ready_SetReady) (simp add: is_ready_def New_def)
  then show ?thesis
    by (auto simp: readyz_def Ready_run gateway_up_def split: list.split)
qed

theorem agent_ready_iff_witness:
  "\<exists>a s. startup (\<lambda>_ _ _. 0) ex_accessors ex_outside (Files ex_refresh) = (Inr a, s) \<and>
    readyz (Ready (fold (agent_step ex_accessors ex_agent_env) [ReloadTaken, GatewayUp] a)) = Response 200 []"
proof -
  obtain a s where a: "startup (\<lambda>_ _ _. 0) ex_accessors ex_outside (Files ex_refresh) = (Inr a, s)"
    using ex_startup by blast
  have "gateway_up [ReloadTaken :: unit agent_event, GatewayUp]" by (simp add: gateway_up_def map_filter_simps)
  with agent_ready_iff [OF a, of ex_agent_env "[ReloadTaken, GatewayUp]"] a show ?thesis by auto
qed

text \<open>
  A refresh interval of zero passes the pattern of the custom resource and the configuration,
  and then panics in the refresh loop.
\<close>

lemma zero_interval_panics:
  "item_ok (''0'', ''s'') \<and> (\<exists>c. FromEnv (\<lambda>_ _ _. 0) (ex_environ(''SCION_REFRESH_INTERVAL'' := ''0s'')) = Inr c \<and>
    fst (bootstrap_Run d dir (RefreshInterval c) r0 es st) = Some (ErrPanic ''non-positive interval for NewTicker''))"
proof -
  have item: "item_ok (''0'', ''s'')" "item_value (''0'', ''s'') = 0" "item_text (''0'', ''s'') = ''0s''"
    "is_ok (FromEnv (\<lambda>_ _ _. 0) (ex_environ(''SCION_REFRESH_INTERVAL'' := ''0s'')))"
    by code_simp+
  then obtain c where c: "FromEnv (\<lambda>_ _ _. 0) (ex_environ(''SCION_REFRESH_INTERVAL'' := ''0s'')) = Inr c"
    by (auto simp: is_ok_iff)
  have "RefreshInterval c = 0"
    using FromEnv_fields [OF c] ParseDuration_items_ok [of "[(''0'', ''s'')]" "\<lambda>_ _ _. 0"] item by (auto simp: getenv_def)
  with item(1) c show ?thesis by (simp add: bootstrap_Run_def)
qed

section \<open>Closing once\<close>

lemma closeOnce_twice: "closeOnce (False, False) = Inr (True, True)" "closeOnce (True, c) = Inr (True, c)"
  by (simp_all add: closeOnce_def close_chan_def)

end
