(* ===== verification/Api_Types.thy ===== *)
theory Api_Types
  imports Go_Map
begin

text \<open>
  The custom resource (\<open>api/v1alpha1\<close>) and the parts of the Kubernetes API types the operator
  uses. Optional references and pointers are options; maps are sorted association lists;
  times are in nanoseconds; 32-bit counters are integers with the wrap-around written out.
\<close>

section \<open>Errors\<close>

text \<open>\<open>rbind r f\<close> is \<open>x, err := r; if err != nil { return err }\<close> followed by \<open>f x\<close>.\<close>

definition rbind :: "'a result \<Rightarrow> ('a \<Rightarrow> 'b result) \<Rightarrow> 'b result" where
  "rbind r f = (case r of Inl e \<Rightarrow> Inl e | Inr x \<Rightarrow> f x)"

lemma rbind_simps [simp]: "rbind (Inl e) f = Inl e" "rbind (Inr x) f = f x"
  by (simp_all add: rbind_def)

lemma rbind_Inr_iff: "rbind r f = Inr y \<longleftrightarrow> (\<exists>x. r = Inr x \<and> f x = Inr y)"
  by (cases r) auto

lemma is_ok_rbind: "is_ok (rbind r f) \<longleftrightarrow> (\<exists>x. r = Inr x \<and> is_ok (f x))"
  by (cases r) auto

text \<open>Absence of an API and missing permissions, which some lists tolerate.\<close>

definition tolerated :: "goerror \<Rightarrow> bool" where
  "tolerated e = (api_is RNotFound e \<or> api_is RForbidden e \<or> api_is RNoMatch e)"

section \<open>Values of unstructured objects\<close>

datatype uval =
    UNull
  | UBool bool
  | UNum string
  | UStr string
  | UList "uval list"
  | UMap "(string \<times> uval) list"

definition uget :: "(string \<times> uval) list \<Rightarrow> string \<Rightarrow> uval option" where
  "uget m k = map_of m k"

section \<open>Spec\<close>

definition GroupVersion :: "string \<times> string" where
  "GroupVersion = (''scion.mkowalski.github.io'', ''v1alpha1'')"

record BootstrapSpec =
  SpecMode :: string
  SpecDiscoveryURL :: string
  SpecDNSDomain :: string
  SpecDHCPInterface :: string
  SpecSecretRef :: "string option"
  SpecRefreshInterval :: string

record AdvertisementSpec =
  AdvPodCIDR :: "bool option"
  AdvNodeIP :: "bool option"

record AcceptPolicySpec =
  SpecISDASes :: "string list"
  SpecForbiddenCIDRs :: "string list"
  SpecUnderlayCIDRs :: "string list"

record DataplaneSpec =
  SpecTunName :: string

record RegistrarSpec =
  SpecBackend :: string
  SpecEndpoint :: string
  SpecCredentials :: "string option"

record Toleration =
  TolKey :: string
  TolOperator :: string
  TolValue :: string
  TolEffect :: string
  TolSeconds :: "int option"

record ScionNetworkSpec =
  Bootstrap :: BootstrapSpec
  Advertisement :: AdvertisementSpec
  AcceptPolicy :: AcceptPolicySpec
  Dataplane :: DataplaneSpec
  RegistrarCfg :: RegistrarSpec
  NodeSelector :: "string gomap"
  SpecTolerations :: "Toleration list"
  SpecAgentImage :: string

section \<open>Status\<close>

datatype ConditionStatus = ConditionTrue | ConditionFalse | ConditionUnknown

record Condition =
  CondType :: string
  CondStatus :: ConditionStatus
  CondReason :: string
  CondMessage :: string
  CondGeneration :: int

record NodeSummary =
  SumReady :: int
  SumTotal :: int
  SumDegraded :: "string list"

record RegistrarStatus =
  RegisteredNodes :: int
  DesiredSIGs :: "string list"
  LastSyncTime :: "int option"
  LastError :: string

record ScionNetworkStatus =
  Conditions :: "Condition list"
  StatusISDAS :: string
  StatusNodes :: NodeSummary
  StatusRegistrar :: RegistrarStatus

record ScionNetwork =
  SnName :: string
  SnGeneration :: int
  SnFinalizers :: "string list"
  SnDeletion :: "int option"
  Spec :: ScionNetworkSpec
  SnStatus :: ScionNetworkStatus

text \<open>Conversion to \<open>int32\<close>.\<close>

definition int32 :: "int \<Rightarrow> int" where
  "int32 n = (n + 2 ^ 31) mod 2 ^ 32 - 2 ^ 31"

lemma int32_id: "- (2 ^ 31) \<le> n \<Longrightarrow> n < 2 ^ 31 \<Longrightarrow> int32 n = n"
  by (simp add: int32_def mod_pos_pos_trivial)

text \<open>
  A duration as the pattern of the custom resource admits it is what \<open>item_text\<close> of the agent's
  configuration describes; the other validation rules of the resource are as follows.
\<close>

definition valid_bootstrap :: "BootstrapSpec \<Rightarrow> bool" where
  "valid_bootstrap b =
     (SpecMode b \<in> set [''url'', ''dns'', ''dhcp'', ''mdns''] \<and> (SpecMode b = ''url'' \<longrightarrow> SpecDiscoveryURL b \<noteq> []))"

definition valid_registrar :: "RegistrarSpec \<Rightarrow> bool" where
  "valid_registrar r =
     (SpecBackend r \<in> set [''manual'', ''http'', ''anapaya''] \<and> (SpecBackend r = ''manual'' \<or> SpecEndpoint r \<noteq> []))"

end
