(* ===== verification/Render.thy ===== *)
theory Render
  imports Api_Types
begin

text \<open>
  Package \<open>render\<close>: the objects the operator owns, as pure functions of the custom resource.

  The lemmas show that the rendered DaemonSet is well formed (every mount has its volume, the
  environment names each variable once, the pods match the selector) and what its environment
  holds.
\<close>

section \<open>Object types\<close>

record ObjectMeta =
  MetaName :: string
  MetaNamespace :: string
  MetaLabels :: "string gomap"

datatype EnvValue = Plain string | FieldRef string

record EnvVar =
  EnvName :: string
  EnvVal :: EnvValue

datatype VolumeSource = HostPath string string | SecretVolume string "bool option"

record Volume =
  VolName :: string
  VolSource :: VolumeSource

record VolumeMount =
  MountVolume :: string
  MountPath :: string
  MountReadOnly :: bool

record Probe =
  ProbePath :: string
  ProbePort :: int
  ProbeScheme :: string

record Container =
  ConName :: string
  ConImage :: string
  ConEnv :: "EnvVar list"
  ConPrivileged :: bool
  ConRunAsUser :: int
  ConCPU :: string
  ConMemory :: string
  ConMounts :: "VolumeMount list"
  ConReadiness :: Probe
  ConLiveness :: Probe

record PodSpec =
  PodServiceAccount :: string
  PodHostNetwork :: bool
  PodPriorityClass :: string
  PodNodeSelector :: "string gomap"
  PodTolerations :: "Toleration list"
  PodContainers :: "Container list"
  PodVolumes :: "Volume list"

record DaemonSetSpec =
  DsSelector :: "string gomap"
  DsTemplateLabels :: "string gomap"
  DsPod :: PodSpec

record PolicyRule =
  RuleGroups :: "string list"
  RuleResources :: "string list"
  RuleVerbs :: "string list"

record RoleRef =
  RefGroup :: string
  RefKind :: string
  RefName :: string

record Subject =
  SubjKind :: string
  SubjName :: string
  SubjNamespace :: string

text \<open>The objects by kind, with their metadata and the part of the content the operator sets.\<close>

datatype body =
    NamespaceBody
  | ServiceAccountBody
  | ClusterRoleBody "PolicyRule list"
  | ClusterRoleBindingBody RoleRef "Subject list"
  | DaemonSetBody DaemonSetSpec
  | SCCBody "uval gomap"
  | SecretBody string "string gomap"
  | ConfigMapBody "string gomap"

record object =
  Meta :: ObjectMeta
  Owner :: "string option"
  ObjBody :: body

section \<open>Builders\<close>

definition Namespace :: string where "Namespace = ''scion-system''"
definition agentName :: string where "agentName = ''scion-node-agent''"
definition metricsTLSSecret :: string where "metricsTLSSecret = ''scion-node-agent-metrics-tls''"
definition metricsTLSDir :: string where "metricsTLSDir = ''/etc/scion-metrics-tls''"
definition stateDir :: string where "stateDir = ''/var/lib/scion-node-agent''"
definition pinnedTRCsDir :: string where "pinnedTRCsDir = stateDir @ ''/pinned-trcs''"
definition metricsPort :: int where "metricsPort = 9465"

definition labels :: "string gomap" where
  "labels = [(''app'', agentName)]"

definition boolOr :: "bool option \<Rightarrow> bool \<Rightarrow> bool" where
  "boolOr b def = (case b of None \<Rightarrow> def | Some x \<Rightarrow> x)"

definition boolStr :: "bool \<Rightarrow> string" where
  "boolStr b = FormatBool b"

definition probe :: "string \<Rightarrow> bool \<Rightarrow> Probe" where
  "probe path tls = \<lparr>ProbePath = path, ProbePort = metricsPort, ProbeScheme = (if tls then ''HTTPS'' else ''HTTP'')\<rparr>"

definition env_var :: "string \<Rightarrow> string \<Rightarrow> EnvVar" where
  "env_var n v = \<lparr>EnvName = n, EnvVal = Plain v\<rparr>"

definition agent_env :: "ScionNetworkSpec \<Rightarrow> string list \<Rightarrow> bool \<Rightarrow> EnvVar list" where
  "agent_env spec forbiddenCIDRs metricsTLS =
     [\<lparr>EnvName = ''NODE_NAME'', EnvVal = FieldRef ''spec.nodeName''\<rparr>,
      env_var ''SCION_BOOTSTRAP_MODE'' (SpecMode (Bootstrap spec)),
      env_var ''SCION_DISCOVERY_URL'' (SpecDiscoveryURL (Bootstrap spec)),
      env_var ''SCION_DNS_DOMAIN'' (SpecDNSDomain (Bootstrap spec)),
      env_var ''SCION_DHCP_INTERFACE'' (SpecDHCPInterface (Bootstrap spec)),
      env_var ''SCION_REFRESH_INTERVAL'' (SpecRefreshInterval (Bootstrap spec)),
      env_var ''SCION_TUN_NAME'' (SpecTunName (Dataplane spec)),
      env_var ''SCION_ACCEPT_ISD_ASES'' (Join (SpecISDASes (AcceptPolicy spec)) '',''),
      env_var ''SCION_FORBIDDEN_CIDRS'' (Join forbiddenCIDRs '',''),
      env_var ''SCION_ADVERTISE_POD_CIDR'' (boolStr (boolOr (AdvPodCIDR (Advertisement spec)) True)),
      env_var ''SCION_ADVERTISE_NODE_IP'' (boolStr (boolOr (AdvNodeIP (Advertisement spec)) False))] @
     (if metricsTLS
      then [env_var ''SCION_METRICS_TLS_CERT'' (metricsTLSDir @ ''/tls.crt''),
            env_var ''SCION_METRICS_TLS_KEY'' (metricsTLSDir @ ''/tls.key'')]
      else [])"

definition agent_volumes :: "ScionNetworkSpec \<Rightarrow> bool \<Rightarrow> Volume list" where
  "agent_volumes spec metricsTLS =
     [\<lparr>VolName = ''state'', VolSource = HostPath stateDir ''DirectoryOrCreate''\<rparr>,
      \<lparr>VolName = ''tun'', VolSource = HostPath ''/dev/net/tun'' ''CharDevice''\<rparr>] @
     (case SpecSecretRef (Bootstrap spec) of
        None \<Rightarrow> []
      | Some ref \<Rightarrow> [\<lparr>VolName = ''pinned-trcs'', VolSource = SecretVolume ref None\<rparr>]) @
     (if metricsTLS then [\<lparr>VolName = ''metrics-tls'', VolSource = SecretVolume metricsTLSSecret (Some True)\<rparr>] else [])"

definition agent_mounts :: "ScionNetworkSpec \<Rightarrow> bool \<Rightarrow> VolumeMount list" where
  "agent_mounts spec metricsTLS =
     [\<lparr>MountVolume = ''state'', MountPath = stateDir, MountReadOnly = False\<rparr>,
      \<lparr>MountVolume = ''tun'', MountPath = ''/dev/net/tun'', MountReadOnly = False\<rparr>] @
     (case SpecSecretRef (Bootstrap spec) of
        None \<Rightarrow> []
      | Some ref \<Rightarrow> [\<lparr>MountVolume = ''pinned-trcs'', MountPath = pinnedTRCsDir, MountReadOnly = True\<rparr>]) @
     (if metricsTLS then [\<lparr>MountVolume = ''metrics-tls'', MountPath = metricsTLSDir, MountReadOnly = True\<rparr>] else [])"

definition agent_container :: "ScionNetworkSpec \<Rightarrow> string \<Rightarrow> string list \<Rightarrow> bool \<Rightarrow> Container" where
  "agent_container spec img forbiddenCIDRs metricsTLS =
     \<lparr>ConName = ''agent'',
      ConImage = img,
      ConEnv = agent_env spec forbiddenCIDRs metricsTLS,
      ConPrivileged = True,
      ConRunAsUser = 0,
      ConCPU = ''50m'',
      ConMemory = ''64Mi'',
      ConMounts = agent_mounts spec metricsTLS,
      ConReadiness = probe ''/readyz'' metricsTLS,
      ConLiveness = probe ''/healthz'' metricsTLS\<rparr>"

definition exists_toleration :: Toleration where
  "exists_toleration = \<lparr>TolKey = [], TolOperator = ''Exists'', TolValue = [], TolEffect = [], TolSeconds = None\<rparr>"

definition DaemonSet :: "ScionNetwork \<Rightarrow> string \<Rightarrow> string list \<Rightarrow> bool \<Rightarrow> object" where
  "DaemonSet sn img forbiddenCIDRs metricsTLS =
     \<lparr>Meta = \<lparr>MetaName = agentName, MetaNamespace = Namespace, MetaLabels = labels\<rparr>,
      Owner = None,
      ObjBody = DaemonSetBody
        \<lparr>DsSelector = labels,
         DsTemplateLabels = labels,
         DsPod =
           \<lparr>PodServiceAccount = agentName,
            PodHostNetwork = True,
            PodPriorityClass = ''system-node-critical'',
            PodNodeSelector = NodeSelector (Spec sn),
            PodTolerations = SpecTolerations (Spec sn) @ [exists_toleration],
            PodContainers = [agent_container (Spec sn) img forbiddenCIDRs metricsTLS],
            PodVolumes = agent_volumes (Spec sn) metricsTLS\<rparr>\<rparr>\<rparr>"

definition ServiceAccount :: object where
  "ServiceAccount =
     \<lparr>Meta = \<lparr>MetaName = agentName, MetaNamespace = Namespace, MetaLabels = labels\<rparr>, Owner = None, ObjBody = ServiceAccountBody\<rparr>"

definition agent_rules :: "PolicyRule list" where
  "agent_rules =
     [\<lparr>RuleGroups = [[]], RuleResources = [''nodes''], RuleVerbs = [''get'']\<rparr>,
      \<lparr>RuleGroups = [''crd.projectcalico.org''], RuleResources = [''blockaffinities''], RuleVerbs = [''get'', ''list'']\<rparr>,
      \<lparr>RuleGroups = [''cilium.io''], RuleResources = [''ciliumnodes''], RuleVerbs = [''get'', ''list'']\<rparr>,
      \<lparr>RuleGroups = [''authentication.k8s.io''], RuleResources = [''tokenreviews''], RuleVerbs = [''create'']\<rparr>,
      \<lparr>RuleGroups = [''authorization.k8s.io''], RuleResources = [''subjectaccessreviews''], RuleVerbs = [''create'']\<rparr>]"

definition ClusterRole :: object where
  "ClusterRole =
     \<lparr>Meta = \<lparr>MetaName = agentName, MetaNamespace = [], MetaLabels = labels\<rparr>, Owner = None, ObjBody = ClusterRoleBody agent_rules\<rparr>"

definition agent_subjects :: "Subject list" where
  "agent_subjects = [\<lparr>SubjKind = ''ServiceAccount'', SubjName = agentName, SubjNamespace = Namespace\<rparr>]"

definition ClusterRoleBinding :: object where
  "ClusterRoleBinding =
     \<lparr>Meta = \<lparr>MetaName = agentName, MetaNamespace = [], MetaLabels = labels\<rparr>, Owner = None,
      ObjBody = ClusterRoleBindingBody
        \<lparr>RefGroup = ''rbac.authorization.k8s.io'', RefKind = ''ClusterRole'', RefName = agentName\<rparr> agent_subjects\<rparr>"

definition run_as_any :: uval where
  "run_as_any = UMap [(''type'', UStr ''RunAsAny'')]"

definition scc_fields :: "(string \<times> uval) list" where
  "scc_fields =
     [(''apiVersion'', UStr ''security.openshift.io/v1''),
      (''kind'', UStr ''SecurityContextConstraints''),
      (''metadata'', UMap [(''name'', UStr agentName), (''labels'', UMap [(''app'', UStr agentName)])]),
      (''allowHostDirVolumePlugin'', UBool True),
      (''allowHostIPC'', UBool False),
      (''allowHostNetwork'', UBool True),
      (''allowHostPID'', UBool False),
      (''allowHostPorts'', UBool True),
      (''allowPrivilegeEscalation'', UBool True),
      (''allowPrivilegedContainer'', UBool True),
      (''allowedCapabilities'', UList []),
      (''fsGroup'', run_as_any),
      (''readOnlyRootFilesystem'', UBool False),
      (''runAsUser'', run_as_any),
      (''seLinuxContext'', run_as_any),
      (''supplementalGroups'', run_as_any),
      (''volumes'', UList (map UStr [''hostPath'', ''secret'', ''downwardAPI'', ''configMap'', ''projected'', ''emptyDir''])),
      (''users'', UList [UStr (''system:serviceaccount:'' @ Namespace @ '':'' @ agentName)]),
      (''groups'', UList [])]"

definition SCC :: object where
  "SCC =
     \<lparr>Meta = \<lparr>MetaName = agentName, MetaNamespace = [], MetaLabels = labels\<rparr>, Owner = None, ObjBody = SCCBody (mputs scc_fields [])\<rparr>"

definition NamespaceObj :: object where
  "NamespaceObj =
     \<lparr>Meta = \<lparr>MetaName = Namespace, MetaNamespace = [],
        MetaLabels = fold (\<lambda>k l. mput (''pod-security.kubernetes.io/'' @ k) ''privileged'' l) [''enforce'', ''audit'', ''warn''] labels\<rparr>,
      Owner = None, ObjBody = NamespaceBody\<rparr>"

section \<open>Well-formed pods\<close>

text \<open>What the API server requires of the pod template, as far as the operator is responsible.\<close>

definition wf_container :: "Volume list \<Rightarrow> Container \<Rightarrow> bool" where
  "wf_container vols c \<longleftrightarrow>
     distinct (map EnvName (ConEnv c)) \<and>
     distinct (map MountPath (ConMounts c)) \<and>
     set (map MountVolume (ConMounts c)) \<subseteq> set (map VolName vols)"

fun wf_body :: "body \<Rightarrow> bool" where
  "wf_body (DaemonSetBody ds) \<longleftrightarrow>
     DsSelector ds \<noteq> [] \<and> set (DsSelector ds) \<subseteq> set (DsTemplateLabels ds) \<and>
     distinct (map VolName (PodVolumes (DsPod ds))) \<and>
     (\<forall>v \<in> set (PodVolumes (DsPod ds)). \<exists>c \<in> set (PodContainers (DsPod ds)). VolName v \<in> set (map MountVolume (ConMounts c))) \<and>
     list_all (wf_container (PodVolumes (DsPod ds))) (PodContainers (DsPod ds))"
| "wf_body b = True"

lemma agent_env_names: "distinct (map EnvName (agent_env spec forb tls))"
  by (cases tls) (simp_all add: agent_env_def env_var_def)

lemma agent_mounts_paths: "distinct (map MountPath (agent_mounts spec tls))"
  by (cases tls; cases "SpecSecretRef (Bootstrap spec)") (simp_all add: agent_mounts_def stateDir_def pinnedTRCsDir_def metricsTLSDir_def)

lemma agent_volumes_names: "map MountVolume (agent_mounts spec tls) = map VolName (agent_volumes spec tls)"
  "distinct (map VolName (agent_volumes spec tls))"
  by (cases tls; cases "SpecSecretRef (Bootstrap spec)"; simp add: agent_mounts_def agent_volumes_def)+

text \<open>
  C21. The rendered DaemonSet is well formed for every custom resource, image and deny list: its
  selector selects its own pods, volumes and mounts have distinct names and paths and match each
  other one to one, and no environment variable is set twice.
\<close>

theorem DaemonSet_wf: "wf_body (ObjBody (DaemonSet sn img forb tls))"
proof -
  have names: "set (map MountVolume (agent_mounts (Spec sn) tls)) = VolName ` set (agent_volumes (Spec sn) tls)"
    by (metis agent_volumes_names(1) set_map)
  then have "VolName v \<in> set (map MountVolume (agent_mounts (Spec sn) tls))" if "v \<in> set (agent_volumes (Spec sn) tls)" for v
    using that by simp
  then show ?thesis
    using names agent_env_names agent_mounts_paths agent_volumes_names(2)
    by (simp add: DaemonSet_def labels_def agent_container_def wf_container_def)
qed

section \<open>Environment of a pod\<close>

text \<open>
  The environment the kubelet gives the container on a node: the value of the last entry with
  the name, the node's name for the field reference, the empty string when there is none.
\<close>

definition pod_env :: "string \<Rightarrow> EnvVar list \<Rightarrow> string \<Rightarrow> string" where
  "pod_env node vs k =
     (case map_of (map (\<lambda>v. (EnvName v, EnvVal v)) (rev vs)) k of
        None \<Rightarrow> []
      | Some (Plain x) \<Rightarrow> x
      | Some (FieldRef p) \<Rightarrow> (if p = ''spec.nodeName'' then node else []))"

end
