(* ===== verification/Deny_List.thy ===== *)
theory Deny_List
  imports Api_Types Kube Policy_Text
begin

text \<open>
  The deny list of the operator (\<open>controller.clusterForbiddenCIDRs\<close> and the functions it calls)
  and the check of node addresses against the underlay (\<open>validateNodeIPAdvertisement\<close>).

  Responses of the API server are parameters (record \<open>reads\<close>), and so are the accessors of
  unstructured objects. The lemmas give the exact content of the list, the errors that stop the
  reconcile, and that the list does not depend on the order of the responses.
\<close>

section \<open>Responses of the API server\<close>

record ClusterNode = Node +
  NodeMetaName :: string
  NodeLabels :: "string gomap"

record 'o op_accessors = "'o accessors" +
  NestedSlice :: "'o \<Rightarrow> string list \<Rightarrow> uval list"
  NestedBool :: "'o \<Rightarrow> string list \<Rightarrow> (bool \<times> bool) result"

text \<open>\<open>NestedBool\<close> gives the value and whether it was found; a discarded error leaves \<open>false\<close>.\<close>

definition nested_true :: "'o op_accessors \<Rightarrow> 'o \<Rightarrow> string list \<Rightarrow> bool" where
  "nested_true acc x path = (case NestedBool acc x path of Inl e \<Rightarrow> False | Inr (b, found) \<Rightarrow> b)"

record 'o reads =
  NetworkConfig :: "'o result"
  NodeList :: "ClusterNode list result"
  NodesMatching :: "string gomap \<Rightarrow> ClusterNode list result"
  ServiceCIDRList :: "string list list result"
  IPPoolList :: "'o list result"
  CiliumNodeList :: "'o list result"
  NetworkOperator :: "'o result"
  RouteAdvertisementsList :: "'o list result"
  ListLimit1 :: "string \<Rightarrow> goerror option"

section \<open>Sources\<close>

definition isIPv4CIDR :: "string \<Rightarrow> bool" where
  "isIPv4CIDR cidr = (case ParsePrefix cidr of Inl e \<Rightarrow> False | Inr p \<Rightarrow> Is4 (Addr p))"

fun dedupe_acc :: "string list \<Rightarrow> string list \<Rightarrow> string list" where
  "dedupe_acc out [] = out"
| "dedupe_acc out (s # ss) = dedupe_acc (if s \<noteq> [] \<and> s \<notin> set out then out @ [s] else out) ss"

definition dedupe :: "string list \<Rightarrow> string list" where
  "dedupe ss = dedupe_acc [] ss"

fun specIPv4CIDRs :: "string \<Rightarrow> string list \<Rightarrow> string list result" where
  "specIPv4CIDRs field [] = Inr []"
| "specIPv4CIDRs field (cidr # cidrs) =
     (case ParsePrefix cidr of
        Inl e \<Rightarrow> Inl (Wrap (''invalid CIDR '' @ cidr @ '' in spec.acceptPolicy.'' @ field) e)
      | Inr p \<Rightarrow> rbind (specIPv4CIDRs field cidrs) (\<lambda>out. Inr (if Is4 (Addr p) then cidr # out else out)))"

fun network_cidr :: "uval \<Rightarrow> string list" where
  "network_cidr (UMap m) =
     (case uget m ''cidr'' of Some (UStr cidr) \<Rightarrow> (if isIPv4CIDR cidr then [cidr] else []) | _ \<Rightarrow> [])"
| "network_cidr v = []"

definition openshift_cidrs :: "'o op_accessors \<Rightarrow> 'o \<Rightarrow> string list" where
  "openshift_cidrs acc nc =
     concat (map network_cidr (NestedSlice acc nc [''spec'', ''clusterNetwork''])) @
     filter isIPv4CIDR (NestedStringSlice acc nc [''spec'', ''serviceNetwork''])"

definition network_config :: "'o op_accessors \<Rightarrow> 'o result \<Rightarrow> (string list \<times> bool) result" where
  "network_config acc get =
     (case get of
        Inr nc \<Rightarrow> Inr (openshift_cidrs acc nc, True)
      | Inl e \<Rightarrow> (if api_is RNotFound e \<or> api_is RNoMatch e then Inr ([], False)
                  else Inl (Wrap ''read openshift network config'' e)))"

definition allocated_cidrs :: "('a) Node_scheme \<Rightarrow> string list" where
  "allocated_cidrs n = (if SpecPodCIDRs n = [] \<and> SpecPodCIDR n \<noteq> [] then [SpecPodCIDR n] else SpecPodCIDRs n)"

definition nodePodCIDRs :: "ClusterNode list result \<Rightarrow> string list result" where
  "nodePodCIDRs lst =
     (case lst of
        Inl e \<Rightarrow> Inl (Wrap ''list nodes for pod CIDR derivation'' e)
      | Inr nodes \<Rightarrow> Inr (concat (map (\<lambda>n. filter isIPv4CIDR (allocated_cidrs n)) nodes)))"

definition serviceCIDRs :: "string list list result \<Rightarrow> string list result" where
  "serviceCIDRs lst =
     (case lst of
        Inl e \<Rightarrow> (if tolerated e then Inr [] else Inl (Wrap ''list service CIDRs'' e))
      | Inr items \<Rightarrow> Inr (concat (map (filter isIPv4CIDR) items)))"

definition pool_cidr :: "'o op_accessors \<Rightarrow> 'o \<Rightarrow> string list" where
  "pool_cidr acc item =
     (if nested_true acc item [''spec'', ''disabled''] then []
      else (let cidr = NestedString acc item [''spec'', ''cidr'']
            in if isIPv4CIDR cidr then [cidr] else []))"

definition calicoPoolCIDRs :: "'o op_accessors \<Rightarrow> 'o list result \<Rightarrow> string list result" where
  "calicoPoolCIDRs acc lst =
     (case lst of
        Inl e \<Rightarrow> (if tolerated e then Inr [] else Inl (Wrap ''list calico IP pools'' e))
      | Inr items \<Rightarrow> Inr (concat (map (pool_cidr acc) items)))"

definition ciliumNodeCIDRs :: "'o op_accessors \<Rightarrow> 'o list result \<Rightarrow> string list result" where
  "ciliumNodeCIDRs acc lst =
     (case lst of
        Inl e \<Rightarrow> (if tolerated e then Inr [] else Inl (Wrap ''list cilium nodes'' e))
      | Inr items \<Rightarrow>
          Inr (concat (map (\<lambda>item. filter isIPv4CIDR (NestedStringSlice acc item [''spec'', ''ipam'', ''podCIDRs''])) items)))"

definition clusterForbiddenCIDRs :: "'o op_accessors \<Rightarrow> 'o reads \<Rightarrow> ScionNetwork \<Rightarrow> (string list \<times> bool) result" where
  "clusterForbiddenCIDRs acc rd sn =
     rbind (specIPv4CIDRs ''forbiddenCIDRs'' (SpecForbiddenCIDRs (AcceptPolicy (Spec sn)))) (\<lambda>forbidden.
     rbind (specIPv4CIDRs ''underlayCIDRs'' (SpecUnderlayCIDRs (AcceptPolicy (Spec sn)))) (\<lambda>underlay.
     rbind (network_config acc (NetworkConfig rd)) (\<lambda>(network, openshift).
     rbind (nodePodCIDRs (NodeList rd)) (\<lambda>nodeCIDRs.
     rbind (serviceCIDRs (ServiceCIDRList rd)) (\<lambda>svcCIDRs.
     rbind (calicoPoolCIDRs acc (IPPoolList rd)) (\<lambda>calicoCIDRs.
     rbind (ciliumNodeCIDRs acc (CiliumNodeList rd)) (\<lambda>ciliumCIDRs.
       Inr (sort (dedupe (forbidden @ underlay @ network @ nodeCIDRs @ svcCIDRs @ calicoCIDRs @ ciliumCIDRs)), openshift))))))))"

section \<open>Node addresses and the underlay\<close>

definition emdash :: string where
  "emdash = [CHR 0xE2, CHR 0x80, CHR 0x94]"

definition underlay_prefixes :: "string list \<Rightarrow> netprefix list" where
  "underlay_prefixes cidrs = List.map_filter (\<lambda>c. case ParsePrefix c of Inl e \<Rightarrow> None | Inr p \<Rightarrow> Some p) cidrs"

definition address_clash :: "netprefix list \<Rightarrow> string \<times> string \<Rightarrow> bool" where
  "address_clash nets a =
     (fst a = ''InternalIP'' \<and>
      (case ParseAddr (snd a) of Inl e \<Rightarrow> False | Inr ip \<Rightarrow> list_ex (\<lambda>p. Contains p ip) nets))"

definition clashing :: "netprefix list \<Rightarrow> string \<Rightarrow> string" where
  "clashing nets ip =
     (case ParseAddr ip of
        Inl e \<Rightarrow> []
      | Inr a \<Rightarrow> (case find (\<lambda>p. Contains p a) nets of None \<Rightarrow> [] | Some p \<Rightarrow> prefix_string p))"

fun nodes_clash :: "netprefix list \<Rightarrow> ClusterNode list \<Rightarrow> goerror option" where
  "nodes_clash nets [] = None"
| "nodes_clash nets (n # ns) =
     (case find (address_clash nets) (Addresses n) of
        Some a \<Rightarrow> Some (Err (''advertisement.nodeIP is enabled but node '' @ NodeMetaName n @ '' IP '' @ snd a @
          '' is inside underlay CIDR '' @ clashing nets (snd a) @
          ''; advertising it would route the SCION underlay into the tunnel (routing loop) '' @ emdash @
          '' disable spec.advertisement.nodeIP or move node IPs off the underlay''))
      | None \<Rightarrow> nodes_clash nets ns)"

definition validateNodeIPAdvertisement :: "'o reads \<Rightarrow> ScionNetwork \<Rightarrow> goerror option" where
  "validateNodeIPAdvertisement rd sn =
     (if AdvNodeIP (Advertisement (Spec sn)) \<noteq> Some True then None
      else (let nets = underlay_prefixes (SpecUnderlayCIDRs (AcceptPolicy (Spec sn)))
            in if nets = [] then None
               else (case NodesMatching rd (NodeSelector (Spec sn)) of
                  Inl e \<Rightarrow> Some (Wrap ''list nodes for nodeIP advertisement check'' e)
                | Inr nodes \<Rightarrow> nodes_clash nets nodes)))"

section \<open>Content of the deny list\<close>

lemma isIPv4CIDR_v4 [simp]: "isIPv4CIDR = v4_cidr"
  by (simp add: fun_eq_iff isIPv4CIDR_def v4_cidr_def)

lemma dedupe_acc_props:
  "distinct out \<Longrightarrow> distinct (dedupe_acc out ss)"
  "set (dedupe_acc out ss) = set out \<union> (set ss - {[]})"
  by (induction ss arbitrary: out) auto

lemma dedupe_props: "distinct (dedupe ss)" "set (dedupe ss) = set ss - {[]}"
  by (simp_all add: dedupe_def dedupe_acc_props)

lemma not_v4_Nil [simp]: "\<not> v4_cidr []"
  using ParsePrefix_neq_Nil by (auto simp: v4_cidr_def split: sum.splits)

lemma rbind_ok: "is_ok (rbind r f) \<longleftrightarrow> is_ok r \<and> (\<forall>x. r = Inr x \<longrightarrow> is_ok (f x))"
  by (cases r) auto

lemma specIPv4CIDRs_ok:
  "is_ok (specIPv4CIDRs field cs) \<longleftrightarrow> (\<forall>c \<in> set cs. is_ok (ParsePrefix c))"
  by (induction cs) (auto simp: rbind_ok split: sum.splits)

lemma specIPv4CIDRs_set:
  "specIPv4CIDRs field cs = Inr out \<Longrightarrow> set out = {c \<in> set cs. v4_cidr c}"
proof (induction cs arbitrary: out)
  case (Cons c cs)
  from Cons.prems obtain p out' where p: "ParsePrefix c = Inr p" "specIPv4CIDRs field cs = Inr out'"
    "out = (if Is4 (Addr p) then c # out' else out')"
    by (auto simp: rbind_Inr_iff split: sum.splits)
  have "v4_cidr c = Is4 (Addr p)" by (simp add: v4_cidr_def p(1))
  then show ?case using Cons.IH [OF p(2)] p(3) by auto
qed simp

fun uval_cidr :: "uval \<Rightarrow> string list" where
  "uval_cidr (UMap m) = (case uget m ''cidr'' of Some (UStr cidr) \<Rightarrow> [cidr] | _ \<Rightarrow> [])"
| "uval_cidr v = []"

lemma network_cidr_filter: "network_cidr v = filter v4_cidr (uval_cidr v)"
  by (cases v) (auto split: option.splits uval.splits)

text \<open>All ranges the specification and the cluster name, as strings.\<close>

definition ok_items :: "'a list result \<Rightarrow> 'a list" where
  "ok_items r = (case r of Inl e \<Rightarrow> [] | Inr xs \<Rightarrow> xs)"

lemma ok_items_simps [simp]: "ok_items (Inl e) = []" "ok_items (Inr xs) = xs"
  by (simp_all add: ok_items_def)

definition network_ranges :: "'o op_accessors \<Rightarrow> 'o result \<Rightarrow> string list" where
  "network_ranges acc get =
     (case get of
        Inl e \<Rightarrow> []
      | Inr nc \<Rightarrow> concat (map uval_cidr (NestedSlice acc nc [''spec'', ''clusterNetwork''])) @
          NestedStringSlice acc nc [''spec'', ''serviceNetwork''])"

definition pool_range :: "'o op_accessors \<Rightarrow> 'o \<Rightarrow> string list" where
  "pool_range acc i = (if nested_true acc i [''spec'', ''disabled''] then [] else [NestedString acc i [''spec'', ''cidr'']])"

definition cilium_ranges :: "'o op_accessors \<Rightarrow> 'o \<Rightarrow> string list" where
  "cilium_ranges acc i = NestedStringSlice acc i [''spec'', ''ipam'', ''podCIDRs'']"

definition cluster_ranges :: "'o op_accessors \<Rightarrow> 'o reads \<Rightarrow> ScionNetwork \<Rightarrow> string list" where
  "cluster_ranges acc rd sn =
     SpecForbiddenCIDRs (AcceptPolicy (Spec sn)) @
     SpecUnderlayCIDRs (AcceptPolicy (Spec sn)) @
     network_ranges acc (NetworkConfig rd) @
     concat (map allocated_cidrs (ok_items (NodeList rd))) @
     concat (map (\<lambda>cidrs. cidrs) (ok_items (ServiceCIDRList rd))) @
     concat (map (pool_range acc) (ok_items (IPPoolList rd))) @
     concat (map (cilium_ranges acc) (ok_items (CiliumNodeList rd)))"

text \<open>Same items, whatever their order and multiplicity; same errors.\<close>

definition same_items :: "'a list result \<Rightarrow> 'a list result \<Rightarrow> bool" where
  "same_items r r' =
     (case r of Inl e \<Rightarrow> r' = Inl e | Inr xs \<Rightarrow> (case r' of Inl e \<Rightarrow> False | Inr ys \<Rightarrow> set xs = set ys))"

lemma same_itemsD: "same_items r r' \<Longrightarrow> set (ok_items r) = set (ok_items r') \<and> (\<forall>e. r = Inl e \<longleftrightarrow> r' = Inl e) \<and> is_ok r = is_ok r'"
  by (auto simp: same_items_def split: sum.splits)

definition same_error :: "'a result \<Rightarrow> 'b result \<Rightarrow> bool" where
  "same_error r r' = (\<forall>e. r = Inl e \<longleftrightarrow> r' = Inl e)"

text \<open>
  The contract of a source of ranges: from a list of objects it takes the IPv4 ranges of every
  object; of the errors of the list call it passes some as an empty list and returns the others.
\<close>

locale range_source =
  fixes src :: "'a list result \<Rightarrow> string list result"
    and ranges :: "'a \<Rightarrow> string list"
    and passes :: "goerror \<Rightarrow> bool"
  assumes listed: "src (Inr xs) = Inr (concat (map (\<lambda>x. filter v4_cidr (ranges x)) xs))"
    and absent: "passes e \<Longrightarrow> src (Inl e) = Inr []"
    and failed: "\<not> passes e \<Longrightarrow> \<not> is_ok (src (Inl e))"
begin

lemma content: "src r = Inr xs \<Longrightarrow> set xs = {c \<in> set (concat (map ranges (ok_items r))). v4_cidr c}"
proof (cases r)
  case (Inl e)
  assume "src r = Inr xs"
  then show ?thesis using absent [of e] failed [of e] Inl by (cases "passes e") auto
qed (auto simp: listed)

lemma succeeds: "is_ok (src r) \<longleftrightarrow> (\<forall>e. r = Inl e \<longrightarrow> passes e)"
  using absent failed by (cases r) (auto simp: listed)

lemma order: "same_items r r' \<Longrightarrow> same_error (src r) (src r')"
  by (auto simp: same_items_def same_error_def listed split: sum.splits)

end

interpretation nd: range_source nodePodCIDRs allocated_cidrs "\<lambda>_. False"
  by unfold_locales (simp_all add: nodePodCIDRs_def)

interpretation sv: range_source serviceCIDRs "\<lambda>cidrs. cidrs" tolerated
  by unfold_locales (simp_all add: serviceCIDRs_def)

interpretation ca: range_source "calicoPoolCIDRs acc" "pool_range acc" tolerated for acc :: "'o op_accessors"
proof unfold_locales
  have "pool_cidr acc = (\<lambda>i. filter v4_cidr (pool_range acc i))" by (simp add: fun_eq_iff pool_cidr_def pool_range_def Let_def)
  then show "calicoPoolCIDRs acc (Inr xs) = Inr (concat (map (\<lambda>i. filter v4_cidr (pool_range acc i)) xs))" for xs
    by (simp add: calicoPoolCIDRs_def)
qed (simp_all add: calicoPoolCIDRs_def)

interpretation ci: range_source "ciliumNodeCIDRs acc" "cilium_ranges acc" tolerated for acc :: "'o op_accessors"
  by unfold_locales (simp_all add: ciliumNodeCIDRs_def cilium_ranges_def)

lemma network_config_content:
  "network_config acc get = Inr (network, os) \<Longrightarrow> set network = {c \<in> set (network_ranges acc get). v4_cidr c} \<and> os = is_ok get"
  by (cases get) (auto simp: network_config_def network_ranges_def openshift_cidrs_def network_cidr_filter split: if_splits)

lemma deny_list_content:
  assumes "clusterForbiddenCIDRs acc rd sn = Inr (out, os)"
  shows "sorted out" "distinct out" "set out = {c \<in> set (cluster_ranges acc rd sn). v4_cidr c}" "os = is_ok (NetworkConfig rd)"
proof -
  from assms obtain fb un nw nd sv ca ci where
    r: "specIPv4CIDRs ''forbiddenCIDRs'' (SpecForbiddenCIDRs (AcceptPolicy (Spec sn))) = Inr fb"
      "specIPv4CIDRs ''underlayCIDRs'' (SpecUnderlayCIDRs (AcceptPolicy (Spec sn))) = Inr un"
      "network_config acc (NetworkConfig rd) = Inr (nw, os)"
      "nodePodCIDRs (NodeList rd) = Inr nd" "serviceCIDRs (ServiceCIDRList rd) = Inr sv"
      "calicoPoolCIDRs acc (IPPoolList rd) = Inr ca" "ciliumNodeCIDRs acc (CiliumNodeList rd) = Inr ci"
    and out: "out = sort (dedupe (fb @ un @ nw @ nd @ sv @ ca @ ci))"
    by (auto simp: clusterForbiddenCIDRs_def rbind_Inr_iff)
  show "sorted out" "distinct out" by (simp_all add: out dedupe_props)
  note sets = specIPv4CIDRs_set [OF r(1)] specIPv4CIDRs_set [OF r(2)] network_config_content [OF r(3), THEN conjunct1]
    nd.content [OF r(4)] sv.content [OF r(5)] ca.content [OF r(6)] ci.content [OF r(7)]
  have "set (fb @ un @ nw @ nd @ sv @ ca @ ci) = {c \<in> set (cluster_ranges acc rd sn). v4_cidr c}"
    unfolding cluster_ranges_def set_append sets by blast
  then show "set out = {c \<in> set (cluster_ranges acc rd sn). v4_cidr c}"
    using not_v4_Nil by (auto simp: out dedupe_props)
  show "os = is_ok (NetworkConfig rd)" using network_config_content [OF r(3)] by simp
qed

lemma network_config_ok: "is_ok (network_config acc get) \<longleftrightarrow> (\<forall>e. get = Inl e \<longrightarrow> api_is RNotFound e \<or> api_is RNoMatch e)"
  by (auto simp: network_config_def split: sum.splits)

definition same_reads :: "'o reads \<Rightarrow> 'o reads \<Rightarrow> bool" where
  "same_reads rd rd' \<longleftrightarrow>
     NetworkConfig rd = NetworkConfig rd' \<and> same_items (NodeList rd) (NodeList rd') \<and>
     same_items (ServiceCIDRList rd) (ServiceCIDRList rd') \<and>
     same_items (IPPoolList rd) (IPPoolList rd') \<and> same_items (CiliumNodeList rd) (CiliumNodeList rd')"

lemma same_ranges: "same_reads rd rd' \<Longrightarrow> set (cluster_ranges acc rd sn) = set (cluster_ranges acc rd' sn)"
proof -
  assume "same_reads rd rd'"
  then have "NetworkConfig rd = NetworkConfig rd'" "set (ok_items (NodeList rd)) = set (ok_items (NodeList rd'))"
    "set (ok_items (ServiceCIDRList rd)) = set (ok_items (ServiceCIDRList rd'))"
    "set (ok_items (IPPoolList rd)) = set (ok_items (IPPoolList rd'))"
    "set (ok_items (CiliumNodeList rd)) = set (ok_items (CiliumNodeList rd'))"
    by (auto simp: same_reads_def dest: same_itemsD)
  then show ?thesis by (simp add: cluster_ranges_def)
qed

lemma deny_list_ok_iff:
  "is_ok (clusterForbiddenCIDRs acc rd sn) \<longleftrightarrow>
     (\<forall>c \<in> set (SpecForbiddenCIDRs (AcceptPolicy (Spec sn)) @ SpecUnderlayCIDRs (AcceptPolicy (Spec sn))). is_ok (ParsePrefix c)) \<and>
     (\<forall>e. NetworkConfig rd = Inl e \<longrightarrow> api_is RNotFound e \<or> api_is RNoMatch e) \<and>
     is_ok (NodeList rd) \<and>
     (\<forall>e. ServiceCIDRList rd = Inl e \<or> IPPoolList rd = Inl e \<or> CiliumNodeList rd = Inl e \<longrightarrow> tolerated e)"
proof -
  have "is_ok (clusterForbiddenCIDRs acc rd sn) \<longleftrightarrow>
      is_ok (specIPv4CIDRs ''forbiddenCIDRs'' (SpecForbiddenCIDRs (AcceptPolicy (Spec sn)))) \<and>
      is_ok (specIPv4CIDRs ''underlayCIDRs'' (SpecUnderlayCIDRs (AcceptPolicy (Spec sn)))) \<and>
      is_ok (network_config acc (NetworkConfig rd)) \<and> is_ok (nodePodCIDRs (NodeList rd)) \<and>
      is_ok (serviceCIDRs (ServiceCIDRList rd)) \<and> is_ok (calicoPoolCIDRs acc (IPPoolList rd)) \<and>
      is_ok (ciliumNodeCIDRs acc (CiliumNodeList rd))"
    by (simp add: clusterForbiddenCIDRs_def is_ok_rbind) (auto simp: is_ok_iff)
  then show ?thesis unfolding network_config_ok nd.succeeds sv.succeeds ca.succeeds ci.succeeds specIPv4CIDRs_ok by (cases "NodeList rd") auto
qed

lemma same_error_rbind:
  assumes "same_error r r'" "\<And>x y. r = Inr x \<Longrightarrow> r' = Inr y \<Longrightarrow> same_error (f x) (g y)"
  shows "same_error (rbind r f) (rbind r' g)"
  using assms by (cases r; cases r') (auto simp: same_error_def)

lemma same_error_refl: "same_error r r" "same_error (Inr x) (Inr y)"
  by (simp_all add: same_error_def)

lemma same_reads_error:
  assumes "same_reads rd rd'"
  shows "same_error (clusterForbiddenCIDRs acc rd sn) (clusterForbiddenCIDRs acc rd' sn)"
proof -
  have eq: "NetworkConfig rd' = NetworkConfig rd" using assms by (simp add: same_reads_def)
  have items: "same_items (NodeList rd) (NodeList rd')" "same_items (ServiceCIDRList rd) (ServiceCIDRList rd')"
    "same_items (IPPoolList rd) (IPPoolList rd')" "same_items (CiliumNodeList rd) (CiliumNodeList rd')"
    using assms by (auto simp: same_reads_def)
  show ?thesis
    unfolding clusterForbiddenCIDRs_def eq case_prod_beta'
    by (intro same_error_rbind same_error_refl nd.order sv.order ca.order ci.order items)
qed

lemma deny_list_same:
  assumes "same_reads rd rd'"
  shows "clusterForbiddenCIDRs acc rd sn = clusterForbiddenCIDRs acc rd' sn"
proof (cases "clusterForbiddenCIDRs acc rd sn")
  case (Inl e)
  then show ?thesis using same_reads_error [OF assms] by (simp add: same_error_def)
next
  case (Inr p)
  then obtain p' where p': "clusterForbiddenCIDRs acc rd' sn = Inr p'"
    using same_reads_error [OF assms, of acc sn] by (cases "clusterForbiddenCIDRs acc rd' sn") (simp_all add: same_error_def)
  obtain out os out' os' where o: "p = (out, os)" "p' = (out', os')" by (cases p, cases p')
  note c = deny_list_content [OF Inr [unfolded o]] and c' = deny_list_content [OF p' [unfolded o]]
  have "out = out'" using c c' same_ranges [OF assms] by (intro sorted_distinct_set_unique) auto
  moreover have "os = os'" using c(4) c'(4) assms by (simp add: same_reads_def)
  ultimately show ?thesis using Inr p' o by simp
qed

section \<open>Node addresses\<close>

lemma nodes_clash_None: "nodes_clash ps ns = None \<longleftrightarrow> (\<forall>n \<in> set ns. \<forall>a \<in> set (Addresses n). \<not> address_clash ps a)"
proof (induction ns)
  case (Cons n ns)
  show ?case
  proof (cases "find (address_clash ps) (Addresses n)")
    case None
    then have "\<forall>a \<in> set (Addresses n). \<not> address_clash ps a" by (auto simp: find_None_iff)
    then show ?thesis using Cons.IH None by simp
  next
    case (Some a)
    then have "a \<in> set (Addresses n)" "address_clash ps a" by (auto simp: find_Some_iff)
    then show ?thesis using Some by auto
  qed
qed simp

lemma set_underlay_prefixes: "p \<in> set (underlay_prefixes cs) \<longleftrightarrow> (\<exists>c \<in> set cs. ParsePrefix c = Inr p)"
  by (force simp: underlay_prefixes_def map_filter_def split: sum.splits)

lemma internal_ip_in: "internal_ip as \<noteq> [] \<Longrightarrow> (''InternalIP'', internal_ip as) \<in> set as"
  by (induction as rule: internal_ip.induct) auto

text \<open>The prefix \<open>ip/32\<close> of an IPv4 address holds that address only.\<close>

lemma host_prefix_has:
  assumes "cidr_has (ip @ ''/32'') x"
  shows "ParseAddr ip = Inr (V4 x)"
proof -
  have "v4_cidr (ip @ ''/32'')" using assms by (rule cidr_has_v4)
  then obtain a n where p: "ParsePrefix (ip @ ''/32'') = Inr (Prefix (V4 a) n)" by (rule v4_cidrE)
  have "before_last_slash (ip @ ''/32'') = ip" "after_last_slash (ip @ ''/32'') = ''32''"
    using before_last_slash_append [of "''32''" ip] after_last_slash_append [of "''32''" ip] by simp_all
  moreover have "parse_bits ''32'' 32 = Inr 32" by code_simp
  ultimately have "ParseAddr ip = Inr (V4 a)" "n = 32"
    using p by (auto simp: ParsePrefix_def maxBits_def split: if_splits sum.splits)
  moreover have "a = x" using assms p \<open>n = 32\<close> by (simp add: cidr_has_def Contains_V4)
  ultimately show ?thesis by simp
qed

lemma node_ip_outside:
  assumes ok: "validateNodeIPAdvertisement rd sn = None" and on: "AdvNodeIP (Advertisement (Spec sn)) = Some True"
    and nodes: "NodesMatching rd (NodeSelector (Spec sn)) = Inr nodes" "n \<in> set nodes"
    and info: "GetNodeInfo get name = Inr info" "get name = Inr (Node.truncate n)"
    and c: "c \<in> set (SpecUnderlayCIDRs (AcceptPolicy (Spec sn)))" "cidr_has c x"
  shows "\<not> cidr_has (InternalIP info @ ''/32'') x"
proof
  assume "cidr_has (InternalIP info @ ''/32'') x"
  then have ip: "ParseAddr (InternalIP info) = Inr (V4 x)" by (rule host_prefix_has)
  from c(2) obtain p where p: "ParsePrefix c = Inr p" "Contains p (V4 x)"
    by (auto simp: cidr_has_def split: sum.splits)
  then have mem: "p \<in> set (underlay_prefixes (SpecUnderlayCIDRs (AcceptPolicy (Spec sn))))"
    using c(1) by (auto simp: set_underlay_prefixes)
  then have "nodes_clash (underlay_prefixes (SpecUnderlayCIDRs (AcceptPolicy (Spec sn)))) nodes = None"
    using ok on nodes(1) by (auto simp: validateNodeIPAdvertisement_def Let_def split: if_splits)
  moreover have "InternalIP info = internal_ip (Addresses n)" "InternalIP info \<noteq> []"
    using info by (auto simp: GetNodeInfo_def Let_def Node.defs split: if_splits)
  ultimately have "\<not> address_clash (underlay_prefixes (SpecUnderlayCIDRs (AcceptPolicy (Spec sn)))) (''InternalIP'', InternalIP info)"
    using nodes(2) internal_ip_in [of "Addresses n"] by (auto simp: nodes_clash_None)
  then show False using mem p(2) ip by (auto simp: address_clash_def list_ex_iff)
qed

section \<open>A cluster as an example\<close>

fun nested :: "uval \<Rightarrow> string list \<Rightarrow> uval option" where
  "nested v [] = Some v"
| "nested (UMap m) (k # ks) = (case uget m k of None \<Rightarrow> None | Some v \<Rightarrow> nested v ks)"
| "nested v (k # ks) = None"

definition ex_op_accessors :: "uval op_accessors" where
  "ex_op_accessors =
     \<lparr>NestedString = (\<lambda>v ks. case nested v ks of Some (UStr s) \<Rightarrow> s | _ \<Rightarrow> []),
      NestedStringSlice = (\<lambda>v ks. case nested v ks of
        Some (UList vs) \<Rightarrow> concat (map (\<lambda>x. case x of UStr s \<Rightarrow> [s] | _ \<Rightarrow> []) vs) | _ \<Rightarrow> []),
      GetName = (\<lambda>v. case nested v [''metadata'', ''name''] of Some (UStr s) \<Rightarrow> s | _ \<Rightarrow> []),
      NestedSlice = (\<lambda>v ks. case nested v ks of Some (UList vs) \<Rightarrow> vs | _ \<Rightarrow> []),
      NestedBool = (\<lambda>v ks. case nested v ks of Some (UBool b) \<Rightarrow> Inr (b, True) | None \<Rightarrow> Inr (False, False) | _ \<Rightarrow> Inl (Err ''not a bool''))\<rparr>"

definition ex_node :: "string \<Rightarrow> string \<Rightarrow> string \<Rightarrow> ClusterNode" where
  "ex_node nm cidr ip =
     \<lparr>SpecPodCIDRs = [cidr, ''fd00::/64''], SpecPodCIDR = cidr, Annotations = [], Addresses = [(''InternalIP'', ip)],
      NodeMetaName = nm, NodeLabels = []\<rparr>"

definition ex_pool :: "string \<Rightarrow> bool \<Rightarrow> uval" where
  "ex_pool cidr off = UMap [(''spec'', UMap [(''cidr'', UStr cidr), (''disabled'', UBool off)])]"

definition ex_reads :: "ClusterNode list \<Rightarrow> uval reads" where
  "ex_reads nodes =
     \<lparr>NetworkConfig = Inl (ApiErr RNotFound ''no such kind''),
      NodeList = Inr nodes,
      NodesMatching = (\<lambda>sel. Inr nodes),
      ServiceCIDRList = Inr [[''10.96.0.0/12'']],
      IPPoolList = Inr [ex_pool ''10.64.0.0/16'' False, ex_pool ''192.0.2.0/24'' True],
      CiliumNodeList = Inl (ApiErr RForbidden ''forbidden''),
      NetworkOperator = Inl (ApiErr RNotFound ''no such kind''),
      RouteAdvertisementsList = Inl (ApiErr RNotFound ''no such kind''),
      ListLimit1 = (\<lambda>kind. None)\<rparr>"

definition ex_spec :: ScionNetworkSpec where
  "ex_spec =
     \<lparr>Bootstrap = \<lparr>SpecMode = ''url'', SpecDiscoveryURL = ''http://ds'', SpecDNSDomain = [], SpecDHCPInterface = [],
        SpecSecretRef = None, SpecRefreshInterval = ''1h''\<rparr>,
      Advertisement = \<lparr>AdvPodCIDR = Some True, AdvNodeIP = Some True\<rparr>,
      AcceptPolicy = \<lparr>SpecISDASes = [''1-ff00:0:110''], SpecForbiddenCIDRs = [''128.0.0.0/1''], SpecUnderlayCIDRs = [''172.16.0.0/12'']\<rparr>,
      Dataplane = \<lparr>SpecTunName = ''scion0''\<rparr>,
      RegistrarCfg = \<lparr>SpecBackend = ''manual'', SpecEndpoint = [], SpecCredentials = None\<rparr>,
      NodeSelector = [], SpecTolerations = [], SpecAgentImage = []\<rparr>"

definition ex_status :: ScionNetworkStatus where
  "ex_status =
     \<lparr>Conditions = [], StatusISDAS = [], StatusNodes = \<lparr>SumReady = 0, SumTotal = 0, SumDegraded = []\<rparr>,
      StatusRegistrar = \<lparr>RegisteredNodes = 0, DesiredSIGs = [], LastSyncTime = None, LastError = []\<rparr>\<rparr>"

definition ex_sn :: ScionNetwork where
  "ex_sn = \<lparr>SnName = ''cluster'', SnGeneration = 1, SnFinalizers = [], SnDeletion = None, Spec = ex_spec, SnStatus = ex_status\<rparr>"

definition ex_nodes :: "ClusterNode list" where
  "ex_nodes = [ex_node ''n1'' ''10.244.0.0/24'' ''192.168.0.1'', ex_node ''n2'' ''10.244.1.0/24'' ''192.168.0.2'']"

lemma ex_deny_list:
  "clusterForbiddenCIDRs ex_op_accessors (ex_reads ex_nodes) ex_sn =
     Inr ([''10.244.0.0/24'', ''10.244.1.0/24'', ''10.64.0.0/16'', ''10.96.0.0/12'', ''128.0.0.0/1'', ''172.16.0.0/12''], False)"
  by code_simp

section \<open>Theorems\<close>

text \<open>
  C11. The deny list the operator computes is exact: it holds every IPv4 range named by
  \<open>forbiddenCIDRs\<close> and \<open>underlayCIDRs\<close>, by the OpenShift network configuration, the nodes, the
  service ranges, the enabled Calico pools and the Cilium nodes, and nothing else, each once and
  in ascending order.
\<close>

theorem deny_list_exact:
  assumes "clusterForbiddenCIDRs acc rd sn = Inr (out, os)"
  shows "sorted out \<and> distinct out \<and> (\<forall>c. c \<in> set out \<longleftrightarrow> c \<in> set (cluster_ranges acc rd sn) \<and> v4_cidr c)"
  using deny_list_content [OF assms] by simp

theorem deny_list_exact_witness:
  "\<exists>out. clusterForbiddenCIDRs ex_op_accessors (ex_reads ex_nodes) ex_sn = Inr (out, False) \<and>
     sorted out \<and> distinct out \<and> ''172.16.0.0/12'' \<in> set out \<and> ''192.0.2.0/24'' \<notin> set out"
  using deny_list_exact [OF ex_deny_list] ex_deny_list by simp

text \<open>
  C15. The computation fails closed. It succeeds exactly when every range of the specification
  can be parsed, the network configuration was read or is known not to exist, the nodes were
  listed, and the other lists succeeded or failed because the API is absent or not permitted.
\<close>

theorem deny_list_fails_closed:
  "is_ok (clusterForbiddenCIDRs acc rd sn) \<longleftrightarrow>
     (\<forall>c \<in> set (SpecForbiddenCIDRs (AcceptPolicy (Spec sn)) @ SpecUnderlayCIDRs (AcceptPolicy (Spec sn))). is_ok (ParsePrefix c)) \<and>
     (\<forall>e. NetworkConfig rd = Inl e \<longrightarrow> api_is RNotFound e \<or> api_is RNoMatch e) \<and>
     is_ok (NodeList rd) \<and>
     (\<forall>e. ServiceCIDRList rd = Inl e \<or> IPPoolList rd = Inl e \<or> CiliumNodeList rd = Inl e \<longrightarrow> tolerated e)"
  by (rule deny_list_ok_iff)

theorem deny_list_fails_closed_witness:
  "is_ok (clusterForbiddenCIDRs ex_op_accessors (ex_reads ex_nodes) ex_sn) \<and>
   \<not> is_ok (clusterForbiddenCIDRs ex_op_accessors ((ex_reads ex_nodes)\<lparr>IPPoolList := Inl (ApiErr ROther ''timeout'')\<rparr>) ex_sn)"
proof -
  have "\<not> tolerated (ApiErr ROther ''timeout'')" by (simp add: tolerated_def)
  then have "\<not> is_ok (clusterForbiddenCIDRs ex_op_accessors ((ex_reads ex_nodes)\<lparr>IPPoolList := Inl (ApiErr ROther ''timeout'')\<rparr>) ex_sn)"
    unfolding deny_list_fails_closed by force
  with ex_deny_list show ?thesis by simp
qed

text \<open>
  C16. The deny list, errors included, is the same for any two sets of responses with the same
  items, so a change of the order in which the API server lists them never changes the DaemonSet.
\<close>

theorem deny_list_order:
  assumes "same_reads rd rd'"
  shows "clusterForbiddenCIDRs acc rd sn = clusterForbiddenCIDRs acc rd' sn"
  by (rule deny_list_same [OF assms])

theorem deny_list_order_witness:
  "clusterForbiddenCIDRs ex_op_accessors (ex_reads (rev ex_nodes)) ex_sn =
     Inr ([''10.244.0.0/24'', ''10.244.1.0/24'', ''10.64.0.0/16'', ''10.96.0.0/12'', ''128.0.0.0/1'', ''172.16.0.0/12''], False)"
proof -
  have "same_reads (ex_reads (rev ex_nodes)) (ex_reads ex_nodes)"
    by (simp add: same_reads_def ex_reads_def same_items_def)
  from deny_list_order [OF this, of ex_op_accessors ex_sn] ex_deny_list show ?thesis by simp
qed

text \<open>
  C17. Once the operator has accepted the advertisement of node addresses, the address an agent
  on a selected node advertises lies in no underlay range.
\<close>

theorem node_ip_off_underlay:
  assumes "validateNodeIPAdvertisement rd sn = None" "AdvNodeIP (Advertisement (Spec sn)) = Some True"
    and "NodesMatching rd (NodeSelector (Spec sn)) = Inr nodes" "n \<in> set nodes"
    and "GetNodeInfo get name = Inr info" "get name = Inr (Node.truncate n)"
    and "c \<in> set (SpecUnderlayCIDRs (AcceptPolicy (Spec sn)))" "cidr_has c x"
  shows "\<not> cidr_has (InternalIP info @ ''/32'') x"
  by (rule node_ip_outside [OF assms])

theorem node_ip_off_underlay_witness:
  "validateNodeIPAdvertisement (ex_reads ex_nodes) ex_sn = None \<and>
   \<not> cidr_has (''192.168.0.1'' @ ''/32'') 0xAC100001 \<and>
   validateNodeIPAdvertisement (ex_reads [ex_node ''n3'' ''10.244.2.0/24'' ''172.16.0.1'']) ex_sn \<noteq> None"
proof -
  have v: "validateNodeIPAdvertisement (ex_reads ex_nodes) ex_sn = None"
    "validateNodeIPAdvertisement (ex_reads [ex_node ''n3'' ''10.244.2.0/24'' ''172.16.0.1'']) ex_sn \<noteq> None"
    "cidr_has ''172.16.0.0/12'' 0xAC100001"
    by code_simp+
  have i: "GetNodeInfo (\<lambda>_. Inr (Node.truncate (ex_node ''n1'' ''10.244.0.0/24'' ''192.168.0.1''))) ''n1'' =
      Inr \<lparr>PodCIDRs = [''10.244.0.0/24'', ''fd00::/64''], InternalIP = ''192.168.0.1''\<rparr>"
    by (simp add: GetNodeInfo_def node_pod_cidrs_def ex_node_def Node.defs)
  have h: "AdvNodeIP (Advertisement (Spec ex_sn)) = Some True"
    "NodesMatching (ex_reads ex_nodes) (NodeSelector (Spec ex_sn)) = Inr ex_nodes"
    "ex_node ''n1'' ''10.244.0.0/24'' ''192.168.0.1'' \<in> set ex_nodes"
    "''172.16.0.0/12'' \<in> set (SpecUnderlayCIDRs (AcceptPolicy (Spec ex_sn)))"
    by (simp_all add: ex_sn_def ex_spec_def ex_reads_def ex_nodes_def)
  show ?thesis
    using node_ip_off_underlay [OF v(1) h(1,2,3) i refl h(4) v(3)] v by simp
qed

end
