(* ===== verification/Operator_Api.thy ===== *)
theory Operator_Api
  imports Render Deny_List
begin

text \<open>
  What the operator uses of the Kubernetes client and of controller-runtime, as parameters: the
  calls that read and write the cluster (record \<open>kube\<close>, over an arbitrary world) and the pure
  helpers on metadata (record \<open>lib\<close>). What the code relies on is stated as the predicates
  \<open>lib_ok\<close> and \<open>kube_ok\<close>, which describe their documented behaviour.
\<close>

section \<open>Calls\<close>

record Pod =
  PodName :: string
  PodNode :: string
  PodConditions :: "(string \<times> ConditionStatus \<times> int) list"
  PodCreated :: int

record DaemonSetState =
  DsGeneration :: int
  DsObserved :: int
  DsDesired :: int

record Secret =
  SecMeta :: ObjectMeta
  SecOwner :: "string option"
  SecType :: string
  SecData :: "string gomap"

definition secret_object :: "Secret \<Rightarrow> object" where
  "secret_object sec = \<lparr>Meta = SecMeta sec, Owner = SecOwner sec, ObjBody = SecretBody (SecType sec) (SecData sec)\<rparr>"

record ('o, 'w) kube =
  GetScionNetwork :: "string \<Rightarrow> 'w \<Rightarrow> ScionNetwork result"
  UpdateScionNetwork :: "ScionNetwork \<Rightarrow> 'w \<Rightarrow> ScionNetwork result \<times> 'w"
  StatusUpdate :: "ScionNetwork \<Rightarrow> 'w \<Rightarrow> goerror option \<times> 'w"
  ReadState :: "'w \<Rightarrow> 'o reads"
  GetSecret :: "string \<Rightarrow> 'w \<Rightarrow> Secret result"
  CreateOrUpdate :: "object \<Rightarrow> (object \<Rightarrow> object result) \<Rightarrow> 'w \<Rightarrow> goerror option \<times> 'w"
  ListPods :: "'w \<Rightarrow> Pod list result"
  GetDaemonSet :: "'w \<Rightarrow> DaemonSetState result"

record lib =
  ContainsFinalizer :: "string list \<Rightarrow> string \<Rightarrow> bool"
  AddFinalizer :: "string list \<Rightarrow> string \<Rightarrow> string list"
  RemoveFinalizer :: "string list \<Rightarrow> string \<Rightarrow> string list"
  SetStatusCondition :: "Condition list \<Rightarrow> Condition \<Rightarrow> Condition list"
  SetControllerReference :: "ScionNetwork \<Rightarrow> object \<Rightarrow> object result"
  SelectorMatches :: "string gomap \<Rightarrow> string gomap \<Rightarrow> bool"

section \<open>Documented behaviour\<close>

definition find_cond :: "string \<Rightarrow> Condition list \<Rightarrow> Condition option" where
  "find_cond t cs = find (\<lambda>c. CondType c = t) cs"

definition lib_ok :: "lib \<Rightarrow> bool" where
  "lib_ok lb \<longleftrightarrow>
     (\<forall>fs f. ContainsFinalizer lb fs f \<longleftrightarrow> f \<in> set fs) \<and>
     (\<forall>fs f. set (AddFinalizer lb fs f) = insert f (set fs)) \<and>
     (\<forall>fs f. set (RemoveFinalizer lb fs f) = set fs - {f}) \<and>
     (\<forall>cs c. find_cond (CondType c) (SetStatusCondition lb cs c) = Some c) \<and>
     (\<forall>cs c t. t \<noteq> CondType c \<longrightarrow> find_cond t (SetStatusCondition lb cs c) = find_cond t cs) \<and>
     (\<forall>sn ob ob'. SetControllerReference lb sn ob = Inr ob' \<longrightarrow> ob' = ob\<lparr>Owner := Some (SnName sn)\<rparr>)"

lemma lib_okD:
  assumes "lib_ok lb"
  shows "ContainsFinalizer lb fs f \<longleftrightarrow> f \<in> set fs"
    and "set (AddFinalizer lb fs f) = insert f (set fs)"
    and "set (RemoveFinalizer lb fs f) = set fs - {f}"
    and "find_cond (CondType c) (SetStatusCondition lb cs c) = Some c"
    and "t \<noteq> CondType c \<Longrightarrow> find_cond t (SetStatusCondition lb cs c) = find_cond t cs"
    and "SetControllerReference lb sn ob = Inr ob' \<Longrightarrow> ob' = ob\<lparr>Owner := Some (SnName sn)\<rparr>"
  using assms by (simp_all add: lib_ok_def)

text \<open>
  An object is identified by its kind, namespace and name. \<open>Stored\<close> is what the API server
  holds of the objects, \<open>Resource\<close> what it holds of the custom resource.
\<close>

fun body_kind :: "body \<Rightarrow> string" where
  "body_kind NamespaceBody = ''Namespace''"
| "body_kind ServiceAccountBody = ''ServiceAccount''"
| "body_kind (ClusterRoleBody rs) = ''ClusterRole''"
| "body_kind (ClusterRoleBindingBody r ss) = ''ClusterRoleBinding''"
| "body_kind (DaemonSetBody d) = ''DaemonSet''"
| "body_kind (SCCBody fs) = ''SecurityContextConstraints''"
| "body_kind (SecretBody t d) = ''Secret''"
| "body_kind (ConfigMapBody d) = ''ConfigMap''"

type_synonym object_key = "string \<times> string \<times> string"

definition key_of :: "object \<Rightarrow> object_key" where
  "key_of ob = (body_kind (ObjBody ob), MetaNamespace (Meta ob), MetaName (Meta ob))"

record 'w view =
  Stored :: "'w \<Rightarrow> object_key \<Rightarrow> object option"
  Resource :: "'w \<Rightarrow> ScionNetwork option"

text \<open>
  \<open>CreateOrUpdate\<close> fetches the object, applies the mutation to what it found or, when there is
  none, to the object it was given, and stores the result. An update of a resource that is being
  deleted and has no finalizer left removes it; one that reports an error may have happened. No call touches objects it is not about, and a
  status update touches the status only.
\<close>

definition written :: "'w view \<Rightarrow> ScionNetwork \<Rightarrow> ScionNetwork \<Rightarrow> 'w \<Rightarrow> bool" where
  "written vw sn sn' w' \<longleftrightarrow>
     (Resource vw w' = Some sn' \<or> SnDeletion sn \<noteq> None \<and> SnFinalizers sn = [] \<and> Resource vw w' = None) \<and>
     SnFinalizers sn' = SnFinalizers sn \<and> Spec sn' = Spec sn \<and> SnStatus sn' = SnStatus sn \<and>
     SnName sn' = SnName sn \<and> SnDeletion sn' = SnDeletion sn"

definition update_ok :: "('o, 'w) kube \<Rightarrow> 'w view \<Rightarrow> bool" where
  "update_ok kb vw \<longleftrightarrow>
     (\<forall>nm w sn. GetScionNetwork kb nm w = Inr sn \<longrightarrow> Resource vw w = Some sn) \<and>
     (\<forall>sn w. Stored vw (snd (UpdateScionNetwork kb sn w)) = Stored vw w) \<and>
     (\<forall>sn w sn' w'. UpdateScionNetwork kb sn w = (Inr sn', w') \<longrightarrow> written vw sn sn' w') \<and>
     (\<forall>sn w e w'. UpdateScionNetwork kb sn w = (Inl e, w') \<longrightarrow>
        Resource vw w' = Resource vw w \<or> (\<exists>sn'. written vw sn sn' w'))"

definition status_ok :: "('o, 'w) kube \<Rightarrow> 'w view \<Rightarrow> bool" where
  "status_ok kb vw \<longleftrightarrow>
     (\<forall>sn w. Stored vw (snd (StatusUpdate kb sn w)) = Stored vw w) \<and>
     (\<forall>sn w. map_option SnFinalizers (Resource vw (snd (StatusUpdate kb sn w))) = map_option SnFinalizers (Resource vw w)) \<and>
     (\<forall>sn w w'. StatusUpdate kb sn w = (None, w') \<longrightarrow> map_option SnStatus (Resource vw w') = Some (SnStatus sn))"

definition apply_ok :: "('o, 'w) kube \<Rightarrow> 'w view \<Rightarrow> bool" where
  "apply_ok kb vw \<longleftrightarrow>
     (\<forall>ob f w. Resource vw (snd (CreateOrUpdate kb ob f w)) = Resource vw w) \<and>
     (\<forall>ob f w k. k \<noteq> key_of ob \<longrightarrow> Stored vw (snd (CreateOrUpdate kb ob f w)) k = Stored vw w k) \<and>
     (\<forall>ob f w w'. CreateOrUpdate kb ob f w = (None, w') \<longrightarrow>
        (\<exists>new. f (case Stored vw w (key_of ob) of None \<Rightarrow> ob | Some old \<Rightarrow> old) = Inr new \<and> Stored vw w' (key_of ob) = Some new))"

definition secret_ok :: "('o, 'w) kube \<Rightarrow> 'w view \<Rightarrow> bool" where
  "secret_ok kb vw \<longleftrightarrow>
     (\<forall>nm w sec. GetSecret kb nm w = Inr sec \<longrightarrow>
        Stored vw w (''Secret'', Namespace, nm) = Some (secret_object sec) \<and>
        MetaName (SecMeta sec) = nm \<and> MetaNamespace (SecMeta sec) = Namespace)"

definition kube_ok :: "('o, 'w) kube \<Rightarrow> 'w view \<Rightarrow> bool" where
  "kube_ok kb vw \<longleftrightarrow> update_ok kb vw \<and> status_ok kb vw \<and> secret_ok kb vw \<and> apply_ok kb vw"

lemma kube_ok_update:
  assumes "kube_ok kb vw"
  shows "GetScionNetwork kb nm w = Inr sn \<Longrightarrow> Resource vw w = Some sn"
    and "Stored vw (snd (UpdateScionNetwork kb sn w)) = Stored vw w"
    and "UpdateScionNetwork kb sn w = (Inr sn', w') \<Longrightarrow> written vw sn sn' w'"
    and "UpdateScionNetwork kb sn w = (Inl e, w') \<Longrightarrow> Resource vw w' = Resource vw w \<or> (\<exists>sn'. written vw sn sn' w')"
  using assms by (simp_all add: kube_ok_def update_ok_def)

lemma kube_ok_status:
  assumes "kube_ok kb vw"
  shows "Stored vw (snd (StatusUpdate kb sn w)) = Stored vw w"
    and "map_option SnFinalizers (Resource vw (snd (StatusUpdate kb sn w))) = map_option SnFinalizers (Resource vw w)"
    and "StatusUpdate kb sn w = (None, w') \<Longrightarrow> map_option SnStatus (Resource vw w') = Some (SnStatus sn)"
  using assms by (simp_all add: kube_ok_def status_ok_def)

lemma kube_ok_apply:
  assumes "kube_ok kb vw"
  shows "Resource vw (snd (CreateOrUpdate kb ob f w)) = Resource vw w"
    and "k \<noteq> key_of ob \<Longrightarrow> Stored vw (snd (CreateOrUpdate kb ob f w)) k = Stored vw w k"
    and "CreateOrUpdate kb ob f w = (None, w') \<Longrightarrow>
      \<exists>new. f (case Stored vw w (key_of ob) of None \<Rightarrow> ob | Some old \<Rightarrow> old) = Inr new \<and> Stored vw w' (key_of ob) = Some new"
  using assms by (simp_all add: kube_ok_def apply_ok_def del: split_paired_All)

lemma kube_ok_secret:
  assumes "kube_ok kb vw" "GetSecret kb nm w = Inr sec"
  shows "Stored vw w (''Secret'', Namespace, nm) = Some (secret_object sec)"
    and "MetaName (SecMeta sec) = nm" "MetaNamespace (SecMeta sec) = Namespace"
  using assms by (simp_all add: kube_ok_def secret_ok_def)

section \<open>An API server as an example\<close>

definition ex_lib :: lib where
  "ex_lib =
     \<lparr>ContainsFinalizer = (\<lambda>fs f. f \<in> set fs),
      AddFinalizer = (\<lambda>fs f. if f \<in> set fs then fs else fs @ [f]),
      RemoveFinalizer = (\<lambda>fs f. filter (\<lambda>g. g \<noteq> f) fs),
      SetStatusCondition = (\<lambda>cs c. c # filter (\<lambda>d. CondType d \<noteq> CondType c) cs),
      SetControllerReference = (\<lambda>sn ob. Inr (ob\<lparr>Owner := Some (SnName sn)\<rparr>)),
      SelectorMatches = (\<lambda>sel ls. list_all (\<lambda>(k, v). mget ls k = Some v) sel)\<rparr>"

lemma find_filter_other: "t \<noteq> s \<Longrightarrow> find (\<lambda>c. CondType c = t) (filter (\<lambda>d. CondType d \<noteq> s) cs) = find (\<lambda>c. CondType c = t) cs"
  by (induction cs) auto

lemma ex_lib_ok: "lib_ok ex_lib"
  by (auto simp: lib_ok_def ex_lib_def find_cond_def find_filter_other)

text \<open>A world that holds the objects, the custom resource, the nodes and pods, and what was sent to the registrar.\<close>

record kworld =
  ExObjects :: "(object_key \<times> object) list"
  ExResource :: "ScionNetwork option"
  ExNodes :: "ClusterNode list"
  ExPods :: "Pod list"
  ExDaemonSet :: "DaemonSetState result"
  ExPuts :: "string list"

definition ex_view :: "kworld view" where
  "ex_view = \<lparr>Stored = (\<lambda>w. map_of (ExObjects w)), Resource = ExResource\<rparr>"

definition ex_kube :: "(uval, kworld) kube" where
  "ex_kube =
     \<lparr>GetScionNetwork = (\<lambda>nm w. case ExResource w of None \<Rightarrow> Inl (ApiErr RNotFound nm) | Some sn \<Rightarrow> Inr sn),
      UpdateScionNetwork = (\<lambda>sn w. (Inr sn, w\<lparr>ExResource := (if SnDeletion sn \<noteq> None \<and> SnFinalizers sn = [] then None else Some sn)\<rparr>)),
      StatusUpdate = (\<lambda>sn w. case ExResource w of
          None \<Rightarrow> (Some (ApiErr RNotFound ''scionnetwork''), w)
        | Some old \<Rightarrow> (None, w\<lparr>ExResource := Some (old\<lparr>SnStatus := SnStatus sn\<rparr>)\<rparr>)),
      ReadState = (\<lambda>w. ex_reads (ExNodes w)),
      GetSecret = (\<lambda>nm w. case map_of (ExObjects w) (''Secret'', Namespace, nm) of
          Some ob \<Rightarrow> (case ObjBody ob of
              SecretBody t d \<Rightarrow>
                (if MetaName (Meta ob) = nm \<and> MetaNamespace (Meta ob) = Namespace
                 then Inr \<lparr>SecMeta = Meta ob, SecOwner = Owner ob, SecType = t, SecData = d\<rparr> else Inl (Err ''name''))
            | _ \<Rightarrow> Inl (Err ''kind''))
        | None \<Rightarrow> Inl (ApiErr RNotFound nm)),
      CreateOrUpdate = (\<lambda>ob f w.
         case f (case map_of (ExObjects w) (key_of ob) of None \<Rightarrow> ob | Some old \<Rightarrow> old) of
           Inl e \<Rightarrow> (Some e, w)
         | Inr new \<Rightarrow> (None, w\<lparr>ExObjects := (key_of ob, new) # ExObjects w\<rparr>)),
      ListPods = (\<lambda>w. Inr (ExPods w)),
      GetDaemonSet = ExDaemonSet\<rparr>"

lemma ex_kube_ok: "kube_ok ex_kube ex_view"
  by (auto simp: kube_ok_def update_ok_def written_def status_ok_def secret_ok_def secret_object_def apply_ok_def ex_kube_def ex_view_def split: option.splits sum.splits body.splits if_splits)

end
