(* ===== verification/Apply.thy ===== *)
theory Apply
  imports Operator_Api
begin

text \<open>
  Applying the managed objects: \<open>applyObject\<close>, \<open>apply\<close> and the serving certificate of the
  metrics endpoint (\<open>controller/metrics_tls.go\<close>). The operations of \<open>crypto/x509\<close> and
  \<open>encoding/pem\<close> are parameters (record \<open>x509\<close>) with their documented laws \<open>x509_ok\<close>. Times are
  in nanoseconds; the readings of the clock within one call are one reading.
\<close>

section \<open>One object\<close>

definition applyObject ::
  "lib \<Rightarrow> ('o, 'w) kube \<Rightarrow> ScionNetwork \<Rightarrow> object \<Rightarrow> (object \<Rightarrow> object result) \<Rightarrow> 'w \<Rightarrow> goerror option \<times> 'w" where
  "applyObject lb kb sn ob mutate w = CreateOrUpdate kb ob (\<lambda>o'. rbind (SetControllerReference lb sn o') mutate) w"

definition applyObjectNoOwner :: "('o, 'w) kube \<Rightarrow> object \<Rightarrow> (object \<Rightarrow> object result) \<Rightarrow> 'w \<Rightarrow> goerror option \<times> 'w" where
  "applyObjectNoOwner kb ob mutate w = CreateOrUpdate kb ob mutate w"

text \<open>\<open>if err := r; err != nil { return t: err }\<close> followed by \<open>k\<close>; an empty \<open>t\<close> returns the error as it is.\<close>

definition or_fail :: "goerror option \<times> 'w \<Rightarrow> string \<Rightarrow> ('w \<Rightarrow> goerror option \<times> 'w) \<Rightarrow> goerror option \<times> 'w" where
  "or_fail r t k = (case r of (Some e, w) \<Rightarrow> (Some (if t = [] then e else Wrap t e), w) | (None, w) \<Rightarrow> k w)"

section \<open>The metrics certificate\<close>

record Certificate =
  CertSerial :: int
  CommonName :: string
  NotBefore :: int
  NotAfter :: int
  IsCA :: bool
  KeyUsage :: string
  ExtKeyUsage :: "string list"
  BasicConstraintsValid :: bool
  MaxPathLenZero :: bool
  DNSNames :: "string list"

record x509 =
  pemDecode :: "string \<Rightarrow> string option"
  pemEncode :: "string \<Rightarrow> string \<Rightarrow> string"
  ParseCertificate :: "string \<Rightarrow> Certificate result"
  VerifyHostname :: "Certificate \<Rightarrow> string \<Rightarrow> goerror option"
  GenerateKey :: "nat \<Rightarrow> string result"
  PublicKey :: "string \<Rightarrow> string"
  CreateCertificate :: "Certificate \<Rightarrow> Certificate \<Rightarrow> string \<Rightarrow> string \<Rightarrow> string result"
  MarshalECPrivateKey :: "string \<Rightarrow> string result"

definition metricsCAConfigMap :: string where "metricsCAConfigMap = ''scion-node-agent-metrics-ca''"

definition second_ns :: int where "second_ns = 10 ^ 9"
definition day_ns :: int where "day_ns = 24 * 3600 * second_ns"

definition metricsCertValidity :: int where "metricsCertValidity = 365 * day_ns"
definition metricsCertRenewBefore :: int where "metricsCertRenewBefore = 30 * day_ns"

definition metricsServiceDNS :: "string list" where
  "metricsServiceDNS =
     [''scion-node-agent-metrics.'' @ Namespace @ ''.svc'', ''scion-node-agent-metrics.'' @ Namespace @ ''.svc.cluster.local'']"

definition metricsCertUsable :: "x509 \<Rightarrow> int \<Rightarrow> string \<Rightarrow> bool" where
  "metricsCertUsable x now certPEM =
     (case pemDecode x certPEM of
        None \<Rightarrow> False
      | Some block \<Rightarrow>
          (case ParseCertificate x block of
             Inl e \<Rightarrow> False
           | Inr cert \<Rightarrow>
               (if now + metricsCertRenewBefore > NotAfter cert then False
                else VerifyHostname x cert (hd metricsServiceDNS) = None)))"

definition ca_template :: "int \<Rightarrow> Certificate" where
  "ca_template now =
     \<lparr>CertSerial = now, CommonName = ''scion-node-agent-metrics-ca'',
      NotBefore = now - 300 * second_ns, NotAfter = now + metricsCertValidity, IsCA = True,
      KeyUsage = ''CertSign'', ExtKeyUsage = [], BasicConstraintsValid = True, MaxPathLenZero = True, DNSNames = []\<rparr>"

definition leaf_template :: "int \<Rightarrow> Certificate" where
  "leaf_template now =
     \<lparr>CertSerial = now + 1, CommonName = hd metricsServiceDNS,
      NotBefore = now - 300 * second_ns, NotAfter = now + metricsCertValidity, IsCA = False,
      KeyUsage = ''DigitalSignature'', ExtKeyUsage = [''ServerAuth''], BasicConstraintsValid = False, MaxPathLenZero = False,
      DNSNames = metricsServiceDNS\<rparr>"

definition generateMetricsCert :: "x509 \<Rightarrow> int \<Rightarrow> (string \<times> string \<times> string) result" where
  "generateMetricsCert x now =
     rbind (GenerateKey x 0) (\<lambda>caKey.
     rbind (CreateCertificate x (ca_template now) (ca_template now) (PublicKey x caKey) caKey) (\<lambda>caDER.
     rbind (ParseCertificate x caDER) (\<lambda>caCert.
     rbind (GenerateKey x 1) (\<lambda>leafKey.
     rbind (CreateCertificate x (leaf_template now) caCert (PublicKey x leafKey) caKey) (\<lambda>leafDER.
     rbind (MarshalECPrivateKey x leafKey) (\<lambda>keyDER.
       Inr (pemEncode x ''CERTIFICATE'' leafDER, pemEncode x ''EC PRIVATE KEY'' keyDER, pemEncode x ''CERTIFICATE'' caDER)))))))"

definition tls_type :: string where "tls_type = ''kubernetes.io/tls''"

definition empty_secret :: Secret where
  "empty_secret =
     \<lparr>SecMeta = \<lparr>MetaName = metricsTLSSecret, MetaNamespace = Namespace, MetaLabels = []\<rparr>, SecOwner = None, SecType = [], SecData = []\<rparr>"

definition ca_object :: object where
  "ca_object =
     \<lparr>Meta = \<lparr>MetaName = metricsCAConfigMap, MetaNamespace = Namespace, MetaLabels = []\<rparr>, Owner = None, ObjBody = ConfigMapBody []\<rparr>"

definition tls_data :: "string \<Rightarrow> string \<Rightarrow> string \<Rightarrow> string gomap" where
  "tls_data cert key ca = mputs [(''tls.crt'', cert), (''tls.key'', key), (''ca.crt'', ca)] []"

definition data_key :: "string gomap \<Rightarrow> string \<Rightarrow> string" where
  "data_key m k = (case mget m k of None \<Rightarrow> [] | Some v \<Rightarrow> v)"

definition ensureMetricsTLS :: "lib \<Rightarrow> ('o, 'w) kube \<Rightarrow> x509 \<Rightarrow> int \<Rightarrow> ScionNetwork \<Rightarrow> 'w \<Rightarrow> goerror option \<times> 'w" where
  "ensureMetricsTLS lb kb x now sn w =
     (let stored = GetSecret kb metricsTLSSecret w;
          secret = (case stored of Inl e \<Rightarrow> empty_secret | Inr sec \<Rightarrow> sec)
      in if is_ok stored \<and> metricsCertUsable x now (data_key (SecData secret) ''tls.crt'') then (None, w)
         else (case generateMetricsCert x now of
             Inl e \<Rightarrow> (Some (Wrap ''generate metrics serving certificate'' e), w)
           | Inr (certPEM, keyPEM, caPEM) \<Rightarrow>
               or_fail (applyObject lb kb sn (secret_object (secret\<lparr>SecType := tls_type\<rparr>))
                   (\<lambda>ob. Inr (ob\<lparr>ObjBody := SecretBody tls_type (tls_data certPEM keyPEM caPEM)\<rparr>)) w)
                 ''apply metrics TLS secret'' (\<lambda>w.
               or_fail (applyObject lb kb sn ca_object
                   (\<lambda>ob. Inr (ob\<lparr>ObjBody := ConfigMapBody [(''ca.crt'', caPEM)]\<rparr>)) w)
                 ''apply metrics CA configmap'' (\<lambda>w. (None, w)))))"

section \<open>All objects\<close>

record Reconciler =
  AgentImage :: string
  SCCAvail :: bool

definition merge_labels :: "string gomap \<Rightarrow> object \<Rightarrow> object" where
  "merge_labels want ob = ob\<lparr>Meta := (Meta ob)\<lparr>MetaLabels := mputs want (MetaLabels (Meta ob))\<rparr>\<rparr>"

fun set_subjects :: "Subject list \<Rightarrow> body \<Rightarrow> body" where
  "set_subjects ss (ClusterRoleBindingBody ref old) = ClusterRoleBindingBody ref ss"
| "set_subjects ss b = b"

fun put_fields :: "uval gomap \<Rightarrow> body \<Rightarrow> body" where
  "put_fields want (SCCBody old) = SCCBody (mputs want old)"
| "put_fields want b = b"

definition apply_namespace :: "('o, 'w) kube \<Rightarrow> 'w \<Rightarrow> goerror option \<times> 'w" where
  "apply_namespace kb w =
     applyObjectNoOwner kb NamespaceObj (\<lambda>ob. Inr (merge_labels (MetaLabels (Meta NamespaceObj)) ob)) w"

definition apply_tls :: "lib \<Rightarrow> ('o, 'w) kube \<Rightarrow> x509 \<Rightarrow> int \<Rightarrow> ScionNetwork \<Rightarrow> bool \<Rightarrow> 'w \<Rightarrow> goerror option \<times> 'w" where
  "apply_tls lb kb x now sn openshift w = (if \<not> openshift then ensureMetricsTLS lb kb x now sn w else (None, w))"

definition apply_serviceaccount :: "lib \<Rightarrow> ('o, 'w) kube \<Rightarrow> ScionNetwork \<Rightarrow> 'w \<Rightarrow> goerror option \<times> 'w" where
  "apply_serviceaccount lb kb sn w = applyObject lb kb sn ServiceAccount (\<lambda>ob. Inr ob) w"

definition apply_clusterrole :: "lib \<Rightarrow> ('o, 'w) kube \<Rightarrow> ScionNetwork \<Rightarrow> 'w \<Rightarrow> goerror option \<times> 'w" where
  "apply_clusterrole lb kb sn w =
     applyObject lb kb sn ClusterRole (\<lambda>ob. Inr (ob\<lparr>ObjBody := ObjBody ClusterRole\<rparr>)) w"

definition apply_binding :: "lib \<Rightarrow> ('o, 'w) kube \<Rightarrow> ScionNetwork \<Rightarrow> 'w \<Rightarrow> goerror option \<times> 'w" where
  "apply_binding lb kb sn w =
     applyObject lb kb sn ClusterRoleBinding (\<lambda>ob. Inr (ob\<lparr>ObjBody := set_subjects agent_subjects (ObjBody ob)\<rparr>)) w"

definition apply_daemonset :: "lib \<Rightarrow> ('o, 'w) kube \<Rightarrow> ScionNetwork \<Rightarrow> string \<Rightarrow> string list \<Rightarrow> 'w \<Rightarrow> goerror option \<times> 'w" where
  "apply_daemonset lb kb sn img forbidden w =
     (let want = DaemonSet sn img forbidden True
      in applyObject lb kb sn want (\<lambda>ob. Inr ((merge_labels (MetaLabels (Meta want)) ob)\<lparr>ObjBody := ObjBody want\<rparr>)) w)"

definition apply_scc :: "lib \<Rightarrow> ('o, 'w) kube \<Rightarrow> Reconciler \<Rightarrow> ScionNetwork \<Rightarrow> 'w \<Rightarrow> goerror option \<times> 'w" where
  "apply_scc lb kb rc sn w =
     (if SCCAvail rc
      then applyObject lb kb sn SCC
        (\<lambda>ob. Inr (ob\<lparr>ObjBody := put_fields (filter (\<lambda>(k, v). k \<noteq> ''metadata'') (mputs scc_fields [])) (ObjBody ob)\<rparr>)) w
      else (None, w))"

definition apply_all ::
  "lib \<Rightarrow> ('o, 'w) kube \<Rightarrow> x509 \<Rightarrow> Reconciler \<Rightarrow> int \<Rightarrow> ScionNetwork \<Rightarrow> string \<Rightarrow> string list \<Rightarrow> bool \<Rightarrow> 'w \<Rightarrow> goerror option \<times> 'w" where
  "apply_all lb kb x rc now sn img forbidden openshift w =
     or_fail (apply_namespace kb w) ''apply namespace'' (\<lambda>w.
     or_fail (apply_tls lb kb x now sn openshift w) [] (\<lambda>w.
     or_fail (apply_serviceaccount lb kb sn w) ''apply serviceaccount'' (\<lambda>w.
     or_fail (apply_clusterrole lb kb sn w) ''apply clusterrole'' (\<lambda>w.
     or_fail (apply_binding lb kb sn w) ''apply clusterrolebinding'' (\<lambda>w.
     or_fail (apply_daemonset lb kb sn img forbidden w) ''apply daemonset'' (\<lambda>w.
     or_fail (apply_scc lb kb rc sn w) ''apply scc'' (\<lambda>w. (None, w))))))))"

section \<open>Steps\<close>

lemma or_fail_None: "or_fail r t k = (None, w') \<longleftrightarrow> (\<exists>w. r = (None, w) \<and> k w = (None, w'))"
  by (auto simp: or_fail_def split: prod.splits option.splits)

lemma or_fail_simps [simp]:
  "or_fail (None, w) t k = k w" "or_fail (Some e, w) t k = (Some (if t = [] then e else Wrap t e), w)"
  by (simp_all add: or_fail_def)

lemma or_fail_keeps:
  assumes "P (snd r)" "\<And>w. P w \<Longrightarrow> P (snd (k w))"
  shows "P (snd (or_fail r t k))"
  using assms by (auto simp: or_fail_def split: prod.splits option.splits)

lemma applyObject_frame:
  assumes "kube_ok kb vw"
  shows "Resource vw (snd (applyObject lb kb sn ob f w)) = Resource vw w"
    and "k \<noteq> key_of ob \<Longrightarrow> Stored vw (snd (applyObject lb kb sn ob f w)) k = Stored vw w k"
  by (simp_all add: applyObject_def kube_ok_apply [OF assms])

lemma applyObject_ok:
  assumes "kube_ok kb vw" "lib_ok lb" "applyObject lb kb sn ob (\<lambda>o'. Inr (g o')) w = (None, w')"
  shows "Stored vw w' (key_of ob) =
    Some (g ((case Stored vw w (key_of ob) of None \<Rightarrow> ob | Some old \<Rightarrow> old)\<lparr>Owner := Some (SnName sn)\<rparr>))"
  using kube_ok_apply(3) [OF assms(1) assms(3) [unfolded applyObject_def]]
  by (auto simp: rbind_Inr_iff dest: lib_okD(6) [OF assms(2)])

lemma key_of_simps [simp]:
  "key_of NamespaceObj = (''Namespace'', [], Namespace)"
  "key_of ca_object = (''ConfigMap'', Namespace, metricsCAConfigMap)"
  "key_of ServiceAccount = (''ServiceAccount'', Namespace, agentName)"
  "key_of ClusterRole = (''ClusterRole'', [], agentName)"
  "key_of ClusterRoleBinding = (''ClusterRoleBinding'', [], agentName)"
  "key_of (DaemonSet sn img forb tls) = (''DaemonSet'', Namespace, agentName)"
  "key_of SCC = (''SecurityContextConstraints'', [], agentName)"
  by (simp_all add: key_of_def NamespaceObj_def ca_object_def ServiceAccount_def ClusterRole_def
      ClusterRoleBinding_def DaemonSet_def SCC_def)

lemma Owner_NamespaceObj: "Owner NamespaceObj = None"
  by (simp add: NamespaceObj_def)

section \<open>The certificate stays usable\<close>

definition x509_ok :: "x509 \<Rightarrow> bool" where
  "x509_ok x \<longleftrightarrow>
     (\<forall>t b. pemDecode x (pemEncode x t b) = Some b) \<and>
     (\<forall>tpl parent pub key der. CreateCertificate x tpl parent pub key = Inr der \<longrightarrow>
        (\<exists>c. ParseCertificate x der = Inr c \<and> DNSNames c = DNSNames tpl \<and>
           NotAfter tpl - second_ns < NotAfter c \<and> NotAfter c \<le> NotAfter tpl)) \<and>
     (\<forall>c h. h \<in> set (DNSNames c) \<longrightarrow> VerifyHostname x c h = None)"

lemma generated_usable:
  assumes "x509_ok x" "generateMetricsCert x now = Inr (certPEM, keyPEM, caPEM)"
    and "later + metricsCertRenewBefore + second_ns \<le> now + metricsCertValidity"
  shows "metricsCertUsable x later certPEM"
proof -
  obtain caCert leafKey caKey leafDER where
    l: "CreateCertificate x (leaf_template now) caCert (PublicKey x leafKey) caKey = Inr leafDER"
    and pem: "certPEM = pemEncode x ''CERTIFICATE'' leafDER"
    using assms(2) by (auto simp: generateMetricsCert_def rbind_Inr_iff)
  from l assms(1) obtain c where c: "ParseCertificate x leafDER = Inr c" "DNSNames c = metricsServiceDNS"
    "now + metricsCertValidity - second_ns < NotAfter c"
    unfolding x509_ok_def by (fastforce simp: leaf_template_def)
  have "pemDecode x certPEM = Some leafDER" using assms(1) by (simp add: x509_ok_def pem)
  moreover have "VerifyHostname x c (hd metricsServiceDNS) = None"
    using assms(1) c(2) by (simp add: x509_ok_def metricsServiceDNS_def)
  ultimately show ?thesis using c assms(3) by (simp add: metricsCertUsable_def)
qed

lemma tls_data_crt [simp]: "data_key (tls_data cert key ca) ''tls.crt'' = cert"
  by (simp add: tls_data_def data_key_def mputs_def mget_def)

definition metrics_key :: object_key where
  "metrics_key = (''Secret'', Namespace, metricsTLSSecret)"

definition metrics_name :: "Secret \<Rightarrow> bool" where
  "metrics_name sec \<longleftrightarrow> MetaName (SecMeta sec) = metricsTLSSecret \<and> MetaNamespace (SecMeta sec) = Namespace"

lemma key_of_secret: "metrics_name sec \<Longrightarrow> key_of (secret_object sec) = metrics_key"
  by (simp add: key_of_def secret_object_def metrics_name_def metrics_key_def)

text \<open>The paths of \<open>ensureMetricsTLS\<close>; \<open>sec\<close> is the secret that is passed on.\<close>

lemma ensureMetricsTLS_cases [case_names usable failed issued]:
  assumes "kube_ok kb vw"
  obtains (usable) sec where "GetSecret kb metricsTLSSecret w = Inr sec" "metricsCertUsable x now (data_key (SecData sec) ''tls.crt'')"
      "ensureMetricsTLS lb kb x now sn w = (None, w)"
  | (failed) e where "generateMetricsCert x now = Inl e"
      "ensureMetricsTLS lb kb x now sn w = (Some (Wrap ''generate metrics serving certificate'' e), w)"
  | (issued) sec certPEM keyPEM caPEM where "generateMetricsCert x now = Inr (certPEM, keyPEM, caPEM)" "metrics_name sec"
      "ensureMetricsTLS lb kb x now sn w =
         or_fail (applyObject lb kb sn (secret_object sec)
             (\<lambda>ob. Inr (ob\<lparr>ObjBody := SecretBody tls_type (tls_data certPEM keyPEM caPEM)\<rparr>)) w) ''apply metrics TLS secret'' (\<lambda>w.
         or_fail (applyObject lb kb sn ca_object (\<lambda>ob. Inr (ob\<lparr>ObjBody := ConfigMapBody [(''ca.crt'', caPEM)]\<rparr>)) w)
             ''apply metrics CA configmap'' (\<lambda>w. (None, w)))"
proof (cases "\<exists>sec. GetSecret kb metricsTLSSecret w = Inr sec \<and> metricsCertUsable x now (data_key (SecData sec) ''tls.crt'')")
  case True
  then show thesis using usable by (auto simp: ensureMetricsTLS_def)
next
  case False
  define sec where "sec = (case GetSecret kb metricsTLSSecret w of Inl e \<Rightarrow> empty_secret | Inr sec \<Rightarrow> sec)\<lparr>SecType := tls_type\<rparr>"
  have "metrics_name sec"
    using kube_ok_secret(2,3) [OF assms, of metricsTLSSecret w]
    by (cases "GetSecret kb metricsTLSSecret w") (simp_all add: sec_def metrics_name_def empty_secret_def)
  moreover have "\<not> (is_ok (GetSecret kb metricsTLSSecret w) \<and> metricsCertUsable x now (data_key (SecData
      (case GetSecret kb metricsTLSSecret w of Inl e \<Rightarrow> empty_secret | Inr sec \<Rightarrow> sec)) ''tls.crt''))"
    using False by (cases "GetSecret kb metricsTLSSecret w") auto
  ultimately show thesis
    using failed issued [of _ _ _ sec]
    by (cases "generateMetricsCert x now") (auto simp: ensureMetricsTLS_def Let_def sec_def)
qed

lemma ensureMetricsTLS_frame:
  assumes "kube_ok kb vw"
  shows "Resource vw (snd (ensureMetricsTLS lb kb x now sn w)) = Resource vw w"
    and "k \<noteq> metrics_key \<Longrightarrow> k \<noteq> (''ConfigMap'', Namespace, metricsCAConfigMap) \<Longrightarrow>
      Stored vw (snd (ensureMetricsTLS lb kb x now sn w)) k = Stored vw w k"
proof -
  show "Resource vw (snd (ensureMetricsTLS lb kb x now sn w)) = Resource vw w"
    using assms
    by (cases rule: ensureMetricsTLS_cases [where kb = kb and lb = lb and x = x and now = now and sn = sn and w = w])
      (auto simp: applyObject_frame(1) [OF assms] intro!: or_fail_keeps [where P = "\<lambda>w'. Resource vw w' = Resource vw w"])
  assume k: "k \<noteq> metrics_key" "k \<noteq> (''ConfigMap'', Namespace, metricsCAConfigMap)"
  show "Stored vw (snd (ensureMetricsTLS lb kb x now sn w)) k = Stored vw w k"
    using assms
  proof (cases rule: ensureMetricsTLS_cases [where kb = kb and lb = lb and x = x and now = now and sn = sn and w = w])
    case (issued sec certPEM keyPEM caPEM)
    then show ?thesis
      using k by (auto simp: applyObject_frame(2) [OF assms] key_of_secret
          intro!: or_fail_keeps [where P = "\<lambda>w'. Stored vw w' k = Stored vw w k"])
  qed simp_all
qed

definition secret_usable :: "x509 \<Rightarrow> 'w view \<Rightarrow> int \<Rightarrow> 'w \<Rightarrow> bool" where
  "secret_usable x vw now w \<longleftrightarrow>
     (\<exists>ob t d. Stored vw w metrics_key = Some ob \<and> ObjBody ob = SecretBody t d \<and> metricsCertUsable x now (data_key d ''tls.crt''))"

lemma issued_secret:
  assumes "kube_ok kb vw" "lib_ok lb" "x509_ok x" "generateMetricsCert x now = Inr (certPEM, keyPEM, caPEM)" "metrics_name sec"
    and "applyObject lb kb sn (secret_object sec) (\<lambda>ob. Inr (ob\<lparr>ObjBody := SecretBody tls_type (tls_data certPEM keyPEM caPEM)\<rparr>)) w = (None, w1)"
    and "later + metricsCertRenewBefore + second_ns \<le> now + metricsCertValidity"
  shows "secret_usable x vw later (snd (applyObject lb kb sn ca_object f w1))"
proof -
  have "Stored vw (snd (applyObject lb kb sn ca_object f w1)) metrics_key = Stored vw w1 metrics_key"
    by (rule applyObject_frame(2) [OF assms(1)]) (simp add: metrics_key_def)
  then show ?thesis
    using applyObject_ok [OF assms(1,2,6)] generated_usable [OF assms(3,4,7)] by (auto simp: secret_usable_def key_of_secret [OF assms(5)])
qed

lemma validity_exceeds: "now + metricsCertRenewBefore + second_ns \<le> now + metricsCertValidity"
  by (simp add: metricsCertRenewBefore_def metricsCertValidity_def day_ns_def second_ns_def)

lemma ensure_usable:
  assumes "kube_ok kb vw" "lib_ok lb" "x509_ok x" "ensureMetricsTLS lb kb x now sn w = (None, w')"
  shows "secret_usable x vw now w'"
  using assms(1)
proof (cases rule: ensureMetricsTLS_cases [where kb = kb and lb = lb and x = x and now = now and sn = sn and w = w])
  case (usable sec)
  then show ?thesis
    using assms(4) kube_ok_secret(1) [OF assms(1) usable(1)] by (simp add: secret_usable_def metrics_key_def secret_object_def)
next
  case (issued sec certPEM keyPEM caPEM)
  let ?f = "\<lambda>ob. Inr (ob\<lparr>ObjBody := ConfigMapBody [(''ca.crt'', caPEM)]\<rparr>)"
  obtain w1 where w1: "applyObject lb kb sn (secret_object sec)
      (\<lambda>ob. Inr (ob\<lparr>ObjBody := SecretBody tls_type (tls_data certPEM keyPEM caPEM)\<rparr>)) w = (None, w1)"
    "applyObject lb kb sn ca_object ?f w1 = (None, w')"
    using assms(4) unfolding issued(3) or_fail_None by auto
  from issued_secret [OF assms(1-3) issued(1,2) w1(1) validity_exceeds, of ?f] w1(2) show ?thesis by simp
qed (use assms(4) in simp)

text \<open>
  Once the secret is stored, a failure to publish the CA certificate is not made up for: later
  calls find a usable certificate and return before the ConfigMap.
\<close>

lemma ca_not_retried:
  assumes "kube_ok kb vw" "lib_ok lb" "x509_ok x"
    and "\<And>w ob. Stored vw w metrics_key = Some ob \<Longrightarrow> \<exists>sec. GetSecret kb metricsTLSSecret w = Inr sec"
    and "ensureMetricsTLS lb kb x now sn w = (Some (Wrap ''apply metrics CA configmap'' e), w1)"
    and "later + metricsCertRenewBefore + second_ns \<le> now + metricsCertValidity"
  shows "ensureMetricsTLS lb kb x later sn w1 = (None, w1)"
proof -
  have "secret_usable x vw later w1"
    using assms(1)
  proof (cases rule: ensureMetricsTLS_cases [where kb = kb and lb = lb and x = x and now = now and sn = sn and w = w])
    case (issued sec certPEM keyPEM caPEM)
    let ?f = "\<lambda>ob. Inr (ob\<lparr>ObjBody := ConfigMapBody [(''ca.crt'', caPEM)]\<rparr>)"
    obtain w0 where w0: "applyObject lb kb sn (secret_object sec)
        (\<lambda>ob. Inr (ob\<lparr>ObjBody := SecretBody tls_type (tls_data certPEM keyPEM caPEM)\<rparr>)) w = (None, w0)"
      "snd (applyObject lb kb sn ca_object ?f w0) = w1"
      using assms(5) issued(3) by (auto simp: or_fail_def split: prod.splits option.splits)
    from issued_secret [OF assms(1-3) issued(1,2) w0(1) assms(6), of ?f] w0(2) show ?thesis by simp
  qed (use assms(5) in simp_all)
  then obtain ob t d where u: "Stored vw w1 metrics_key = Some ob" "ObjBody ob = SecretBody t d"
    "metricsCertUsable x later (data_key d ''tls.crt'')" by (auto simp: secret_usable_def)
  from assms(4) [OF u(1)] obtain sec where sec: "GetSecret kb metricsTLSSecret w1 = Inr sec" by blast
  then have "SecData sec = d" using kube_ok_secret(1) [OF assms(1) sec] u by (auto simp: metrics_key_def secret_object_def)
  then show ?thesis using sec u(3) by (simp add: ensureMetricsTLS_def)
qed

section \<open>The objects after a successful run\<close>

lemma mputs_has: "map_ok m \<Longrightarrow> map_ok es \<Longrightarrow> (k, v) \<in> set es \<Longrightarrow> mget (mputs es m) k = Some v"
  by (simp add: mget_mputs_ok mget_set [symmetric])

lemma apply_all_steps:
  assumes "apply_all lb kb x rc now sn img forb openshift w = (None, w')"
  obtains w1 w2 w3 w4 w5 w6 where "apply_namespace kb w = (None, w1)" "apply_tls lb kb x now sn openshift w1 = (None, w2)"
    "apply_serviceaccount lb kb sn w2 = (None, w3)" "apply_clusterrole lb kb sn w3 = (None, w4)"
    "apply_binding lb kb sn w4 = (None, w5)" "apply_daemonset lb kb sn img forb w5 = (None, w6)" "apply_scc lb kb rc sn w6 = (None, w')"
  using assms unfolding apply_all_def or_fail_None by auto

text \<open>No step touches another step's objects, nor the custom resource.\<close>

lemma apply_frames:
  assumes "kube_ok kb vw"
  shows "k \<noteq> (''Namespace'', [], Namespace) \<Longrightarrow> Stored vw (snd (apply_namespace kb w)) k = Stored vw w k"
    "k \<noteq> metrics_key \<Longrightarrow> k \<noteq> (''ConfigMap'', Namespace, metricsCAConfigMap) \<Longrightarrow>
      Stored vw (snd (apply_tls lb kb x now sn openshift w)) k = Stored vw w k"
    "k \<noteq> (''ServiceAccount'', Namespace, agentName) \<Longrightarrow> Stored vw (snd (apply_serviceaccount lb kb sn w)) k = Stored vw w k"
    "k \<noteq> (''ClusterRole'', [], agentName) \<Longrightarrow> Stored vw (snd (apply_clusterrole lb kb sn w)) k = Stored vw w k"
    "k \<noteq> (''ClusterRoleBinding'', [], agentName) \<Longrightarrow> Stored vw (snd (apply_binding lb kb sn w)) k = Stored vw w k"
    "k \<noteq> (''DaemonSet'', Namespace, agentName) \<Longrightarrow> Stored vw (snd (apply_daemonset lb kb sn img forb w)) k = Stored vw w k"
    "k \<noteq> (''SecurityContextConstraints'', [], agentName) \<Longrightarrow> Stored vw (snd (apply_scc lb kb rc sn w)) k = Stored vw w k"
  by (simp_all add: apply_namespace_def applyObjectNoOwner_def apply_tls_def apply_serviceaccount_def apply_clusterrole_def
      apply_binding_def apply_daemonset_def apply_scc_def Let_def kube_ok_apply [OF assms] applyObject_frame [OF assms]
      ensureMetricsTLS_frame [OF assms])

lemma apply_resource:
  assumes "kube_ok kb vw"
  shows "Resource vw (snd (apply_namespace kb w)) = Resource vw w"
    "Resource vw (snd (apply_tls lb kb x now sn openshift w)) = Resource vw w"
    "Resource vw (snd (apply_serviceaccount lb kb sn w)) = Resource vw w"
    "Resource vw (snd (apply_clusterrole lb kb sn w)) = Resource vw w"
    "Resource vw (snd (apply_binding lb kb sn w)) = Resource vw w"
    "Resource vw (snd (apply_daemonset lb kb sn img forb w)) = Resource vw w"
    "Resource vw (snd (apply_scc lb kb rc sn w)) = Resource vw w"
  by (simp_all add: apply_namespace_def applyObjectNoOwner_def apply_tls_def apply_serviceaccount_def apply_clusterrole_def
      apply_binding_def apply_daemonset_def apply_scc_def Let_def kube_ok_apply [OF assms] applyObject_frame [OF assms]
      ensureMetricsTLS_frame [OF assms])

lemma apply_all_resource:
  assumes "kube_ok kb vw"
  shows "Resource vw (snd (apply_all lb kb x rc now sn img forb openshift w)) = Resource vw w"
  unfolding apply_all_def
  by (intro or_fail_keeps [where P = "\<lambda>w'. Resource vw w' = Resource vw w"]) (simp_all add: apply_resource [OF assms])

lemma apply_effects:
  assumes "kube_ok kb vw" "lib_ok lb"
  shows "apply_namespace kb w = (None, w') \<Longrightarrow> \<exists>ns. Stored vw w' (''Namespace'', [], Namespace) = Some ns \<and>
      Owner ns = (case Stored vw w (''Namespace'', [], Namespace) of None \<Rightarrow> None | Some old \<Rightarrow> Owner old)"
    "apply_serviceaccount lb kb sn w = (None, w') \<Longrightarrow> \<exists>sa. Stored vw w' (''ServiceAccount'', Namespace, agentName) = Some sa \<and> Owner sa = Some (SnName sn)"
    "apply_clusterrole lb kb sn w = (None, w') \<Longrightarrow>
      \<exists>cr. Stored vw w' (''ClusterRole'', [], agentName) = Some cr \<and> ObjBody cr = ClusterRoleBody agent_rules \<and> Owner cr = Some (SnName sn)"
    "apply_daemonset lb kb sn img forb w = (None, w') \<Longrightarrow> \<exists>ds. Stored vw w' (''DaemonSet'', Namespace, agentName) = Some ds \<and>
      ObjBody ds = ObjBody (DaemonSet sn img forb True) \<and> Owner ds = Some (SnName sn)"
proof -
  show "apply_namespace kb w = (None, w') \<Longrightarrow> \<exists>ns. Stored vw w' (''Namespace'', [], Namespace) = Some ns \<and>
      Owner ns = (case Stored vw w (''Namespace'', [], Namespace) of None \<Rightarrow> None | Some old \<Rightarrow> Owner old)"
    unfolding apply_namespace_def applyObjectNoOwner_def
    by (drule kube_ok_apply(3) [OF assms(1)]) (auto simp: merge_labels_def Owner_NamespaceObj split: option.split)
  show "apply_serviceaccount lb kb sn w = (None, w') \<Longrightarrow> \<exists>sa. Stored vw w' (''ServiceAccount'', Namespace, agentName) = Some sa \<and> Owner sa = Some (SnName sn)"
    unfolding apply_serviceaccount_def by (drule applyObject_ok [OF assms]) simp
  show "apply_clusterrole lb kb sn w = (None, w') \<Longrightarrow>
      \<exists>cr. Stored vw w' (''ClusterRole'', [], agentName) = Some cr \<and> ObjBody cr = ClusterRoleBody agent_rules \<and> Owner cr = Some (SnName sn)"
    unfolding apply_clusterrole_def by (drule applyObject_ok [OF assms]) (simp, simp add: ClusterRole_def)
  show "apply_daemonset lb kb sn img forb w = (None, w') \<Longrightarrow> \<exists>ds. Stored vw w' (''DaemonSet'', Namespace, agentName) = Some ds \<and>
      ObjBody ds = ObjBody (DaemonSet sn img forb True) \<and> Owner ds = Some (SnName sn)"
    unfolding apply_daemonset_def Let_def by (drule applyObject_ok [OF assms]) (simp add: merge_labels_def)
qed

lemma apply_installs_ok:
  assumes ok: "kube_ok kb vw" "lib_ok lb" "x509_ok x" and run: "apply_all lb kb x rc now sn img forb openshift w = (None, w')"
  shows "\<exists>ds. Stored vw w' (''DaemonSet'', Namespace, agentName) = Some ds \<and>
      ObjBody ds = ObjBody (DaemonSet sn img forb True) \<and> Owner ds = Some (SnName sn)"
    and "\<exists>cr. Stored vw w' (''ClusterRole'', [], agentName) = Some cr \<and> ObjBody cr = ClusterRoleBody agent_rules \<and> Owner cr = Some (SnName sn)"
    and "\<exists>sa. Stored vw w' (''ServiceAccount'', Namespace, agentName) = Some sa \<and> Owner sa = Some (SnName sn)"
    and "\<exists>ns. Stored vw w' (''Namespace'', [], Namespace) = Some ns \<and>
      Owner ns = (case Stored vw w (''Namespace'', [], Namespace) of None \<Rightarrow> None | Some old \<Rightarrow> Owner old)"
    and "\<not> openshift \<Longrightarrow> secret_usable x vw now w'"
proof -
  obtain w1 w2 w3 w4 w5 w6 where s: "apply_namespace kb w = (None, w1)" "apply_tls lb kb x now sn openshift w1 = (None, w2)"
    "apply_serviceaccount lb kb sn w2 = (None, w3)" "apply_clusterrole lb kb sn w3 = (None, w4)"
    "apply_binding lb kb sn w4 = (None, w5)" "apply_daemonset lb kb sn img forb w5 = (None, w6)" "apply_scc lb kb rc sn w6 = (None, w')"
    using run by (rule apply_all_steps)
  note f = apply_frames [OF ok(1)]
  have other: "k \<noteq> (''SecurityContextConstraints'', [], agentName) \<Longrightarrow> Stored vw w' k = Stored vw w6 k"
    "k \<noteq> (''DaemonSet'', Namespace, agentName) \<Longrightarrow> Stored vw w6 k = Stored vw w5 k"
    "k \<noteq> (''ClusterRoleBinding'', [], agentName) \<Longrightarrow> Stored vw w5 k = Stored vw w4 k"
    "k \<noteq> (''ClusterRole'', [], agentName) \<Longrightarrow> Stored vw w4 k = Stored vw w3 k"
    "k \<noteq> (''ServiceAccount'', Namespace, agentName) \<Longrightarrow> Stored vw w3 k = Stored vw w2 k"
    "k \<noteq> metrics_key \<Longrightarrow> k \<noteq> (''ConfigMap'', Namespace, metricsCAConfigMap) \<Longrightarrow>
      Stored vw w2 k = Stored vw w1 k" for k
    using f(7) [of k lb rc sn w6] f(6) [of k lb sn img forb w5] f(5) [of k lb sn w4] f(4) [of k lb sn w3] f(3) [of k lb sn w2]
      f(2) [of k lb x now sn openshift w1] s by simp_all
  note e = apply_effects [OF ok(1,2)]
  show "\<exists>ds. Stored vw w' (''DaemonSet'', Namespace, agentName) = Some ds \<and>
      ObjBody ds = ObjBody (DaemonSet sn img forb True) \<and> Owner ds = Some (SnName sn)"
    using e(4) [OF s(6)] by (simp add: other metrics_key_def)
  show "\<exists>cr. Stored vw w' (''ClusterRole'', [], agentName) = Some cr \<and> ObjBody cr = ClusterRoleBody agent_rules \<and> Owner cr = Some (SnName sn)"
    using e(3) [OF s(4)] by (simp add: other metrics_key_def)
  show "\<exists>sa. Stored vw w' (''ServiceAccount'', Namespace, agentName) = Some sa \<and> Owner sa = Some (SnName sn)"
    using e(2) [OF s(3)] by (simp add: other metrics_key_def)
  show "\<exists>ns. Stored vw w' (''Namespace'', [], Namespace) = Some ns \<and>
      Owner ns = (case Stored vw w (''Namespace'', [], Namespace) of None \<Rightarrow> None | Some old \<Rightarrow> Owner old)"
    using e(1) [OF s(1)] by (simp add: other metrics_key_def)
  show "secret_usable x vw now w'" if "\<not> openshift"
    using ensure_usable [OF ok, of now sn w1 w2] s(2) that by (simp add: secret_usable_def other metrics_key_def apply_tls_def)
qed

text \<open>
  An instance of the certificate operations: a certificate is written as its expiry in seconds
  and its names, one per line.
\<close>

definition ex_x509 :: x509 where
  "ex_x509 =
     \<lparr>pemDecode = (\<lambda>s. if s = [] then None else Some (tl s)),
      pemEncode = (\<lambda>t b. CHR ''-'' # b),
      ParseCertificate = (\<lambda>der. case Split der (CHR 0x0A) of
          [] \<Rightarrow> Inl (Err ''malformed'')
        | t # names \<Rightarrow> Inr \<lparr>CertSerial = 0, CommonName = [], NotBefore = 0, NotAfter = int (atoi_digits t) * second_ns, IsCA = False,
            KeyUsage = [], ExtKeyUsage = [], BasicConstraintsValid = False, MaxPathLenZero = False, DNSNames = names\<rparr>),
      VerifyHostname = (\<lambda>c h. if h \<in> set (DNSNames c) then None else Some (Err ''not valid for host'')),
      GenerateKey = (\<lambda>n. Inr (Itoa n)),
      PublicKey = (\<lambda>k. k),
      CreateCertificate = (\<lambda>tpl parent pub key.
         if list_ex (\<lambda>n. CHR 0x0A \<in> set n) (DNSNames tpl) \<or> NotAfter tpl < 0 then Inl (Err ''x509: invalid template'')
         else Inr (Join (Itoa (nat (NotAfter tpl div second_ns)) # DNSNames tpl) [CHR 0x0A])),
      MarshalECPrivateKey = (\<lambda>k. Inr k)\<rparr>"

lemma Itoa_no_newline: "CHR 0x0A \<notin> set (Itoa n)"
  using Itoa_digits [of n] by (auto simp: is_digit_def)

lemma ex_x509_ok: "x509_ok ex_x509"
proof -
  have "\<exists>c. ParseCertificate ex_x509 der = Inr c \<and> DNSNames c = DNSNames tpl \<and>
      NotAfter tpl - second_ns < NotAfter c \<and> NotAfter c \<le> NotAfter tpl"
    if "CreateCertificate ex_x509 tpl parent pub key = Inr der" for tpl parent pub key der
  proof -
    have tpl: "\<forall>n \<in> set (DNSNames tpl). CHR 0x0A \<notin> set n" "0 \<le> NotAfter tpl"
      and der: "der = Join (Itoa (nat (NotAfter tpl div second_ns)) # DNSNames tpl) [CHR 0x0A]"
      using that by (auto simp: ex_x509_def list_ex_iff split: if_splits)
    have "Split der (CHR 0x0A) = Itoa (nat (NotAfter tpl div second_ns)) # DNSNames tpl"
      unfolding der using tpl(1) Itoa_no_newline by (intro Split_Join) auto
    moreover have "0 \<le> NotAfter tpl div second_ns" using tpl(2) by (simp add: second_ns_def pos_imp_zdiv_nonneg_iff)
    moreover have "NotAfter tpl div second_ns * second_ns \<le> NotAfter tpl" "NotAfter tpl - second_ns < NotAfter tpl div second_ns * second_ns"
      by (simp_all add: second_ns_def minus_mod_eq_div_mult [symmetric])
    ultimately show ?thesis by (simp add: ex_x509_def)
  qed
  then show ?thesis by (auto simp: x509_ok_def) (simp_all add: ex_x509_def)
qed

definition ex_cluster_world :: kworld where
  "ex_cluster_world = \<lparr>ExObjects = [], ExResource = Some ex_sn, ExNodes = ex_nodes, ExPods = [],
     ExDaemonSet = Inl (ApiErr RNotFound ''daemonset''), ExPuts = []\<rparr>"

lemma ex_apply: "fst (apply_all ex_lib ex_kube ex_x509 \<lparr>AgentImage = ''img'', SCCAvail = True\<rparr> 1000 ex_sn ''img'' [''128.0.0.0/1''] False ex_cluster_world) = None"
  by code_simp

text \<open>
  C18. After a successful run of \<open>apply\<close> the API server holds the DaemonSet exactly as rendered
  for the specification and the deny list, the ClusterRole with exactly the rendered rules and
  the ServiceAccount, all owned by the custom resource and so collected with it; the namespace
  exists and its owner is the one it had, so deleting the resource never deletes the operator's
  own namespace; and off OpenShift the metrics secret holds a certificate that covers the
  service and is not about to expire.
\<close>

theorem apply_installs:
  assumes "kube_ok kb vw" "lib_ok lb" "x509_ok x" "apply_all lb kb x rc now sn img forb openshift w = (None, w')"
  shows "(\<exists>ds. Stored vw w' (''DaemonSet'', Namespace, agentName) = Some ds \<and>
      ObjBody ds = ObjBody (DaemonSet sn img forb True) \<and> Owner ds = Some (SnName sn)) \<and>
    (\<exists>cr. Stored vw w' (''ClusterRole'', [], agentName) = Some cr \<and> ObjBody cr = ClusterRoleBody agent_rules \<and> Owner cr = Some (SnName sn)) \<and>
    (\<exists>sa. Stored vw w' (''ServiceAccount'', Namespace, agentName) = Some sa \<and> Owner sa = Some (SnName sn)) \<and>
    (\<exists>ns. Stored vw w' (''Namespace'', [], Namespace) = Some ns \<and>
      Owner ns = (case Stored vw w (''Namespace'', [], Namespace) of None \<Rightarrow> None | Some old \<Rightarrow> Owner old)) \<and>
    (openshift \<or> secret_usable x vw now w')"
  using apply_installs_ok [OF assms] by blast

theorem apply_installs_witness:
  "\<exists>w'. apply_all ex_lib ex_kube ex_x509 \<lparr>AgentImage = ''img'', SCCAvail = True\<rparr> 1000 ex_sn ''img'' [''128.0.0.0/1''] False ex_cluster_world = (None, w') \<and>
    (\<exists>ds. Stored ex_view w' (''DaemonSet'', Namespace, agentName) = Some ds \<and>
      ObjBody ds = ObjBody (DaemonSet ex_sn ''img'' [''128.0.0.0/1''] True)) \<and> secret_usable ex_x509 ex_view 1000 w'"
proof -
  obtain w' where w': "apply_all ex_lib ex_kube ex_x509 \<lparr>AgentImage = ''img'', SCCAvail = True\<rparr> 1000 ex_sn ''img'' [''128.0.0.0/1''] False ex_cluster_world = (None, w')"
    using ex_apply by (metis prod.collapse)
  from apply_installs [OF ex_kube_ok ex_lib_ok ex_x509_ok w'] w' show ?thesis by blast
qed

end
