(* ===== verification/Topology.thy ===== *)
theory Topology
  imports Files Json_Decode
begin

text \<open>
  The AS-side topology file (\<open>internal/registrar/topology.go\<close>): rewriting the managed
  entries of its \<open>sigs\<close> map and reading them back.

  The lemmas show what a rewrite keeps and what it replaces, that reading after a rewrite
  returns the desired set, that the last of two rewrites wins, and that the file is replaced
  in one step.
\<close>

section \<open>SIG entries\<close>

record SIG =
  CtrlAddr :: string
  DataAddr :: string

definition enc_SIG :: "SIG \<Rightarrow> json" where
  "enc_SIG g = JObj [(''ctrl_addr'', JStr (escape (CtrlAddr g))), (''data_addr'', JStr (escape (DataAddr g)))]"

text \<open>Decoding; \<open>strict\<close> is \<open>DisallowUnknownFields\<close>.\<close>

fun dec_SIG_fields :: "bool \<Rightarrow> SIG \<Rightarrow> (string \<times> json) list \<Rightarrow> SIG result" where
  "dec_SIG_fields strict g [] = Inr g"
| "dec_SIG_fields strict g ((k, v) # ms) =
     (if field_is ''ctrl_addr'' (unquote k) then
        (case dec_string (CtrlAddr g) v of
           Inl e \<Rightarrow> Inl e
         | Inr x \<Rightarrow> dec_SIG_fields strict (g\<lparr>CtrlAddr := x\<rparr>) ms)
      else if field_is ''data_addr'' (unquote k) then
        (case dec_string (DataAddr g) v of
           Inl e \<Rightarrow> Inl e
         | Inr x \<Rightarrow> dec_SIG_fields strict (g\<lparr>DataAddr := x\<rparr>) ms)
      else if strict then Inl (Err (''json: unknown field '' @ unquote k))
      else dec_SIG_fields strict g ms)"

definition zero_SIG :: SIG where
  "zero_SIG = \<lparr>CtrlAddr = [], DataAddr = []\<rparr>"

definition dec_SIG :: "bool \<Rightarrow> json \<Rightarrow> SIG result" where
  "dec_SIG strict j =
     (case j of
        JNull \<Rightarrow> Inr zero_SIG
      | JObj ms \<Rightarrow> dec_SIG_fields strict zero_SIG ms
      | _ \<Rightarrow> Inl (type_error ''SIG''))"

fun dec_SIG_entries :: "bool \<Rightarrow> SIG gomap \<Rightarrow> (string \<times> json) list \<Rightarrow> SIG gomap result" where
  "dec_SIG_entries strict m [] = Inr m"
| "dec_SIG_entries strict m ((k, v) # ms) =
     (case dec_SIG strict v of
        Inl e \<Rightarrow> Inl e
      | Inr g \<Rightarrow> dec_SIG_entries strict (mput (unquote k) g m) ms)"

text \<open>Into a \<open>map[string]SIG\<close> that may hold entries already; the nil map is \<open>None\<close>.\<close>

definition dec_SIG_map :: "bool \<Rightarrow> SIG gomap option \<Rightarrow> json \<Rightarrow> SIG gomap option result" where
  "dec_SIG_map strict old j =
     (case j of
        JNull \<Rightarrow> Inr None
      | JObj ms \<Rightarrow>
          (case dec_SIG_entries strict (case old of None \<Rightarrow> [] | Some m \<Rightarrow> m) ms of
             Inl e \<Rightarrow> Inl e
           | Inr m \<Rightarrow> Inr (Some m))
      | _ \<Rightarrow> Inl (type_error ''map''))"

section \<open>Rewriting the document\<close>

text \<open>The \<open>sigs\<close> of a topology as \<open>PatchSigs\<close> reads them.\<close>

definition sigs_of :: "json gomap option \<Rightarrow> json gomap option result" where
  "sigs_of topo =
     (case topo of
        None \<Rightarrow> Inr (Some [])
      | Some t \<Rightarrow> (case mget t ''sigs'' of None \<Rightarrow> Inr (Some []) | Some raw \<Rightarrow> dec_map raw))"

text \<open>Drop the managed entries, then add the desired ones; writing to a nil map panics.\<close>

definition replace_managed :: "string \<Rightarrow> SIG gomap \<Rightarrow> json gomap option \<Rightarrow> json gomap option result" where
  "replace_managed pfx desired sigs =
     (case map_option (mdel_if (\<lambda>name. HasPrefix name pfx)) sigs of
        None \<Rightarrow> (if desired = [] then Inr None else Inl (ErrPanic ''assignment to entry in nil map''))
      | Some kept \<Rightarrow> Inr (Some (mputs (map (\<lambda>(name, g). (pfx @ name, enc_SIG g)) desired) kept)))"

definition enc_sigs :: "json gomap option \<Rightarrow> json" where
  "enc_sigs sigs = (case sigs of None \<Rightarrow> JNull | Some m \<Rightarrow> enc_map m)"

definition patch_topology :: "string \<Rightarrow> string \<Rightarrow> SIG gomap \<Rightarrow> string \<Rightarrow> string result" where
  "patch_topology topoFile raw desired pfx =
     (case Unmarshal dec_map raw of
        Inl e \<Rightarrow> Inl (Wrap (''parsing '' @ topoFile) e)
      | Inr topo \<Rightarrow>
          (case sigs_of topo of
             Inl e \<Rightarrow> Inl (Wrap (''parsing sigs in '' @ topoFile) e)
           | Inr sigs \<Rightarrow>
               (case replace_managed pfx desired sigs of
                  Inl e \<Rightarrow> Inl e
                | Inr sigs' \<Rightarrow>
                    (case topo of
                       None \<Rightarrow> Inl (ErrPanic ''assignment to entry in nil map'')
                     | Some t \<Rightarrow>
                         Inr (indented ''  '' (enc_map (mput ''sigs'' (enc_sigs sigs') t)) @ [CHR 0x0A])))))"

section \<open>PatchSigs and ManagedSigs\<close>

definition topology_temp :: "fsenv \<Rightarrow> string \<Rightarrow> string" where
  "topology_temp env topoFile = temp_name (path_dir topoFile) ''.topology-'' (Random env) ''.json''"

definition replace_topology :: "nat \<Rightarrow> fsenv \<Rightarrow> string \<Rightarrow> string \<Rightarrow> io \<Rightarrow> outcome" where
  "replace_topology mode env topoFile out =
     (let tmp = topology_temp env topoFile
      in via_temp env tmp
           (\<lambda>s. and_then (and_then (Write env tmp out s) (Chmod env tmp mode)) (Close env tmp)) topoFile)"

definition PatchSigs :: "fsenv \<Rightarrow> string \<Rightarrow> SIG gomap \<Rightarrow> string \<Rightarrow> io \<Rightarrow> outcome" where
  "PatchSigs env topoFile desired pfx s =
     (case ReadFile env topoFile s of
        Inl e \<Rightarrow> (Some e, s)
      | Inr raw \<Rightarrow>
          (case patch_topology topoFile raw desired pfx of
             Inl e \<Rightarrow> (Some e, s)
           | Inr out \<Rightarrow>
               (case Stat env topoFile s of
                  Inl e \<Rightarrow> (Some e, s)
                | Inr mode \<Rightarrow> replace_topology mode env topoFile out s)))"

text \<open>Into the anonymous struct with the single field \<open>sigs\<close>.\<close>

fun dec_sigs_fields :: "SIG gomap option \<Rightarrow> (string \<times> json) list \<Rightarrow> SIG gomap option result" where
  "dec_sigs_fields old [] = Inr old"
| "dec_sigs_fields old ((k, v) # ms) =
     (if field_is ''sigs'' (unquote k)
      then (case dec_SIG_map False old v of Inl e \<Rightarrow> Inl e | Inr m \<Rightarrow> dec_sigs_fields m ms)
      else dec_sigs_fields old ms)"

definition dec_topo_sigs :: "json \<Rightarrow> SIG gomap option result" where
  "dec_topo_sigs j =
     (case j of
        JNull \<Rightarrow> Inr None
      | JObj ms \<Rightarrow> dec_sigs_fields None ms
      | _ \<Rightarrow> Inl (type_error ''struct''))"

definition managed_of :: "string \<Rightarrow> SIG gomap \<Rightarrow> SIG gomap" where
  "managed_of pfx m =
     mputs (map (\<lambda>(name, g). (TrimPrefix name pfx, g)) (filter (\<lambda>(name, g). HasPrefix name pfx) m)) []"

definition managed_text :: "string \<Rightarrow> string \<Rightarrow> string \<Rightarrow> SIG gomap result" where
  "managed_text topoFile raw pfx =
     (case Unmarshal dec_topo_sigs raw of
        Inl e \<Rightarrow> Inl (Wrap (''parsing '' @ topoFile) e)
      | Inr sigs \<Rightarrow> Inr (managed_of pfx (case sigs of None \<Rightarrow> [] | Some m \<Rightarrow> m)))"

definition ManagedSigs :: "fsenv \<Rightarrow> string \<Rightarrow> string \<Rightarrow> io \<Rightarrow> SIG gomap result" where
  "ManagedSigs env topoFile pfx s =
     (case ReadFile env topoFile s of
        Inl e \<Rightarrow> Inl e
      | Inr raw \<Rightarrow> managed_text topoFile raw pfx)"

section \<open>What a rewrite keeps and what it replaces\<close>

text \<open>A field of the topology, and an entry of its \<open>sigs\<close>, as the text denotes them.\<close>

definition topo_field :: "string \<Rightarrow> string \<Rightarrow> json option" where
  "topo_field raw k =
     (case Unmarshal dec_map raw of Inr (Some t) \<Rightarrow> map_option meaning (mget t k) | _ \<Rightarrow> None)"

definition topo_sig :: "string \<Rightarrow> string \<Rightarrow> json option" where
  "topo_sig raw name =
     (case Unmarshal dec_map raw of
        Inr topo \<Rightarrow> (case sigs_of topo of Inr (Some m) \<Rightarrow> map_option meaning (mget m name) | _ \<Rightarrow> None)
      | _ \<Rightarrow> None)"

definition wf_map :: "json gomap \<Rightarrow> bool" where
  "wf_map m \<longleftrightarrow> map_ok m \<and> (\<forall>(k, v) \<in> set m. wf_json v)"

lemma wf_map_dec: "wf_json j \<Longrightarrow> dec_map j = Inr (Some m) \<Longrightarrow> wf_map m"
  using set_mputs [of _ "[]"]
  by (cases j) (fastforce simp: dec_map_def wf_map_def list_all_iff map_ok_mputs gm.ok_empty)+

lemma wf_map_Unmarshal: "Unmarshal dec_map raw = Inr (Some m) \<Longrightarrow> wf_map m"
  using parse_json_wf wf_map_dec by (auto simp: Unmarshal_def split: option.splits)

lemma wf_enc_SIG [simp]: "wf_json (enc_SIG g)"
  by (simp add: enc_SIG_def) (simp add: raw_ok_def, code_simp)

lemma wf_enc: "wf_map m \<Longrightarrow> wf_json (enc_map m)"
  using wf_enc_map by (auto simp: wf_map_def)


lemma wf_mmap_rewrite: "wf_map m \<Longrightarrow> wf_map (mmap rewrite_raw m)"
  unfolding wf_map_def by simp (auto simp: mmap_def wf_rewrite_raw)

lemma wf_map_get: "wf_map m \<Longrightarrow> mget m k = Some v \<Longrightarrow> wf_json v"
  by (auto simp: wf_map_def dest: mget_in)

lemma wf_map_mput: "wf_map m \<Longrightarrow> wf_json v \<Longrightarrow> wf_map (mput k v m)"
  using set_mput [of k v m] by (auto simp: wf_map_def map_ok_mput)

lemma map_ok_prefixed:
  assumes "map_ok d"
  shows "map_ok (map (\<lambda>(name, g). (pfx @ name, f g)) d)"
  using assms by (induction pfx) (auto simp: map_ok_def sorted_wrt_map case_prod_unfold list_less_def)

lemma mget_prefixed:
  "mget (map (\<lambda>(name, g). (pfx @ name, f g)) d) n =
    (if HasPrefix n pfx then map_option f (mget d (TrimPrefix n pfx)) else None)"
  by (induction d) (auto simp: mget_def HasPrefix_iff)

text \<open>The \<open>sigs\<close> after a rewrite.\<close>

lemma replace_managed_simps [simp]:
  "replace_managed pfx d None = (if d = [] then Inr None else Inl (ErrPanic ''assignment to entry in nil map''))"
  "replace_managed pfx d (Some m) =
    Inr (Some (mputs (map (\<lambda>(name, g). (pfx @ name, enc_SIG g)) d) (mdel_if (\<lambda>name. HasPrefix name pfx) m)))"
  by (simp_all add: replace_managed_def)

lemma replace_managed_get:
  assumes "replace_managed pfx d (Some m) = Inr s" "map_ok d" "wf_map m"
  obtains m' where "s = Some m'" "wf_map m'"
    "\<And>n. mget m' n = (if HasPrefix n pfx then map_option enc_SIG (mget d (TrimPrefix n pfx)) else mget m n)"
proof
  let ?e = "map (\<lambda>(name, g). (pfx @ name, enc_SIG g)) d" and ?k = "mdel_if (\<lambda>name. HasPrefix name pfx) m"
  have m: "map_ok m" using assms(3) by (simp add: wf_map_def)
  show "s = Some (mputs ?e ?k)" using assms(1) by (simp add: replace_managed_def)
  show "wf_map (mputs ?e ?k)"
    using assms(3) set_mputs [of ?e ?k] set_mdel_if [of "\<lambda>name. HasPrefix name pfx" m]
    by (fastforce simp: wf_map_def map_ok_mputs map_ok_mdel_if)
  show "mget (mputs ?e ?k) n = (if HasPrefix n pfx then map_option enc_SIG (mget d (TrimPrefix n pfx)) else mget m n)" for n
    using mget_mputs_ok [OF map_ok_prefixed [OF assms(2)] map_ok_mdel_if [OF m]]
    by (auto simp: mget_prefixed mget_mdel_if split: option.split)
qed

lemma sigs_of_wf: "wf_map t \<Longrightarrow> sigs_of (Some t) = Inr (Some m) \<Longrightarrow> wf_map m"
  by (auto simp: sigs_of_def dest: wf_map_get wf_map_dec split: option.splits)
    (auto simp: wf_map_def map_ok_def)

text \<open>The text \<open>PatchSigs\<close> writes, and what it denotes.\<close>

lemma patch_topologyE:
  assumes "patch_topology f raw d pfx = Inr out"
  obtains t s s' where "Unmarshal dec_map raw = Inr (Some t)" "wf_map t" "sigs_of (Some t) = Inr s"
    "replace_managed pfx d s = Inr s'"
    "out = indented ''  '' (enc_map (mput ''sigs'' (enc_sigs s') t)) @ [CHR 0x0A]"
  using assms wf_map_Unmarshal
  by (fastforce simp: patch_topology_def split: sum.splits option.splits)

lemma wf_enc_sigs:
  assumes "map_ok d" "wf_map t" "sigs_of (Some t) = Inr s" "replace_managed pfx d s = Inr s'"
  shows "wf_json (enc_sigs s')"
proof (cases s)
  case None
  with assms(4) show ?thesis by (auto simp: enc_sigs_def replace_managed_def split: if_splits)
next
  case (Some m)
  with assms(2,3) have "wf_map m" by (simp add: sigs_of_wf)
  from replace_managed_get [OF assms(4) [unfolded Some] assms(1) this] obtain m' where "s' = Some m'" "wf_map m'"
    by blast
  then show ?thesis by (simp add: enc_sigs_def wf_enc)
qed

lemma Unmarshal_out:
  assumes "wf_map t" "wf_json (enc_sigs s')"
  shows "Unmarshal dec (indented ''  '' (enc_map (mput ''sigs'' (enc_sigs s') t)) @ [CHR 0x0A]) =
    dec (enc_map (mput ''sigs'' (enc_sigs s') t))"
  using assms by (intro Unmarshal_indented wf_enc wf_map_mput) (auto simp: is_ws_def)


lemma dec_rewrite_enc: "map_ok m \<Longrightarrow> dec_map (rewrite_raw (enc_map m)) = Inr (Some (mmap rewrite_raw m))"
  using mputs_sorted [of "mmap rewrite_raw m"]
  by (simp add: dec_map_def enc_map_def comp_def case_prod_unfold unquote_html_raw) (simp add: mmap_def case_prod_unfold)

lemma sigs_of_out:
  assumes "map_ok d" "wf_map t" "sigs_of (Some t) = Inr s" "replace_managed pfx d s = Inr s'"
  shows "sigs_of (Some (mmap rewrite_raw (mput ''sigs'' (enc_sigs s') t))) = Inr (map_option (mmap rewrite_raw) s')"
proof (cases s')
  case None
  then show ?thesis by (simp add: sigs_of_def mget_mput enc_sigs_def dec_map_def)
next
  case (Some m)
  have "s \<noteq> None" using assms(4) Some by (cases s) (auto split: if_splits)
  then obtain k where k: "s = Some k" by auto
  from replace_managed_get [OF assms(4) [unfolded k] assms(1) sigs_of_wf [OF assms(2,3) [unfolded k]]]
  obtain m' where "s' = Some m'" "wf_map m'" by blast
  with Some have "map_ok m" by (simp add: wf_map_def)
  then have "dec_map (rewrite_raw (enc_map m)) = Inr (Some (mmap rewrite_raw m))" by (rule dec_rewrite_enc)
  with Some show ?thesis by (simp add: sigs_of_def mget_mput enc_sigs_def)
qed

lemma patch_entries:
  assumes "patch_topology f raw d pfx = Inr out" "map_ok d"
  shows "(\<forall>k. k \<noteq> ''sigs'' \<longrightarrow> topo_field out k = topo_field raw k) \<and>
    (\<forall>n. topo_sig out n =
      (if HasPrefix n pfx then map_option (\<lambda>g. meaning (enc_SIG g)) (mget d (TrimPrefix n pfx)) else topo_sig raw n))"
proof -
  obtain t s s' where t: "Unmarshal dec_map raw = Inr (Some t)" "wf_map t" "sigs_of (Some t) = Inr s"
    "replace_managed pfx d s = Inr s'" 
    "out = indented ''  '' (enc_map (mput ''sigs'' (enc_sigs s') t)) @ [CHR 0x0A]"
    by (rule patch_topologyE [OF assms(1)])
  note wf = wf_enc_sigs [OF assms(2) t(2,3,4)]
  let ?t' = "mmap rewrite_raw (mput ''sigs'' (enc_sigs s') t)"
  have out: "Unmarshal dec_map out = Inr (Some ?t')"
    unfolding t(5) Unmarshal_out [OF t(2) wf] using t(2) by (simp add: dec_enc_map map_ok_mput wf_map_def)
  have "topo_field out k = topo_field raw k" if "k \<noteq> ''sigs''" for k
    using that wf_map_get [OF t(2), of k] by (cases "mget t k") (auto simp: topo_field_def out t(1) mget_mput meaning_rewrite_raw)
  moreover have "topo_sig out n = (if HasPrefix n pfx then map_option (\<lambda>g. meaning (enc_SIG g)) (mget d (TrimPrefix n pfx)) else topo_sig raw n)" for n
  proof (cases s)
    case None
    with t(4) have "s' = None" "d = []" by (auto split: if_splits)
    with None show ?thesis
      using sigs_of_out [OF assms(2) t(2,3,4)] by (simp add: topo_sig_def out t(1,3) mget_def)
  next
    case (Some m)
    note m = sigs_of_wf [OF t(2) t(3) [unfolded Some]]
    from replace_managed_get [OF t(4) [unfolded Some] assms(2) m] obtain m' where m':
      "s' = Some m'" "wf_map m'"
      "\<And>n. mget m' n = (if HasPrefix n pfx then map_option enc_SIG (mget d (TrimPrefix n pfx)) else mget m n)"
      by blast
    have "map_option meaning (map_option rewrite_raw (mget m' n)) = map_option meaning (mget m' n)"
      using wf_map_get [OF m'(2), of n] by (cases "mget m' n") (auto simp: meaning_rewrite_raw)
    with m' Some show ?thesis
      using sigs_of_out [OF assms(2) t(2,3,4)]
      by (simp add: topo_sig_def out t(1,3) option.map_comp comp_def del: replace_managed_simps)
  qed
  ultimately show ?thesis by blast
qed

text \<open>A small topology and a desired set, for concrete instances.\<close>

definition ex_topology :: string where
  "ex_topology = compact (JObj [(''isd_as'', JStr ''1-ff00:0:110''),
     (''sigs'', JObj [(''k8s-old'', enc_SIG zero_SIG), (''static'', enc_SIG zero_SIG)])])"

definition ex_desired :: "SIG gomap" where
  "ex_desired = [(''n1'', \<lparr>CtrlAddr = ''10.0.0.1:30256'', DataAddr = ''10.0.0.1:30056''\<rparr>)]"

definition ex_patched :: string where
  "ex_patched = projr (patch_topology ''t.json'' ex_topology ex_desired ''k8s-'')"

definition ex_disk :: fs where
  "ex_disk = [(''t.json'', \<lparr>Content = ex_topology, Mode = mode644\<rparr>)]"

definition no_faults :: fsenv where
  "no_faults = \<lparr>Fault = (\<lambda>_ _. None), Short = 0, Random = ''1''\<rparr>"

lemma ex_ok:
  "is_ok (patch_topology ''t.json'' ex_topology ex_desired ''k8s-'')"
  "is_ok (managed_text ''t.json'' ex_topology ''k8s-'')"
  "map_ok ex_desired" "map_ok ex_disk" "map_ok ([] :: SIG gomap)"
  "mget ex_disk ''t.json'' = Some \<lparr>Content = ex_topology, Mode = mode644\<rparr>"
  by code_simp+

lemma ex_patch: "patch_topology ''t.json'' ex_topology ex_desired ''k8s-'' = Inr ex_patched"
  using ex_ok(1) by (auto simp: ex_patched_def is_ok_iff)

text \<open>
  C27. A successful rewrite keeps the meaning of every other field of the topology and of
  every entry without the prefix, and makes the entries with the prefix exactly the desired
  ones.
\<close>

theorem patch_topology_entries:
  assumes "patch_topology f raw d pfx = Inr out" "map_ok d"
  shows "(\<forall>k. k \<noteq> ''sigs'' \<longrightarrow> topo_field out k = topo_field raw k) \<and>
    (\<forall>n. topo_sig out n =
      (if HasPrefix n pfx then map_option (\<lambda>g. meaning (enc_SIG g)) (mget d (TrimPrefix n pfx)) else topo_sig raw n))"
  by (rule patch_entries [OF assms])

theorem patch_topology_entries_witness:
  "topo_field ex_patched ''isd_as'' = topo_field ex_topology ''isd_as'' \<and>
   topo_sig ex_patched ''static'' = topo_sig ex_topology ''static'' \<and> topo_sig ex_patched ''k8s-old'' = None"
proof -
  have "\<not> HasPrefix ''static'' ''k8s-''" "HasPrefix ''k8s-old'' ''k8s-''"
    "mget ex_desired (TrimPrefix ''k8s-old'' ''k8s-'') = None" by code_simp+
  with patch_topology_entries [OF ex_patch ex_ok(3)] show ?thesis by simp
qed

section \<open>Reading the managed entries back\<close>

lemma dec_string_rewrite: "wf_json v \<Longrightarrow> dec_string old (rewrite_raw v) = dec_string old v"
  by (cases v) (auto simp: dec_string_def unquote_html_raw)

lemma dec_SIG_fields_rewrite:
  "list_all (\<lambda>(k, v). raw_ok k \<and> wf_json v) ms \<Longrightarrow>
    dec_SIG_fields strict g (map (\<lambda>(k, v). (html_raw k, rewrite_raw v)) ms) = dec_SIG_fields strict g ms"
  by (induction strict g ms rule: dec_SIG_fields.induct)
    (auto simp: unquote_html_raw dec_string_rewrite split: sum.split)

lemma dec_SIG_rewrite: "wf_json v \<Longrightarrow> dec_SIG strict (rewrite_raw v) = dec_SIG strict v"
  by (cases v) (auto simp: dec_SIG_def dec_SIG_fields_rewrite)

lemma sig_keys [simp]:
  "unquote ''ctrl_addr'' = ''ctrl_addr''" "unquote ''data_addr'' = ''data_addr''"
  "\<not> field_is ''ctrl_addr'' ''data_addr''"
  by code_simp+

lemma dec_SIG_enc [simp]: "dec_SIG strict (enc_SIG g) = Inr g"
  by (simp add: dec_SIG_def enc_SIG_def dec_string_def zero_SIG_def)

lemma dec_SIG_entries_iff:
  "dec_SIG_entries strict m es = Inr m' \<longleftrightarrow> list_all (\<lambda>(k, v). is_ok (dec_SIG strict v)) es \<and>
    m' = mputs (map (\<lambda>(k, v). (unquote k, projr (dec_SIG strict v))) es) m"
  by (induction strict m es rule: dec_SIG_entries.induct) (auto simp: mputs_def split: sum.split)

lemma dec_SIG_map_ok:
  assumes "dec_SIG_map strict old v = Inr r" "dec_map v = Inr (Some m)" "(k, x) \<in> set m"
  shows "is_ok (dec_SIG strict x)"
proof -
  from assms(2) obtain es where v: "v = JObj es" "m = mputs (map (\<lambda>(k, v). (unquote k, v)) es) []"
    by (cases v) (auto simp: dec_map_def)
  with assms(3) set_mputs [of "map (\<lambda>(k, v). (unquote k, v)) es" "[]"] obtain k' where "(k', x) \<in> set es" by auto
  with assms(1) v(1) show ?thesis
    by (auto simp: dec_SIG_map_def dec_SIG_entries_iff list_all_iff split: sum.splits)
qed

lemma dec_SIG_map_enc:
  assumes "wf_map m" "\<And>k v. (k, v) \<in> set m \<Longrightarrow> is_ok (dec_SIG False v)"
  shows "dec_SIG_map False None (rewrite_raw (enc_map m)) = Inr (Some (mmap (\<lambda>v. projr (dec_SIG False v)) m))"
proof -
  have wf: "wf_json v" if "(k, v) \<in> set m" for k v using assms(1) that by (auto simp: wf_map_def)
  let ?es = "map (\<lambda>(k, v). (html_raw (escape k), rewrite_raw (rewrite_raw v))) m"
  have "map (\<lambda>(k, v). (unquote k, projr (dec_SIG False v))) ?es = mmap (\<lambda>v. projr (dec_SIG False v)) m"
    using wf by (auto simp: mmap_def unquote_html_raw dec_SIG_rewrite)
  moreover have "list_all (\<lambda>(k, v). is_ok (dec_SIG False v)) ?es"
    using wf assms(2) by (auto simp: list_all_iff dec_SIG_rewrite)
  moreover have "mputs (mmap (\<lambda>v. projr (dec_SIG False v)) m) [] = mmap (\<lambda>v. projr (dec_SIG False v)) m"
    using assms(1) by (intro mputs_sorted) (simp add: wf_map_def)
  ultimately have "dec_SIG_entries False [] ?es = Inr (mmap (\<lambda>v. projr (dec_SIG False v)) m)"
    by (simp add: dec_SIG_entries_iff)
  then show ?thesis by (simp add: dec_SIG_map_def enc_map_def comp_def case_prod_unfold)
qed

text \<open>The field of the anonymous struct is read from the one key that matches.\<close>

lemma dec_sigs_fields_none:
  "list_all (\<lambda>(k, v). \<not> field_is ''sigs'' (unquote k)) ms \<Longrightarrow> dec_sigs_fields old ms = Inr old"
  by (induction old ms rule: dec_sigs_fields.induct) auto

lemma dec_sigs_fields_one:
  assumes "list_all (\<lambda>(k, v). field_is ''sigs'' (unquote k) \<longrightarrow> unquote k = ''sigs'') ms"
    and "distinct (map (\<lambda>(k, v). unquote k) ms)" "(k, v) \<in> set ms" "unquote k = ''sigs''"
  shows "dec_sigs_fields old ms = dec_SIG_map False old v"
  using assms
proof (induction ms)
  case (Cons m ms)
  obtain k' v' where m: "m = (k', v')" by (cases m)
  show ?case
  proof (cases "unquote k' = ''sigs''")
    case True
    then have "(k', v') = (k, v)" using Cons.prems m by (force simp: image_iff)
    moreover have "list_all (\<lambda>(k, v). \<not> field_is ''sigs'' (unquote k)) ms"
      using Cons.prems(1,2) True m by (force simp: list_all_iff image_iff)
    ultimately show ?thesis using m Cons.prems(4) by (simp add: dec_sigs_fields_none split: sum.split)
  next
    case False
    then show ?thesis using Cons m by auto
  qed
qed simp

lemma dec_sigs_fields_ok:
  "dec_sigs_fields old ms = Inr r \<Longrightarrow> (k, v) \<in> set ms \<Longrightarrow> field_is ''sigs'' (unquote k) \<Longrightarrow>
    \<exists>o' r'. dec_SIG_map False o' v = Inr r'"
  by (induction old ms rule: dec_sigs_fields.induct) (fastforce split: if_splits sum.splits)+

lemma managed_of_get:
  assumes "map_ok m"
  shows "mget (managed_of pfx m) n = mget m (pfx @ n)" "map_ok (managed_of pfx m)"
proof -
  let ?xs = "filter (\<lambda>(name, g). HasPrefix name pfx) m"
  have inj: "x = y" if "x \<in> set ?xs" "y \<in> set ?xs" "TrimPrefix (fst x) pfx = TrimPrefix (fst y) pfx" for x y
    using that assms mget_set [OF assms] by (auto simp: HasPrefix_iff) (metis mget_set option.inject)
  have "distinct ?xs" using map_ok_distinct [OF assms] by (simp add: distinct_map)
  then have "mget (managed_of pfx m) n = (case find (\<lambda>x. TrimPrefix (fst x) pfx = n) ?xs of None \<Rightarrow> None | Some x \<Rightarrow> Some (snd x))"
    using mget_mputs_map [of "[]" ?xs "\<lambda>x. TrimPrefix (fst x) pfx" snd] inj
    by (simp add: managed_of_def case_prod_unfold gm.ok_empty gm.get_empty split: option.split)
  also have "\<dots> = mget m (pfx @ n)"
  proof (cases "mget m (pfx @ n)")
    case None
    then have "find (\<lambda>x. TrimPrefix (fst x) pfx = n) ?xs = None"
      using mget_set [OF assms] by (auto simp: find_None_iff HasPrefix_iff) (metis option.distinct(1))
    then show ?thesis using None by simp
  next
    case (Some g)
    then have mem: "(pfx @ n, g) \<in> set ?xs" using mget_set [OF assms] by auto
    then obtain x where x: "find (\<lambda>x. TrimPrefix (fst x) pfx = n) ?xs = Some x"
      by (cases "find (\<lambda>x. TrimPrefix (fst x) pfx = n) ?xs") (auto simp: find_None_iff dest: spec [of _ "pfx @ n"])
    then have "x \<in> set ?xs" "TrimPrefix (fst x) pfx = n"
      unfolding find_Some_iff by (metis nth_mem)+
    with inj [OF _ mem] have "x = (pfx @ n, g)" by simp
    with x Some show ?thesis by simp
  qed
  finally show "mget (managed_of pfx m) n = mget m (pfx @ n)" .
  show "map_ok (managed_of pfx m)" by (simp add: managed_of_def map_ok_mputs gm.ok_empty)
qed

text \<open>No key of the topology other than \<open>sigs\<close> itself reads as \<open>sigs\<close>.\<close>

definition one_sigs_key :: "string \<Rightarrow> bool" where
  "one_sigs_key raw =
     (case Unmarshal dec_map raw of
        Inr (Some t) \<Rightarrow> list_all (\<lambda>(k, v). field_is ''sigs'' k \<longrightarrow> k = ''sigs'') t
      | _ \<Rightarrow> True)"

lemma managed_entries_decode:
  assumes "Unmarshal dec_topo_sigs raw = Inr x" "Unmarshal dec_map raw = Inr (Some t)"
    "sigs_of (Some t) = Inr (Some m)" "(k, v) \<in> set m"
  shows "is_ok (dec_SIG False v)"
proof -
  from assms(2) obtain ms where ms: "parse_json raw = Some (JObj ms)" "t = mputs (map (\<lambda>(k, v). (unquote k, v)) ms) []"
    by (auto simp: Unmarshal_def dec_map_def split: option.splits json.splits)
  from assms(3,4) obtain j where j: "mget t ''sigs'' = Some j" "dec_map j = Inr (Some m)"
    by (auto simp: sigs_of_def split: option.splits)
  from mget_in [OF j(1)] set_mputs [of "map (\<lambda>(k, v). (unquote k, v)) ms" "[]"] ms(2)
  obtain k' where k': "(k', j) \<in> set ms" "unquote k' = ''sigs''" by auto
  from assms(1) ms(1) have "dec_sigs_fields None ms = Inr x" by (simp add: Unmarshal_def dec_topo_sigs_def)
  from dec_sigs_fields_ok [OF this k'(1)] k'(2) obtain o' r' where "dec_SIG_map False o' j = Inr r'" by auto
  from dec_SIG_map_ok [OF this j(2) assms(4)] show ?thesis .
qed

lemma Unmarshal_topo_sigs_out:
  assumes t: "wf_map t" "wf_json j" and keys: "list_all (\<lambda>(k, v). field_is ''sigs'' k \<longrightarrow> k = ''sigs'') t"
  shows "dec_topo_sigs (enc_map (mput ''sigs'' j t)) = dec_SIG_map False None (rewrite_raw j)"
proof -
  let ?t = "mput ''sigs'' j t"
  let ?ms = "map (\<lambda>(k, v). (escape k, rewrite_raw v)) ?t"
  have ok: "map_ok ?t" using t by (simp add: wf_map_def map_ok_mput)
  have "dec_sigs_fields None ?ms = dec_SIG_map False None (rewrite_raw j)"
  proof (rule dec_sigs_fields_one)
    show "list_all (\<lambda>(k, v). field_is ''sigs'' (unquote k) \<longrightarrow> unquote k = ''sigs'') ?ms"
      using keys set_mput [of "''sigs''" j t] by (fastforce simp: list_all_iff)
    show "distinct (map (\<lambda>(k, v). unquote k) ?ms)"
      using map_ok_distinct [OF ok] by (simp add: comp_def case_prod_unfold)
    have "mget ?t ''sigs'' = Some j" by (simp add: mget_mput)
    then have "(''sigs'', j) \<in> set ?t" by (rule mget_in)
    then show "(escape ''sigs'', rewrite_raw j) \<in> set ?ms" by force
  qed simp
  then show ?thesis by (simp add: dec_topo_sigs_def enc_map_def)
qed

lemma managed_after_patch_ok:
  assumes "patch_topology f raw d pfx = Inr out" "map_ok d"
    and "is_ok (managed_text f raw pfx)" "one_sigs_key raw"
  shows "managed_text f out pfx = Inr d"
proof -
  obtain t s s' where t: "Unmarshal dec_map raw = Inr (Some t)" "wf_map t" "sigs_of (Some t) = Inr s"
    "replace_managed pfx d s = Inr s'"
    "out = indented ''  '' (enc_map (mput ''sigs'' (enc_sigs s') t)) @ [CHR 0x0A]"
    by (rule patch_topologyE [OF assms(1)])
  note wf = wf_enc_sigs [OF assms(2) t(2,3,4)]
  from assms(4) t(1) have keys: "list_all (\<lambda>(k, v). field_is ''sigs'' k \<longrightarrow> k = ''sigs'') t"
    by (simp add: one_sigs_key_def)
  have out: "Unmarshal dec_topo_sigs out = dec_SIG_map False None (rewrite_raw (enc_sigs s'))"
    unfolding t(5) Unmarshal_out [OF t(2) wf] by (rule Unmarshal_topo_sigs_out [OF t(2) wf keys])
  show ?thesis
  proof (cases s)
    case None
    with t(4) have "s' = None" "d = []" by (auto split: if_splits)
    then show ?thesis by (simp add: managed_text_def out enc_sigs_def dec_SIG_map_def managed_of_def mputs_def)
  next
    case (Some m)
    note m = sigs_of_wf [OF t(2) t(3) [unfolded Some]]
    from replace_managed_get [OF t(4) [unfolded Some] assms(2) m] obtain m' where m': "s' = Some m'" "wf_map m'"
      "\<And>n. mget m' n = (if HasPrefix n pfx then map_option enc_SIG (mget d (TrimPrefix n pfx)) else mget m n)"
      by blast
    from assms(3) obtain x where x: "Unmarshal dec_topo_sigs raw = Inr x"
      by (auto simp: managed_text_def split: sum.splits)
    have "is_ok (dec_SIG False v)" if "(k, v) \<in> set m'" for k v
    proof -
      from that m'(2) have "mget m' k = Some v" by (simp add: mget_set wf_map_def)
      from this [unfolded m'(3)] managed_entries_decode [OF x t(1) t(3) [unfolded Some]] show ?thesis
        by (auto split: if_splits dest: mget_in)
    qed
    then have dec: "dec_SIG_map False None (rewrite_raw (enc_map m')) = Inr (Some (mmap (\<lambda>v. projr (dec_SIG False v)) m'))"
      by (rule dec_SIG_map_enc [OF m'(2)])
    have "managed_of pfx (mmap (\<lambda>v. projr (dec_SIG False v)) m') = d"
      using assms(2) m'(2,3)
      by (intro mget_extensional) (auto simp: managed_of_get wf_map_def option.map_comp comp_def option.map_ident)
    then show ?thesis by (simp add: managed_text_def out m'(1) enc_sigs_def dec)
  qed
qed


text \<open>
  C28. After a successful rewrite of a topology whose managed entries could be read before,
  reading them returns exactly the desired set.
\<close>

theorem managed_after_patch:
  assumes "patch_topology f raw d pfx = Inr out" "map_ok d"
    and "is_ok (managed_text f raw pfx)" "one_sigs_key raw"
  shows "managed_text f out pfx = Inr d"
  by (rule managed_after_patch_ok [OF assms])

theorem managed_after_patch_witness: "managed_text ''t.json'' ex_patched ''k8s-'' = Inr ex_desired"
proof -
  have "one_sigs_key ex_topology" by code_simp
  from managed_after_patch [OF ex_patch ex_ok(3,2) this] show ?thesis .
qed

section \<open>The last rewrite wins\<close>

lemma enc_map_cong: "map_ok m \<Longrightarrow> map_ok n \<Longrightarrow>
    (\<And>k. map_option rewrite_raw (mget m k) = map_option rewrite_raw (mget n k)) \<Longrightarrow> enc_map m = enc_map n"
proof -
  assume "map_ok m" "map_ok n" "\<And>k. map_option rewrite_raw (mget m k) = map_option rewrite_raw (mget n k)"
  then have "mmap rewrite_raw m = mmap rewrite_raw n" by (intro mget_extensional) auto
  moreover have "enc_map x = JObj (map (\<lambda>(k, v). (escape k, v)) (mmap rewrite_raw x))" for x
    by (simp add: enc_map_def mmap_def comp_def case_prod_unfold)
  ultimately show "enc_map m = enc_map n" by simp
qed

lemma replace_managed_twice:
  assumes "replace_managed pfx d1 s = Inr s1" "map_ok d1" "map_ok d2" "\<And>m. s = Some m \<Longrightarrow> wf_map m"
  shows "map_sum id enc_sigs (replace_managed pfx d2 (map_option (mmap rewrite_raw) s1)) =
    map_sum id enc_sigs (replace_managed pfx d2 s)"
proof (cases s)
  case None
  with assms(1) show ?thesis by (auto split: if_splits)
next
  case (Some m)
  note m = assms(4) [OF Some]
  from replace_managed_get [OF assms(1) [unfolded Some] assms(2) m] obtain m1 where m1: "s1 = Some m1" "wf_map m1"
    "\<And>n. mget m1 n = (if HasPrefix n pfx then map_option enc_SIG (mget d1 (TrimPrefix n pfx)) else mget m n)"
    by blast
  obtain m2 where m2: "replace_managed pfx d2 s = Inr (Some m2)" "wf_map m2"
    "\<And>n. mget m2 n = (if HasPrefix n pfx then map_option enc_SIG (mget d2 (TrimPrefix n pfx)) else mget m n)"
    using replace_managed_get [OF replace_managed_simps(2) assms(3) m] Some by (metis replace_managed_simps(2))
  obtain m3 where m3: "replace_managed pfx d2 (Some (mmap rewrite_raw m1)) = Inr (Some m3)" "wf_map m3"
    "\<And>n. mget m3 n = (if HasPrefix n pfx then map_option enc_SIG (mget d2 (TrimPrefix n pfx)) else mget (mmap rewrite_raw m1) n)"
    using replace_managed_get [OF replace_managed_simps(2) assms(3) wf_mmap_rewrite [OF m1(2)]]
    by (metis replace_managed_simps(2))
  have "enc_map m3 = enc_map m2"
    using m2(2) m3(2) by (intro enc_map_cong) (auto simp: wf_map_def m1(3) m2(3) m3(3) option.map_comp comp_def)
  with m1(1) m2(1) m3(1) show ?thesis by (simp add: enc_sigs_def del: replace_managed_simps)
qed

text \<open>
  The last of two rewrites wins wholesale: a second rewrite gives the text it would
  have given on the original document.
\<close>

theorem patch_topology_twice:
  assumes "patch_topology f raw d1 pfx = Inr out" "map_ok d1" "map_ok d2"
  shows "patch_topology f out d2 pfx = patch_topology f raw d2 pfx"
proof -
  obtain t s s1 where t: "Unmarshal dec_map raw = Inr (Some t)" "wf_map t" "sigs_of (Some t) = Inr s"
    "replace_managed pfx d1 s = Inr s1"
    "out = indented ''  '' (enc_map (mput ''sigs'' (enc_sigs s1) t)) @ [CHR 0x0A]"
    by (rule patch_topologyE [OF assms(1)])
  let ?t1 = "mmap rewrite_raw (mput ''sigs'' (enc_sigs s1) t)"
  have out: "Unmarshal dec_map out = Inr (Some ?t1)"
    unfolding t(5) Unmarshal_out [OF t(2) wf_enc_sigs [OF assms(2) t(2,3,4)]]
    using t(2) by (simp add: dec_enc_map map_ok_mput wf_map_def)
  have twice: "map_sum id enc_sigs (replace_managed pfx d2 (map_option (mmap rewrite_raw) s1)) =
      map_sum id enc_sigs (replace_managed pfx d2 s)"
    using t(2,3) by (intro replace_managed_twice [OF t(4) assms(2,3)]) (simp add: sigs_of_wf)
  have "enc_map (mput ''sigs'' j ?t1) = enc_map (mput ''sigs'' j t)" for j
    using t(2) by (intro enc_map_cong) (auto simp: map_ok_mput wf_map_def mget_mput option.map_comp comp_def)
  with twice show ?thesis
    by (cases "replace_managed pfx d2 s"; cases "replace_managed pfx d2 (map_option (mmap rewrite_raw) s1)")
      (simp_all add: patch_topology_def out t(1,3) sigs_of_out [OF assms(2) t(2,3,4)] del: replace_managed_simps)
qed

theorem patch_topology_twice_witness:
  "patch_topology ''t.json'' ex_patched [] ''k8s-'' = patch_topology ''t.json'' ex_topology [] ''k8s-''"
  by (rule patch_topology_twice [OF ex_patch ex_ok(3,5)])

section \<open>Replacing the file\<close>

interpretation tp: file_replacer "replace_topology m" topology_temp m "\<lambda>p s. mget (Disk s) p \<noteq> None" for m
proof
  fix s :: io and p data :: string and env :: fsenv
  assume s: "map_ok (Disk s)" "mget (Disk s) p \<noteq> None"
  let ?tmp = "topology_temp env p"
  have "on_tmp ?tmp (\<lambda>f. f\<lparr>Content := data\<rparr>\<lparr>Mode := m\<rparr>)
      (\<lambda>s. and_then (and_then (Write env ?tmp data s) (Chmod env ?tmp m)) (Close env ?tmp))"
    by (intro on_tmp_and_then [where h = "\<lambda>f. f"] on_tmp_and_then [where h = "\<lambda>f. f\<lparr>Mode := m\<rparr>"] on_tmp_ops)
  from via_temp_replaced [OF this, of p s env] s
  show "replaced ?tmp p \<lparr>Content = data, Mode = m\<rparr> s (replace_topology m env p data s)"
    by (simp add: replace_topology_def Let_def)
qed

text \<open>The two outcomes of \<open>PatchSigs\<close> on an existing file.\<close>

lemma PatchSigs_outcomes:
  assumes "mget (Disk s) f = Some old"
  shows "(\<exists>e. PatchSigs env f d pfx s = (Some e, s)) \<or>
    (\<exists>out. patch_topology f (Content old) d pfx = Inr out \<and>
      PatchSigs env f d pfx s = replace_topology (Mode old) env f out s)"
  using assms
  by (cases "Fault env OpRead f"; cases "Fault env OpStat f"; cases "patch_topology f (Content old) d pfx")
    (simp_all add: PatchSigs_def ReadFile_def Stat_def)

lemma PatchSigs_cases:
  assumes "mget (Disk s) f = Some old"
  obtains (failed) e where "PatchSigs env f d pfx s = (Some e, s)"
  | (patched) out where "patch_topology f (Content old) d pfx = Inr out"
      "PatchSigs env f d pfx s = replace_topology (Mode old) env f out s"
  using PatchSigs_outcomes [OF assms] by blast

lemma PatchSigs_ok:
  assumes "fst (PatchSigs env f d pfx s) = None" "map_ok (Disk s)"
  obtains old out where "mget (Disk s) f = Some old" "patch_topology f (Content old) d pfx = Inr out"
    "mget (Disk (snd (PatchSigs env f d pfx s))) f = Some (old\<lparr>Content := out\<rparr>)"
proof -
  from assms(1) obtain old where old: "mget (Disk s) f = Some old"
    by (auto simp: PatchSigs_def ReadFile_def split: sum.splits option.splits)
  then show thesis
  proof (cases rule: PatchSigs_cases [of s f old env d pfx])
    case (failed e)
    with assms(1) show thesis by simp
  next
    case (patched out)
    with tp.replaces [of s f env out "Mode old"] assms old show thesis
      by (intro that [OF old patched(1)]) (simp add: replaced_def)
  qed
qed

text \<open>
  C8. The topology file is replaced in one step: at every moment it is the old file or the
  complete new one with the old mode, an error leaves the old file, and no other file except
  the temporary one is touched.
\<close>

theorem PatchSigs_atomic:
  assumes "map_ok (Disk s)" "mget (Disk s) f = Some old"
  shows "\<exists>new. mget (Disk (snd (PatchSigs env f d pfx s))) f =
      Some (if fst (PatchSigs env f d pfx s) = None then new else old) \<and>
    (fst (PatchSigs env f d pfx s) = None \<longrightarrow>
      patch_topology f (Content old) d pfx = Inr (Content new) \<and> Mode new = Mode old) \<and>
    (\<forall>q. q \<noteq> f \<and> q \<noteq> topology_temp env f \<longrightarrow>
      mget (Disk (snd (PatchSigs env f d pfx s))) q = mget (Disk s) q) \<and>
    (\<exists>hs. History (snd (PatchSigs env f d pfx s)) = History s @ hs \<and>
      (\<forall>d \<in> set hs. mget d f = Some old \<or> mget d f = Some new))"
  using assms(2)
proof (cases rule: PatchSigs_cases [of s f old env d pfx])
  case (failed e)
  with assms(2) show ?thesis by (intro exI [of _ old]) simp
next
  case (patched out)
  from tp.replaces [of s f env out "Mode old"] assms
  have "replaced (topology_temp env f) f \<lparr>Content = out, Mode = Mode old\<rparr> s (PatchSigs env f d pfx s)"
    by (simp add: patched(2))
  with patched(1) assms(2) show ?thesis
    by (intro exI [of _ "\<lparr>Content = out, Mode = Mode old\<rparr>"]) (auto simp: replaced_def)
qed

theorem PatchSigs_atomic_witness:
  "\<exists>new. mget (Disk (snd (PatchSigs no_faults ''t.json'' ex_desired ''k8s-'' \<lparr>Disk = ex_disk, History = []\<rparr>))) ''t.json'' =
    Some new \<and> Mode new = mode644"
proof -
  have "fst (PatchSigs no_faults ''t.json'' ex_desired ''k8s-'' \<lparr>Disk = ex_disk, History = []\<rparr>) = None" by code_simp
  with PatchSigs_atomic [of "\<lparr>Disk = ex_disk, History = []\<rparr>" "''t.json''" _ no_faults ex_desired "''k8s-''"] ex_ok(4,6)
  show ?thesis by auto
qed

section \<open>When the rewrite panics\<close>

text \<open>
  A rewrite panics exactly when the topology document is \<open>null\<close>, or when its \<open>sigs\<close> are
  \<open>null\<close> and there is an entry to add: the map the entry is written to is nil.
\<close>

theorem patch_topology_panics_iff:
  "(\<exists>e. patch_topology f raw d pfx = Inl (ErrPanic e)) \<longleftrightarrow>
    Unmarshal dec_map raw = Inr None \<or>
    (\<exists>t. Unmarshal dec_map raw = Inr (Some t) \<and> mget t ''sigs'' = Some JNull \<and> d \<noteq> [])"
proof (cases "Unmarshal dec_map raw")
  case (Inr topo)
  show ?thesis
  proof (cases topo)
    case None
    with Inr show ?thesis by (simp add: patch_topology_def sigs_of_def)
  next
    case (Some t)
    show ?thesis
    proof (cases "sigs_of (Some t)")
      case (Inl e)
      with Inr Some show ?thesis by (auto simp: patch_topology_def sigs_of_def dec_map_def split: option.splits)
    next
      case (Inr sigs)
      have "sigs = None \<longleftrightarrow> mget t ''sigs'' = Some JNull"
      proof (cases "mget t ''sigs''")
        case None
        with Inr show ?thesis by (auto simp: sigs_of_def)
      next
        case (Some j)
        with Inr have "dec_map j = Inr sigs" by (simp add: sigs_of_def)
        with Some show ?thesis by (cases j) (auto simp: dec_map_def)
      qed
      with Inr Some \<open>Unmarshal dec_map raw = Inr topo\<close> show ?thesis
        by (cases sigs) (simp_all add: patch_topology_def)
    qed
  qed
qed (simp add: patch_topology_def)

text \<open>
  Reading matches the key \<open>sigs\<close> in any case, rewriting only as it stands: a topology with
  a key \<open>SIGS\<close> reports entries that no rewrite removes.
\<close>

lemma managed_case_variant:
  "case patch_topology ''t.json'' (compact (JObj [(''SIGS'', JObj [(''k8s-old'', enc_SIG zero_SIG)])])) [] ''k8s-'' of
     Inl e \<Rightarrow> False
   | Inr out \<Rightarrow> managed_text ''t.json'' out ''k8s-'' = Inr [(''old'', zero_SIG)]"
  by code_simp

end
