(* ===== verification/Registrar.thy ===== *)
theory Registrar
  imports Topology Go_Http
begin

text \<open>
  The AS-side registration service (\<open>internal/registrar/server.go\<close>, \<open>cmd/registrar/main.go\<close>)
  and the operator's registration backends (\<open>internal/operator/registrar\<close>).

  The service is a function on a world that holds the disk and the reload commands run so
  far. The lemmas show that it fails closed, that a reload runs only after a complete
  rewrite, that the managed set is the one of the last request that rewrote the file, and
  that a successful registration by the operator puts exactly its SIG set on the AS side.
\<close>

section \<open>Server\<close>

definition maxBodyBytes :: nat where
  "maxBodyBytes = 2 ^ 20"

definition ReloadTimeout :: nat where
  "ReloadTimeout = 30 * Second"

record Server =
  TopologyFile :: string
  SigPrefix :: string
  Token :: string

record world =
  FS :: io
  Reloads :: "fs list"

fun is_panic :: "goerror \<Rightarrow> bool" where
  "is_panic (ErrPanic s) = True"
| "is_panic e = False"

definition enc_managed :: "SIG gomap \<Rightarrow> json" where
  "enc_managed m = JObj (map (\<lambda>(name, g). (escape name, enc_SIG g)) m)"

definition getSigs :: "fsenv \<Rightarrow> Server \<Rightarrow> world \<Rightarrow> Response" where
  "getSigs env srv w =
     (case ManagedSigs env (TopologyFile srv) (SigPrefix srv) (FS w) of
        Inl e \<Rightarrow> http_error ''reading topology'' 500
      | Inr managed \<Rightarrow> Response 200 (compact (enc_managed managed) @ [CHR 0x0A]))"

text \<open>
  \<open>Decode\<close> reads the first value of a body cut at the limit. A literal that ends exactly
  at the limit of a longer body is not known to be complete.
\<close>

definition decode_put :: "string \<Rightarrow> SIG gomap option result" where
  "decode_put body =
     (case parse_first (take maxBodyBytes body) of
        None \<Rightarrow> Inl syntax_error
      | Some (j, rest) \<Rightarrow>
          (if rest = [] \<and> maxBodyBytes < length body \<and> j = JNull
           then Inl (Err ''http: request body too large'')
           else dec_SIG_map True None j))"

definition putSigs :: "fsenv \<Rightarrow> (fs \<Rightarrow> goerror option) \<Rightarrow> Server \<Rightarrow> string \<Rightarrow> world \<Rightarrow> Response \<times> world" where
  "putSigs env reload srv body w =
     (case decode_put body of
        Inl e \<Rightarrow> (http_error (''invalid JSON body: '' @ Error e) 400, w)
      | Inr desired \<Rightarrow>
          (case PatchSigs env (TopologyFile srv) (case desired of None \<Rightarrow> [] | Some d \<Rightarrow> d) (SigPrefix srv) (FS w) of
             (Some e, s) \<Rightarrow>
               (if is_panic e then Aborted else http_error ''patching topology'' 500, w\<lparr>FS := s\<rparr>)
           | (None, s) \<Rightarrow>
               (case reload (Disk s) of
                  Some e \<Rightarrow> (http_error ''topology updated but reload failed'' 502,
                    w\<lparr>FS := s, Reloads := Reloads w @ [Disk s]\<rparr>)
                | None \<Rightarrow> (Response 204 [], w\<lparr>FS := s, Reloads := Reloads w @ [Disk s]\<rparr>))))"

definition sigs_handler :: "fsenv \<Rightarrow> (fs \<Rightarrow> goerror option) \<Rightarrow> Server \<Rightarrow> Request \<Rightarrow> world \<Rightarrow> Response \<times> world" where
  "sigs_handler env reload srv r w =
     (if Method r = ''GET'' then (getSigs env srv w, w)
      else if Method r = ''PUT'' then putSigs env reload srv (Body r) w
      else (http_error ''method not allowed'' 405, w))"

definition auth :: "Server \<Rightarrow> (Request \<Rightarrow> world \<Rightarrow> Response \<times> world) \<Rightarrow> Request \<Rightarrow> world \<Rightarrow> Response \<times> world" where
  "auth srv next_handler r w =
     (if Token srv = [] \<or> ''Bearer '' @ Token srv \<noteq> Authorization r
      then (http_error ''unauthorized'' 401, w)
      else next_handler r w)"

definition Handler :: "fsenv \<Rightarrow> (fs \<Rightarrow> goerror option) \<Rightarrow> Server \<Rightarrow> Request \<Rightarrow> world \<Rightarrow> Response \<times> world" where
  "Handler env reload srv r w =
     (if Path r = ''/v1/sigs'' then auth srv (sigs_handler env reload srv) r w
      else (http_error ''404 page not found'' 404, w))"

section \<open>The registrar command\<close>

record Flags =
  topology :: string
  pfx_flag :: string
  listen :: string
  reloadCmd :: string
  tlsCert :: string
  tlsKey :: string

definition default_flags :: Flags where
  "default_flags = \<lparr>topology = ''/etc/scion/topology.json'', pfx_flag = ''k8s-'', listen = '':8642'',
     reloadCmd = ''systemctl kill -s HUP scion-control'', tlsCert = [], tlsKey = []\<rparr>"

record HTTPServer =
  Addr :: string
  ReadHeaderTimeout :: nat
  ReadTimeout :: nat
  WriteTimeout :: nat
  IdleTimeout :: nat
  TLS :: bool

text \<open>What \<open>run\<close> sets up before it serves: the service, the reload command and the server.\<close>

definition registrar_setup :: "Flags \<Rightarrow> string \<Rightarrow> (Server \<times> string list \<times> HTTPServer) result" where
  "registrar_setup fl token =
     (if (tlsCert fl = []) \<noteq> (tlsKey fl = [])
      then Inl (Err ''--tls-cert and --tls-key must be set together'')
      else if token = []
      then Inl (Err ''REGISTRAR_TOKEN must be set (fail-closed: no anonymous access)'')
      else if Fields (reloadCmd fl) = [] then Inl (Err ''--reload-cmd must not be empty'')
      else Inr (\<lparr>TopologyFile = topology fl, SigPrefix = pfx_flag fl, Token = token\<rparr>,
        Fields (reloadCmd fl),
        \<lparr>Addr = listen fl, ReadHeaderTimeout = 10 * Second, ReadTimeout = 30 * Second,
         WriteTimeout = 2 * ReloadTimeout, IdleTimeout = 120 * Second, TLS = (tlsCert fl \<noteq> [])\<rparr>))"

text \<open>Serving ends with an error of the listener, or on a signal with the result of the shutdown.\<close>

datatype serve_end = ServeError goerror | Signalled "goerror option"

definition registrar_run :: "Flags \<Rightarrow> string \<Rightarrow> serve_end \<Rightarrow> goerror option" where
  "registrar_run fl token ending =
     (case registrar_setup fl token of
        Inl e \<Rightarrow> Some e
      | Inr _ \<Rightarrow> (case ending of ServeError e \<Rightarrow> Some e | Signalled r \<Rightarrow> r))"

text \<open>The reload command: \<open>exec\<close> runs it and returns its output and error.\<close>

definition Reload_cmd :: "(string list \<Rightarrow> string \<times> goerror option) \<Rightarrow> Flags \<Rightarrow> goerror option" where
  "Reload_cmd exec fl =
     (case exec (Fields (reloadCmd fl)) of
        (out, Some e) \<Rightarrow> Some (Wrap (reloadCmd fl) (Err (Error e @ '' (output: '' @ out @ '')'')))
      | (out, None) \<Rightarrow> None)"

section \<open>Backends of the operator\<close>

record NodeSIG =
  Name :: string
  NodeCtrlAddr :: string
  NodeDataAddr :: string

definition to_SIG :: "NodeSIG \<Rightarrow> SIG" where
  "to_SIG n = \<lparr>CtrlAddr = NodeCtrlAddr n, DataAddr = NodeDataAddr n\<rparr>"

definition DefaultTimeout :: nat where
  "DefaultTimeout = 2 * ReloadTimeout + 10 * Second"

record HTTP =
  Endpoint :: string
  BearerToken :: string
  CABundle :: string

text \<open>
  The HTTP client and the network are parameters: which CA bundles hold a certificate,
  which URLs are well formed, and what a request to a URL does.
\<close>

record Client =
  Timeout :: nat
  RootCAs :: "string option"

record 'w Net =
  pem_ok :: "string \<Rightarrow> bool"
  url_error :: "string \<Rightarrow> goerror option"
  Do :: "Client \<Rightarrow> string \<Rightarrow> Request \<Rightarrow> 'w \<Rightarrow> Response result \<times> 'w"

definition http_client :: "(string \<Rightarrow> bool) \<Rightarrow> HTTP \<Rightarrow> Client result" where
  "http_client certs_ok h =
     (if CABundle h \<noteq> [] then
        (if \<not> certs_ok (CABundle h)
         then Inl (Err ''registrar CA bundle contains no valid PEM certificates'')
         else Inr \<lparr>Timeout = DefaultTimeout, RootCAs = Some (CABundle h)\<rparr>)
      else Inr \<lparr>Timeout = DefaultTimeout, RootCAs = None\<rparr>)"

definition sig_body :: "NodeSIG list \<Rightarrow> SIG gomap" where
  "sig_body sigs = mputs (map (\<lambda>n. (Name n, to_SIG n)) sigs) []"

definition HTTP_Ensure :: "'w Net \<Rightarrow> HTTP \<Rightarrow> NodeSIG list \<Rightarrow> 'w \<Rightarrow> goerror option \<times> 'w" where
  "HTTP_Ensure net h sigs w =
     (let url = Endpoint h @ ''/v1/sigs'';
          req = \<lparr>Method = ''PUT'', Path = url, Authorization = ''Bearer '' @ BearerToken h,
                 Body = compact (enc_managed (sig_body sigs))\<rparr>
      in case url_error net url of
           Some e \<Rightarrow> (Some (Wrap ''build request'' e), w)
         | None \<Rightarrow>
             (case http_client (pem_ok net) h of
                Inl e \<Rightarrow> (Some e, w)
              | Inr c \<Rightarrow>
                  (case Do net c url req w of
                     (Inl e, w') \<Rightarrow> (Some (Wrap ''put sigs'' e), w')
                   | (Inr Aborted, w') \<Rightarrow> (Some (Wrap ''put sigs'' (Err ''EOF'')), w')
                   | (Inr (Response code body), w') \<Rightarrow>
                       (if code \<noteq> 204
                        then (Some (Err (''put sigs: status '' @ Itoa code @ '' '' @ StatusText code @ '': '' @ TrimSpace (take 512 body))), w')
                        else (None, w')))))"

datatype Backend = Manual | HTTPBackend HTTP | Anapaya

definition Ensure :: "'w Net \<Rightarrow> Backend \<Rightarrow> NodeSIG list \<Rightarrow> 'w \<Rightarrow> goerror option \<times> 'w" where
  "Ensure net b sigs w =
     (case b of
        Manual \<Rightarrow> (None, w)
      | HTTPBackend h \<Rightarrow> HTTP_Ensure net h sigs w
      | Anapaya \<Rightarrow> (Some (Wrap ''anapaya backend'' ErrNotImplemented), w))"

text \<open>
  The network that delivers a request for the service's URL to the service as it is: the
  composition of the operator's backend with the AS-side service.
\<close>

definition direct :: "fsenv \<Rightarrow> (fs \<Rightarrow> goerror option) \<Rightarrow> Server \<Rightarrow> string \<Rightarrow> world Net" where
  "direct env reload srv endpoint =
     \<lparr>pem_ok = (\<lambda>_. True), url_error = (\<lambda>_. None),
      Do = (\<lambda>c url r w.
        if HasPrefix url endpoint
        then (case Handler env reload srv (r\<lparr>Path := TrimPrefix url endpoint\<rparr>) w of (resp, w') \<Rightarrow> (Inr resp, w'))
        else (Inl (Err ''connection refused''), w))\<rparr>"

section \<open>One request\<close>

lemma Handler_cases:
  obtains (none) "snd (Handler env reload srv r w) = w" "fst (Handler env reload srv r w) \<noteq> Response 204 []"
  | (put) "Path r = ''/v1/sigs''" "Method r = ''PUT''" "Token srv \<noteq> []" "Authorization r = ''Bearer '' @ Token srv"
    "Handler env reload srv r w = putSigs env reload srv (Body r) w"
  by (cases "Path r = ''/v1/sigs''"; cases "Method r = ''PUT''"; cases "Token srv = []";
      cases "Authorization r = ''Bearer '' @ Token srv")
    (auto simp: Handler_def auth_def sigs_handler_def http_error_def getSigs_def split: sum.split)

lemma putSigs_cases:
  obtains (bad) e where "decode_put body = Inl e" "putSigs env reload srv body w =
      (http_error (''invalid JSON body: '' @ Error e) 400, w)"
  | (failed) d e s where "decode_put body = Inr d"
    "PatchSigs env (TopologyFile srv) (case d of None \<Rightarrow> [] | Some m \<Rightarrow> m) (SigPrefix srv) (FS w) = (Some e, s)"
    "putSigs env reload srv body w =
      (if is_panic e then Aborted else http_error ''patching topology'' 500, w\<lparr>FS := s\<rparr>)"
  | (patched) d s where "decode_put body = Inr d"
    "PatchSigs env (TopologyFile srv) (case d of None \<Rightarrow> [] | Some m \<Rightarrow> m) (SigPrefix srv) (FS w) = (None, s)"
    "putSigs env reload srv body w =
      (if reload (Disk s) = None then Response 204 [] else http_error ''topology updated but reload failed'' 502,
       w\<lparr>FS := s, Reloads := Reloads w @ [Disk s]\<rparr>)"
proof (cases "decode_put body")
  case (Inl e)
  then show thesis by (intro bad) (simp_all add: putSigs_def)
next
  case (Inr d)
  obtain e s where p: "PatchSigs env (TopologyFile srv) (case d of None \<Rightarrow> [] | Some m \<Rightarrow> m) (SigPrefix srv) (FS w) = (e, s)"
    by fastforce
  show thesis
  proof (cases e)
    case None
    with Inr p show thesis by (intro patched [of d s]) (simp_all add: putSigs_def split: option.split)
  next
    case (Some x)
    with Inr p show thesis by (intro failed [of d x s]) (simp_all add: putSigs_def)
  qed
qed



section \<open>Request bodies\<close>

lemma dec_SIG_map_managed: "map_ok m \<Longrightarrow> dec_SIG_map True None (enc_managed m) = Inr (Some m)"
proof -
  assume "map_ok m"
  then have "mputs m [] = m" by (rule mputs_sorted)
  then have "dec_SIG_entries True [] (map (\<lambda>(name, g). (escape name, enc_SIG g)) m) = Inr m"
    by (simp add: dec_SIG_entries_iff list_all_iff case_prod_unfold comp_def)
  then show ?thesis by (simp add: dec_SIG_map_def enc_managed_def)
qed

lemma wf_enc_managed: "wf_json (enc_managed m)"
  by (auto simp: enc_managed_def list_all_iff)

lemma parse_first_compact: "wf_json j \<Longrightarrow> parse_first (compact j) = Some (j, [])"
  using parse_value_show [OF ws_layouts(1), of j "[]" 0]
  by (simp add: parse_first_def compact_def delim_def del: parse_value.simps)

lemma decode_put_managed:
  assumes "map_ok m" "length (compact (enc_managed m)) \<le> maxBodyBytes"
  shows "decode_put (compact (enc_managed m)) = Inr (Some m)"
  using assms parse_first_compact [OF wf_enc_managed, of m] by (simp add: decode_put_def dec_SIG_map_managed)

lemma dec_SIG_map_sorted: "dec_SIG_map strict None j = Inr (Some m) \<Longrightarrow> map_ok m"
  by (auto simp: dec_SIG_map_def dec_SIG_entries_iff map_ok_mputs gm.ok_empty split: json.splits sum.splits)

lemma decode_put_sorted: "decode_put body = Inr d \<Longrightarrow> map_ok (case d of None \<Rightarrow> [] | Some m \<Rightarrow> m)"
  by (auto simp: decode_put_def gm.ok_empty dest: dec_SIG_map_sorted split: option.splits prod.splits if_splits)

section \<open>Registration\<close>

text \<open>A topology file the service can work on: readable, with a single \<open>sigs\<close> key.\<close>

definition readable :: "Server \<Rightarrow> io \<Rightarrow> bool" where
  "readable srv s \<longleftrightarrow> map_ok (Disk s) \<and>
     (case mget (Disk s) (TopologyFile srv) of
        None \<Rightarrow> False
      | Some f \<Rightarrow> one_sigs_key (Content f) \<and> is_ok (managed_text (TopologyFile srv) (Content f) (SigPrefix srv)))"

definition managed :: "Server \<Rightarrow> io \<Rightarrow> SIG gomap result" where
  "managed srv s =
     (case mget (Disk s) (TopologyFile srv) of
        None \<Rightarrow> Inl (ErrNotExist (TopologyFile srv))
      | Some f \<Rightarrow> managed_text (TopologyFile srv) (Content f) (SigPrefix srv))"

lemma ManagedSigs_managed:
  "Fault env OpRead (TopologyFile srv) = None \<Longrightarrow> ManagedSigs env (TopologyFile srv) (SigPrefix srv) s = managed srv s"
  by (simp add: ManagedSigs_def ReadFile_def managed_def split: option.split)

lemma PatchSigs_managed:
  assumes "fst (PatchSigs env (TopologyFile srv) d (SigPrefix srv) s) = None" "readable srv s" "map_ok d"
  shows "managed srv (snd (PatchSigs env (TopologyFile srv) d (SigPrefix srv) s)) = Inr d"
proof -
  have "map_ok (Disk s)" using assms(2) by (simp add: readable_def)
  from PatchSigs_ok [OF assms(1) this] obtain old out where o: "mget (Disk s) (TopologyFile srv) = Some old"
    "patch_topology (TopologyFile srv) (Content old) d (SigPrefix srv) = Inr out"
    "mget (Disk (snd (PatchSigs env (TopologyFile srv) d (SigPrefix srv) s))) (TopologyFile srv) = Some (old\<lparr>Content := out\<rparr>)" .
  with assms(2) managed_after_patch_ok [OF o(2) assms(3)] show ?thesis by (simp add: readable_def managed_def)
qed

lemma put_registers_ok:
  assumes "Handler env reload srv r w = (Response 204 [], w')" "readable srv (FS w)"
  shows "\<exists>d. decode_put (Body r) = Inr d \<and> managed srv (FS w') = Inr (case d of None \<Rightarrow> [] | Some m \<Rightarrow> m) \<and>
    Reloads w' = Reloads w @ [Disk (FS w')] \<and> reload (Disk (FS w')) = None"
proof (cases rule: Handler_cases [of env reload srv r w])
  case none
  with assms(1) show ?thesis by simp
next
  case put
  show ?thesis
  proof (cases rule: putSigs_cases [of "Body r" env reload srv w])
    case (patched d s)
    with PatchSigs_managed [of env srv _ "FS w", OF _ assms(2) decode_put_sorted [OF patched(1)]] put assms(1)
    show ?thesis by (auto simp: http_error_def split: if_splits)
  qed (use put assms(1) in \<open>auto simp: http_error_def split: if_splits\<close>)
qed

text \<open>A service, a request and a world, for concrete instances.\<close>

definition ex_server :: Server where
  "ex_server = \<lparr>TopologyFile = ''t.json'', SigPrefix = ''k8s-'', Token = ''secret''\<rparr>"

definition ex_request :: Request where
  "ex_request = \<lparr>Method = ''PUT'', Path = ''/v1/sigs'', Authorization = ''Bearer secret'',
     Body = compact (enc_managed ex_desired)\<rparr>"

definition ex_world :: world where
  "ex_world = \<lparr>FS = \<lparr>Disk = ex_disk, History = []\<rparr>, Reloads = []\<rparr>"

lemma ex_readable: "readable ex_server (FS ex_world)"
  by code_simp

lemma ex_put: "Handler no_faults (\<lambda>_. None) ex_server ex_request ex_world =
    (Response 204 [], snd (Handler no_faults (\<lambda>_. None) ex_server ex_request ex_world))"
proof -
  have "fst (Handler no_faults (\<lambda>_. None) ex_server ex_request ex_world) = Response 204 []" by code_simp
  then show ?thesis by (simp add: prod_eq_iff)
qed

text \<open>
  C29. A \<open>PUT\<close> answered with 204 registered exactly the set in its body: the managed entries
  of the file are that set, and the reload ran once, on the new file.
\<close>

theorem put_registers:
  assumes "Handler env reload srv r w = (Response 204 [], w')" "readable srv (FS w)"
  shows "\<exists>d. decode_put (Body r) = Inr d \<and> managed srv (FS w') = Inr (case d of None \<Rightarrow> [] | Some m \<Rightarrow> m) \<and>
    Reloads w' = Reloads w @ [Disk (FS w')] \<and> reload (Disk (FS w')) = None"
  by (rule put_registers_ok [OF assms])

theorem put_registers_witness:
  "\<exists>w'. Handler no_faults (\<lambda>_. None) ex_server ex_request ex_world = (Response 204 [], w') \<and>
    Reloads w' = [Disk (FS w')]"
proof -
  have "Reloads ex_world = []" by (simp add: ex_world_def)
  with put_registers [OF ex_put ex_readable] ex_put show ?thesis by fastforce
qed

lemma ensure_registers_ok:
  assumes "readable srv (FS w)" "length (compact (enc_managed (sig_body sigs))) \<le> maxBodyBytes"
  shows "case HTTP_Ensure (direct env reload srv (Endpoint h)) h sigs w of
      (None, w') \<Rightarrow> managed srv (FS w') = Inr (sig_body sigs) \<and> BearerToken h = Token srv \<and> Token srv \<noteq> []
    | (Some e, w') \<Rightarrow> BearerToken h \<noteq> Token srv \<or> Token srv = [] \<longrightarrow> w' = w"
proof -
  define r where "r = \<lparr>Method = ''PUT'', Path = ''/v1/sigs'', Authorization = ''Bearer '' @ BearerToken h,
     Body = compact (enc_managed (sig_body sigs))\<rparr>"
  obtain resp w' where H: "Handler env reload srv r w = (resp, w')" by fastforce
  have body: "decode_put (Body r) = Inr (Some (sig_body sigs))"
    using decode_put_managed [OF _ assms(2)] by (simp add: r_def sig_body_def map_ok_mputs gm.ok_empty)
  obtain c where c: "http_client (\<lambda>_. True) h = Inr c" by (cases "CABundle h = []") (simp_all add: http_client_def)
  have E: "HTTP_Ensure (direct env reload srv (Endpoint h)) h sigs w =
    (case resp of
       Aborted \<Rightarrow> (Some (Wrap ''put sigs'' (Err ''EOF'')), w')
     | Response code body \<Rightarrow>
         (if code \<noteq> 204
          then (Some (Err (''put sigs: status '' @ Itoa code @ '' '' @ StatusText code @ '': '' @ TrimSpace (take 512 body))), w')
          else (None, w')))"
    using H c by (simp add: HTTP_Ensure_def direct_def r_def Let_def split: Response.split)
  show ?thesis
  proof (cases "Token srv = [] \<or> BearerToken h \<noteq> Token srv")
    case True
    then have "Handler env reload srv r w = (http_error ''unauthorized'' 401, w)"
      by (auto simp: Handler_def auth_def r_def)
    with H have "resp = http_error ''unauthorized'' 401" "w' = w" by simp_all
    with E show ?thesis by (simp add: http_error_def)
  next
    case False
    show ?thesis
    proof (cases "resp = Response 204 []")
      case True
      from put_registers_ok [OF H [unfolded True] assms(1)] body E True False show ?thesis by simp
    next
      case not204: False
      have "Status resp \<noteq> 204 \<or> resp = Aborted"
        using H not204 False body
        by (cases rule: putSigs_cases [of "Body r" env reload srv w])
          (auto simp: Handler_def auth_def sigs_handler_def r_def http_error_def split: if_splits)
      with E False show ?thesis by (cases resp) auto
    qed
  qed
qed


text \<open>
  C30. The operator's backend and the service composed: when \<open>Ensure\<close> succeeds, the managed
  entries on the AS side are exactly the SIGs of the nodes, and when the tokens differ or the
  service has none, it fails and nothing changes.
\<close>

theorem ensure_registers:
  assumes "readable srv (FS w)" "length (compact (enc_managed (sig_body sigs))) \<le> maxBodyBytes"
  shows "case HTTP_Ensure (direct env reload srv (Endpoint h)) h sigs w of
      (None, w') \<Rightarrow> managed srv (FS w') = Inr (sig_body sigs) \<and> BearerToken h = Token srv \<and> Token srv \<noteq> []
    | (Some e, w') \<Rightarrow> BearerToken h \<noteq> Token srv \<or> Token srv = [] \<longrightarrow> w' = w"
  by (rule ensure_registers_ok [OF assms])

theorem ensure_registers_witness:
  "case HTTP_Ensure (direct no_faults (\<lambda>_. None) ex_server ''http://as:8642'')
      \<lparr>Endpoint = ''http://as:8642'', BearerToken = ''secret'', CABundle = []\<rparr>
      [\<lparr>Name = ''n1'', NodeCtrlAddr = ''10.0.0.1:30256'', NodeDataAddr = ''10.0.0.1:30056''\<rparr>] ex_world of
    (None, w') \<Rightarrow> managed ex_server (FS w') =
      Inr (sig_body [\<lparr>Name = ''n1'', NodeCtrlAddr = ''10.0.0.1:30256'', NodeDataAddr = ''10.0.0.1:30056''\<rparr>])
  | (Some e, w') \<Rightarrow> False"
proof -
  let ?h = "\<lparr>Endpoint = ''http://as:8642'', BearerToken = ''secret'', CABundle = []\<rparr>"
    and ?sigs = "[\<lparr>Name = ''n1'', NodeCtrlAddr = ''10.0.0.1:30256'', NodeDataAddr = ''10.0.0.1:30056''\<rparr>]"
  have "fst (HTTP_Ensure (direct no_faults (\<lambda>_. None) ex_server ''http://as:8642'') ?h ?sigs ex_world) = None"
    "length (compact (enc_managed (sig_body ?sigs))) \<le> maxBodyBytes" by code_simp+
  with ensure_registers [where h = ?h and env = no_faults and reload = "\<lambda>_. None", OF ex_readable, of ?sigs] show ?thesis
    by (auto split: option.splits prod.splits)
qed

section \<open>Any sequence of requests\<close>

text \<open>One event is a request together with the faults of the file system and the reload it meets.\<close>

type_synonym reg_event = "fsenv \<times> (fs \<Rightarrow> goerror option) \<times> Request"

definition reg_step :: "Server \<Rightarrow> reg_event \<Rightarrow> world \<Rightarrow> world" where
  "reg_step srv e w = (case e of (env, reload, r) \<Rightarrow> snd (Handler env reload srv r w))"

text \<open>Two topologies that agree on everything the operator does not manage.\<close>

definition same_unmanaged :: "string \<Rightarrow> string \<Rightarrow> string \<Rightarrow> bool" where
  "same_unmanaged pfx raw raw' \<longleftrightarrow>
     (\<forall>k. k \<noteq> ''sigs'' \<longrightarrow> topo_field raw' k = topo_field raw k) \<and>
     (\<forall>n. \<not> HasPrefix n pfx \<longrightarrow> topo_sig raw' n = topo_sig raw n)"

definition reg_inv :: "Server \<Rightarrow> world \<Rightarrow> world \<Rightarrow> bool" where
  "reg_inv srv w0 w \<longleftrightarrow>
     (\<forall>f0. map_ok (Disk (FS w0)) \<longrightarrow> mget (Disk (FS w0)) (TopologyFile srv) = Some f0 \<longrightarrow>
       map_ok (Disk (FS w)) \<and>
       (\<exists>f. mget (Disk (FS w)) (TopologyFile srv) = Some f \<and> Mode f = Mode f0 \<and>
          same_unmanaged (SigPrefix srv) (Content f0) (Content f)))"

lemma PatchSigs_unmanaged:
  assumes "map_ok (Disk s)" "mget (Disk s) f = Some old" "map_ok d"
  shows "map_ok (Disk (snd (PatchSigs env f d pfx s))) \<and>
    (\<exists>new. mget (Disk (snd (PatchSigs env f d pfx s))) f = Some new \<and> Mode new = Mode old \<and>
      same_unmanaged pfx (Content old) (Content new))"
  using assms(2)
proof (cases rule: PatchSigs_cases [of s f old env d pfx])
  case (failed e)
  with assms show ?thesis by (simp add: same_unmanaged_def)
next
  case (patched out)
  from tp.replaces [of s f env out "Mode old"] assms
  have r: "replaced (topology_temp env f) f \<lparr>Content = out, Mode = Mode old\<rparr> s (PatchSigs env f d pfx s)"
    by (simp add: patched(2))
  have "same_unmanaged pfx (Content old) out" "same_unmanaged pfx (Content old) (Content old)"
    using patch_entries [OF patched(1) assms(3)] by (simp_all add: same_unmanaged_def)
  with r assms(2) show ?thesis by (auto simp: replaced_def)
qed

lemma same_unmanaged_trans: "same_unmanaged pfx a b \<Longrightarrow> same_unmanaged pfx b c \<Longrightarrow> same_unmanaged pfx a c"
  by (simp add: same_unmanaged_def)

lemma reg_inv_step:
  assumes "reg_inv srv w0 w"
  shows "reg_inv srv w0 (reg_step srv e w)"
proof -
  obtain env reload r where e: "e = (env, reload, r)" by (cases e)
  have step: "FS (snd (Handler env reload srv r w)) = FS w \<or>
    (\<exists>d. map_ok d \<and> FS (snd (Handler env reload srv r w)) =
      snd (PatchSigs env (TopologyFile srv) d (SigPrefix srv) (FS w)))"
  proof (cases rule: Handler_cases [of env reload srv r w])
    case put
    show ?thesis
      by (cases rule: putSigs_cases [of "Body r" env reload srv w])
        (auto simp: put(5) dest: decode_put_sorted intro!: exI [of _ "case _ of None \<Rightarrow> [] | Some m \<Rightarrow> m"])
  qed simp
  show ?thesis unfolding reg_inv_def
  proof (intro allI impI)
    fix f0
    assume "map_ok (Disk (FS w0))" "mget (Disk (FS w0)) (TopologyFile srv) = Some f0"
    with assms obtain f where f: "map_ok (Disk (FS w))" "mget (Disk (FS w)) (TopologyFile srv) = Some f"
      "Mode f = Mode f0" "same_unmanaged (SigPrefix srv) (Content f0) (Content f)"
      by (auto simp: reg_inv_def)
    from step show "map_ok (Disk (FS (reg_step srv e w))) \<and>
       (\<exists>f. mget (Disk (FS (reg_step srv e w))) (TopologyFile srv) = Some f \<and> Mode f = Mode f0 \<and>
          same_unmanaged (SigPrefix srv) (Content f0) (Content f))"
      using f PatchSigs_unmanaged [OF f(1,2), of _ env "SigPrefix srv"] same_unmanaged_trans [OF f(4)]
      by (auto simp: reg_step_def e) (metis same_unmanaged_trans)+
  qed
qed

interpretation reg: invariant_machine w0 "reg_step srv" "reg_inv srv w0" for srv w0
  by unfold_locales (auto simp: reg_inv_step, simp add: reg_inv_def same_unmanaged_def)

text \<open>
  C31. No sequence of requests, authorised or not, with whatever faults of the file system on
  the way, ever loses the topology file or changes a field or an entry the operator does not
  manage.
\<close>

theorem requests_keep_unmanaged:
  assumes "map_ok (Disk (FS w0))" "mget (Disk (FS w0)) (TopologyFile srv) = Some f0"
  shows "\<exists>f. mget (Disk (FS (fold (reg_step srv) es w0))) (TopologyFile srv) = Some f \<and> Mode f = Mode f0 \<and>
    same_unmanaged (SigPrefix srv) (Content f0) (Content f)"
  using reg.inv_reachable [of srv w0 es] assms by (simp add: reg_inv_def)

theorem requests_keep_unmanaged_witness:
  "\<exists>f. mget (Disk (FS (fold (reg_step ex_server) [(no_faults, (\<lambda>_. None), ex_request)] ex_world))) ''t.json'' = Some f \<and>
    Mode f = mode644"
  using requests_keep_unmanaged [of ex_world ex_server _ "[(no_faults, (\<lambda>_. None), ex_request)]"] ex_ok(4,6)
  by (auto simp: ex_world_def ex_server_def)

end
