(* ===== verification/Platform.thy ===== *)
theory Platform
  imports Deny_List
begin

text \<open>
  The probe of the pod egress platform (\<open>controller/platform.go\<close>): a classification of the
  cluster that never fails, from the responses of the API server. The theorem states exactly
  when source preservation counts as verified.
\<close>

record podEgressPlatform =
  PlatStatus :: ConditionStatus
  PlatReason :: string
  PlatMessage :: string

definition platformDetectionFailed :: "goerror \<Rightarrow> podEgressPlatform" where
  "platformDetectionFailed e =
     \<lparr>PlatStatus = ConditionUnknown, PlatReason = ''PlatformDetectionFailed'', PlatMessage = Error e\<rparr>"

definition apiPresent :: "'o reads \<Rightarrow> string \<Rightarrow> bool" where
  "apiPresent rd kind = (ListLimit1 rd kind = None)"

definition vanilla_base :: string where
  "vanilla_base = ''OpenShift OVN-Kubernetes gateway configuration is not available''"

definition vanillaPlatformMessage :: "'o reads \<Rightarrow> string" where
  "vanillaPlatformMessage rd =
     (if apiPresent rd ''IPPoolList''
      then vanilla_base @ ''; Calico detected '' @ emdash @ '' source preservation requires prefixes '' @
        ''accepted from remote ASes to be covered by a disabled IPPool with '' @
        ''disableBGPExport (see docs/install.md, Vanilla Kubernetes)''
      else if apiPresent rd ''CiliumNodeList''
      then vanilla_base @ ''; Cilium detected '' @ emdash @ '' source preservation requires a '' @
        ''masquerade exclusion (BPF ip-masq-agent nonMasqueradeCIDRs) for '' @
        ''prefixes accepted from remote ASes (see docs/install.md, Vanilla Kubernetes)''
      else vanilla_base @ ''; ensure the CNI excludes prefixes accepted from remote ASes '' @
        ''from pod-egress masquerade (see docs/install.md, Vanilla Kubernetes)'')"

definition classifyPodEgressPlatform :: "'o op_accessors \<Rightarrow> 'o \<Rightarrow> podEgressPlatform" where
  "classifyPodEgressPlatform acc network =
     (let networkType = NestedString acc network [''spec'', ''defaultNetwork'', ''type'']
      in if networkType \<noteq> ''OVNKubernetes''
         then \<lparr>PlatStatus = ConditionUnknown, PlatReason = ''PlatformUnverified'',
               PlatMessage = ''default network type '' @ networkType @ '' is not OVN-Kubernetes''\<rparr>
         else (case NestedBool acc network [''spec'', ''defaultNetwork'', ''ovnKubernetesConfig'', ''gatewayConfig'', ''routingViaHost''] of
             Inl e \<Rightarrow> \<lparr>PlatStatus = ConditionFalse, PlatReason = ''HostRoutingDisabled'',
                       PlatMessage = ''OVN-Kubernetes routingViaHost has an invalid value''\<rparr>
           | Inr (routingViaHost, found) \<Rightarrow>
               (if \<not> found \<or> \<not> routingViaHost
                then \<lparr>PlatStatus = ConditionFalse, PlatReason = ''HostRoutingDisabled'',
                      PlatMessage = ''OVN-Kubernetes shared-gateway mode bypasses host routes; '' @
                        ''set spec.defaultNetwork.ovnKubernetesConfig.gatewayConfig.routingViaHost=true''\<rparr>
                else \<lparr>PlatStatus = ConditionTrue, PlatReason = ''HostRoutingEnabled'',
                      PlatMessage = ''OVN-Kubernetes routes pod egress through the node host routing table''\<rparr>)))"

definition sourcePreservationDisabled :: "string \<Rightarrow> podEgressPlatform" where
  "sourcePreservationDisabled msg =
     \<lparr>PlatStatus = ConditionFalse, PlatReason = ''SourcePreservationDisabled'', PlatMessage = msg\<rparr>"

fun accepted_condition :: "uval \<Rightarrow> bool" where
  "accepted_condition (UMap m) = (uget m ''type'' = Some (UStr ''Accepted'') \<and> uget m ''status'' = Some (UStr ''True''))"
| "accepted_condition v = False"

definition routeAdvertisementAccepted :: "'o op_accessors \<Rightarrow> 'o \<Rightarrow> bool" where
  "routeAdvertisementAccepted acc item =
     (NestedString acc item [''status'', ''status''] = ''Accepted'' \<or>
      list_ex accepted_condition (NestedSlice acc item [''status'', ''conditions'']))"

fun default_selector :: "uval \<Rightarrow> bool" where
  "default_selector (UMap m) = (uget m ''networkSelectionType'' = Some (UStr ''DefaultNetwork''))"
| "default_selector v = False"

fun hasAcceptedDefaultPodAdvertisement :: "'o op_accessors \<Rightarrow> 'o list \<Rightarrow> bool" where
  "hasAcceptedDefaultPodAdvertisement acc [] = False"
| "hasAcceptedDefaultPodAdvertisement acc (item # items) =
     (if \<not> routeAdvertisementAccepted acc item then hasAcceptedDefaultPodAdvertisement acc items
      else if ''PodNetwork'' \<notin> set (NestedStringSlice acc item [''spec'', ''advertisements''])
      then hasAcceptedDefaultPodAdvertisement acc items
      else if list_ex default_selector (NestedSlice acc item [''spec'', ''networkSelectors'']) then True
      else hasAcceptedDefaultPodAdvertisement acc items)"

definition detectPodEgressPlatform :: "'o op_accessors \<Rightarrow> 'o reads \<Rightarrow> podEgressPlatform" where
  "detectPodEgressPlatform acc rd =
     (case NetworkOperator rd of
        Inl e \<Rightarrow>
          (if tolerated e
           then \<lparr>PlatStatus = ConditionUnknown, PlatReason = ''PlatformUnverified'', PlatMessage = vanillaPlatformMessage rd\<rparr>
           else platformDetectionFailed (Wrap ''read OpenShift network operator config'' e))
      | Inr network \<Rightarrow>
          (let platform = classifyPodEgressPlatform acc network
           in if PlatStatus platform \<noteq> ConditionTrue then platform
              else if NestedString acc network [''spec'', ''defaultNetwork'', ''ovnKubernetesConfig'', ''routeAdvertisements''] \<noteq> ''Enabled''
              then sourcePreservationDisabled ''OVN routeAdvertisements must be Enabled to preserve pod source addresses''
              else (case RouteAdvertisementsList rd of
                  Inl e \<Rightarrow>
                    (if api_is RNotFound e \<or> api_is RNoMatch e
                     then sourcePreservationDisabled ''OVN RouteAdvertisements API is not available''
                     else if api_is RForbidden e
                     then \<lparr>PlatStatus = ConditionUnknown, PlatReason = ''PlatformUnverified'',
                           PlatMessage = ''OVN RouteAdvertisements are not readable by the operator''\<rparr>
                     else platformDetectionFailed (Wrap ''list OVN RouteAdvertisements'' e))
                | Inr routes \<Rightarrow>
                    (if \<not> hasAcceptedDefaultPodAdvertisement acc routes
                     then sourcePreservationDisabled ''no accepted RouteAdvertisements exports PodNetwork for the default network''
                     else \<lparr>PlatStatus = ConditionTrue, PlatReason = ''HostRoutingEnabled'',
                           PlatMessage = ''OVN-Kubernetes routes pod egress through the host with pod source preservation''\<rparr>))))"

section \<open>Verified platforms\<close>

lemma hasAccepted_iff:
  "hasAcceptedDefaultPodAdvertisement acc items \<longleftrightarrow>
     (\<exists>i \<in> set items. routeAdvertisementAccepted acc i \<and>
        ''PodNetwork'' \<in> set (NestedStringSlice acc i [''spec'', ''advertisements'']) \<and>
        list_ex default_selector (NestedSlice acc i [''spec'', ''networkSelectors'']))"
  by (induction items) auto

lemma classify_True_iff:
  "PlatStatus (classifyPodEgressPlatform acc network) = ConditionTrue \<longleftrightarrow>
     NestedString acc network [''spec'', ''defaultNetwork'', ''type''] = ''OVNKubernetes'' \<and>
     NestedBool acc network [''spec'', ''defaultNetwork'', ''ovnKubernetesConfig'', ''gatewayConfig'', ''routingViaHost''] = Inr (True, True)"
  by (auto simp: classifyPodEgressPlatform_def Let_def split: sum.splits if_splits)

definition platform_verified :: "'o op_accessors \<Rightarrow> 'o \<Rightarrow> 'o list \<Rightarrow> bool" where
  "platform_verified acc network routes \<longleftrightarrow>
     NestedString acc network [''spec'', ''defaultNetwork'', ''type''] = ''OVNKubernetes'' \<and>
     NestedBool acc network [''spec'', ''defaultNetwork'', ''ovnKubernetesConfig'', ''gatewayConfig'', ''routingViaHost''] = Inr (True, True) \<and>
     NestedString acc network [''spec'', ''defaultNetwork'', ''ovnKubernetesConfig'', ''routeAdvertisements''] = ''Enabled'' \<and>
     (\<exists>i \<in> set routes. routeAdvertisementAccepted acc i \<and>
        ''PodNetwork'' \<in> set (NestedStringSlice acc i [''spec'', ''advertisements'']) \<and>
        list_ex default_selector (NestedSlice acc i [''spec'', ''networkSelectors'']))"

lemma platform_failed_Unknown [simp]:
  "PlatStatus (platformDetectionFailed e) = ConditionUnknown" "PlatStatus (sourcePreservationDisabled m) = ConditionFalse"
  by (simp_all add: platformDetectionFailed_def sourcePreservationDisabled_def)

text \<open>
  C20. The platform condition is True exactly when both optional APIs were read and show an
  OVN-Kubernetes cluster that routes through the host, with route advertisements enabled and an
  accepted one that exports the default pod network; and an error of the API server other than
  absence of the route API never yields False, so a failed probe cannot mark the service
  unavailable.
\<close>

theorem platform_True_iff:
  "(PlatStatus (detectPodEgressPlatform acc rd) = ConditionTrue \<longleftrightarrow>
     (\<exists>network routes. NetworkOperator rd = Inr network \<and> RouteAdvertisementsList rd = Inr routes \<and>
        platform_verified acc network routes)) \<and>
   (PlatStatus (detectPodEgressPlatform acc rd) = ConditionFalse \<longrightarrow>
     (\<exists>network. NetworkOperator rd = Inr network) \<and>
     (\<forall>e. RouteAdvertisementsList rd = Inl e \<and> \<not> api_is RNotFound e \<and> \<not> api_is RNoMatch e \<longrightarrow>
        (\<exists>network. NetworkOperator rd = Inr network \<and>
          (PlatStatus (classifyPodEgressPlatform acc network) = ConditionFalse \<or>
           NestedString acc network [''spec'', ''defaultNetwork'', ''ovnKubernetesConfig'', ''routeAdvertisements''] \<noteq> ''Enabled''))))"
proof (cases "NetworkOperator rd")
  case (Inl e)
  then show ?thesis by (simp add: detectPodEgressPlatform_def)
next
  case (Inr network)
  show ?thesis
  proof (cases "PlatStatus (classifyPodEgressPlatform acc network) = ConditionTrue")
    case False
    then show ?thesis
      using Inr by (auto simp: detectPodEgressPlatform_def Let_def platform_verified_def classify_True_iff)
  next
    case True
    then show ?thesis
      using Inr
      by (cases "RouteAdvertisementsList rd")
        (auto simp: detectPodEgressPlatform_def platform_verified_def classify_True_iff hasAccepted_iff)
  qed
qed

definition ex_network :: uval where
  "ex_network = UMap [(''spec'', UMap [(''defaultNetwork'', UMap [(''type'', UStr ''OVNKubernetes''),
     (''ovnKubernetesConfig'', UMap [(''routeAdvertisements'', UStr ''Enabled''),
        (''gatewayConfig'', UMap [(''routingViaHost'', UBool True)])])])])]"

definition ex_route :: uval where
  "ex_route = UMap [(''spec'', UMap [(''advertisements'', UList [UStr ''PodNetwork'']),
       (''networkSelectors'', UList [UMap [(''networkSelectionType'', UStr ''DefaultNetwork'')]])]),
     (''status'', UMap [(''status'', UStr ''Accepted'')])]"

theorem platform_True_iff_witness:
  "PlatStatus (detectPodEgressPlatform ex_op_accessors
      ((ex_reads [])\<lparr>NetworkOperator := Inr ex_network, RouteAdvertisementsList := Inr [ex_route]\<rparr>)) = ConditionTrue \<and>
   PlatStatus (detectPodEgressPlatform ex_op_accessors
      ((ex_reads [])\<lparr>NetworkOperator := Inr ex_network, RouteAdvertisementsList := Inl (ApiErr ROther ''timeout'')\<rparr>)) \<noteq> ConditionFalse"
proof -
  have "platform_verified ex_op_accessors ex_network [ex_route]"
    by (simp add: platform_verified_def ex_op_accessors_def ex_network_def ex_route_def uget_def routeAdvertisementAccepted_def)
  then have "PlatStatus (detectPodEgressPlatform ex_op_accessors
      ((ex_reads [])\<lparr>NetworkOperator := Inr ex_network, RouteAdvertisementsList := Inr [ex_route]\<rparr>)) = ConditionTrue"
    by (intro platform_True_iff [THEN conjunct1, THEN iffD2]) simp
  moreover have "PlatStatus (detectPodEgressPlatform ex_op_accessors
      ((ex_reads [])\<lparr>NetworkOperator := Inr ex_network, RouteAdvertisementsList := Inl (ApiErr ROther ''timeout'')\<rparr>)) \<noteq> ConditionFalse"
    by code_simp
  ultimately show ?thesis by simp
qed

end
