(* ===== verification/Registrar_Sync.thy ===== *)
theory Registrar_Sync
  imports Operator_Api Registrar Platform
begin

text \<open>
  The operator's side of the registration (\<open>controller/registrar_sync.go\<close>): the SIG set of the
  nodes, the choice of the backend, one synchronisation and the verdict on degradation. The
  theorems compose it with the backends and the service of theory \<open>Registrar\<close>.
\<close>

section \<open>Desired set\<close>

definition sigCtrlPort :: nat where "sigCtrlPort = 30256"
definition sigDataPort :: nat where "sigDataPort = 30056"

definition registrarTimeout :: nat where
  "registrarTimeout = DefaultTimeout + 5 * Second"

definition node_sig :: "string \<Rightarrow> string \<Rightarrow> NodeSIG" where
  "node_sig nm ip =
     \<lparr>Name = nm, NodeCtrlAddr = ip @ '':'' @ Itoa sigCtrlPort, NodeDataAddr = ip @ '':'' @ Itoa sigDataPort\<rparr>"

fun collect_sigs :: "lib \<Rightarrow> string gomap \<Rightarrow> ClusterNode list \<Rightarrow> NodeSIG list \<times> string list" where
  "collect_sigs lb sel [] = ([], [])"
| "collect_sigs lb sel (n # ns) =
     (case collect_sigs lb sel ns of (sigs, skipped) \<Rightarrow>
        (if \<not> SelectorMatches lb sel (NodeLabels n) then (sigs, skipped)
         else (let ip = internal_ip (Addresses n)
               in if ip = [] then (sigs, NodeMetaName n # skipped)
                  else (node_sig (NodeMetaName n) ip # sigs, skipped))))"

definition nodesToSIGs :: "lib \<Rightarrow> ClusterNode list \<Rightarrow> string gomap \<Rightarrow> NodeSIG list \<times> string list" where
  "nodesToSIGs lb nodes sel =
     (case collect_sigs lb sel nodes of (sigs, skipped) \<Rightarrow> (sort_key Name sigs, sort skipped))"

section \<open>Backend\<close>

definition backendFor :: "('o, 'w) kube \<Rightarrow> ScionNetwork \<Rightarrow> 'w \<Rightarrow> Backend result" where
  "backendFor kb sn w =
     (let reg = RegistrarCfg (Spec sn)
      in if SpecBackend reg = [] \<or> SpecBackend reg = ''manual'' then Inr Manual
         else if SpecBackend reg = ''http''
         then (case SpecCredentials reg of
             Some ref \<Rightarrow>
               (case GetSecret kb ref w of
                  Inl e \<Rightarrow> Inl (Wrap (''read credentials secret '' @ Namespace @ ''/'' @ ref) e)
                | Inr sec \<Rightarrow>
                    (case mget (SecData sec) ''token'' of
                       None \<Rightarrow> Inl (Err (''credentials secret '' @ ref @ '' has no token key''))
                     | Some token \<Rightarrow>
                         Inr (HTTPBackend \<lparr>Endpoint = SpecEndpoint reg, BearerToken = token,
                           CABundle = (case mget (SecData sec) ''ca.crt'' of None \<Rightarrow> [] | Some ca \<Rightarrow> ca)\<rparr>)))
           | None \<Rightarrow> Inr (HTTPBackend \<lparr>Endpoint = SpecEndpoint reg, BearerToken = [], CABundle = []\<rparr>))
         else if SpecBackend reg = ''anapaya'' then Inr Anapaya
         else Inl (Err (''unknown registrar backend '' @ SpecBackend reg)))"

section \<open>One synchronisation\<close>

definition desired_text :: "NodeSIG \<Rightarrow> string" where
  "desired_text s = Name s @ ''='' @ NodeCtrlAddr s @ '','' @ NodeDataAddr s"

definition syncRegistrar ::
  "lib \<Rightarrow> ('o, 'w) kube \<Rightarrow> 'w Net \<Rightarrow> int \<Rightarrow> ScionNetwork \<Rightarrow> 'w \<Rightarrow> (RegistrarStatus \<times> bool) \<times> 'w" where
  "syncRegistrar lb kb net now sn w =
     (let st = StatusRegistrar (SnStatus sn)
      in case NodeList (ReadState kb w) of
           Inl e \<Rightarrow> ((st\<lparr>LastError := ''list nodes: '' @ Error e\<rparr>, True), w)
         | Inr nodes \<Rightarrow>
             (case nodesToSIGs lb nodes (NodeSelector (Spec sn)) of (sigs, skipped) \<Rightarrow>
                (let st = st\<lparr>DesiredSIGs := map desired_text sigs\<rparr>;
                     (err, w') = (case backendFor kb sn w of Inl e \<Rightarrow> (Some e, w) | Inr b \<Rightarrow> Ensure net b sigs w)
                 in case err of
                      Some e \<Rightarrow> ((st\<lparr>LastError := Error e\<rparr>, True), w')
                    | None \<Rightarrow>
                        ((st\<lparr>RegisteredNodes := int32 (int (length sigs)), LastSyncTime := Some now, LastError := []\<rparr>, False), w'))))"

definition degradedReason ::
  "nat \<Rightarrow> string \<Rightarrow> podEgressPlatform \<Rightarrow> bool \<Rightarrow> string \<Rightarrow> string \<Rightarrow> bool \<times> string \<times> string" where
  "degradedReason degradedAgents unreadyMsg platform regFailed regLastError backend =
     (let regDegraded = (regFailed \<and> backend \<noteq> [] \<and> backend \<noteq> ''manual'')
      in if degradedAgents > 0 then (True, ''UnreadyAgents'', unreadyMsg)
         else if PlatStatus platform = ConditionFalse then (True, PlatReason platform, PlatMessage platform)
         else if regDegraded then (True, ''RegistrarSyncFailed'', regLastError)
         else (False, ''AsExpected'', unreadyMsg))"

section \<open>The desired set\<close>

definition sig_of :: "ClusterNode \<Rightarrow> NodeSIG" where
  "sig_of n = node_sig (NodeMetaName n) (internal_ip (Addresses n))"

definition registrable :: "lib \<Rightarrow> string gomap \<Rightarrow> ClusterNode \<Rightarrow> bool" where
  "registrable lb sel n \<longleftrightarrow> SelectorMatches lb sel (NodeLabels n) \<and> internal_ip (Addresses n) \<noteq> []"

lemma collect_sigs_filter:
  "fst (collect_sigs lb sel ns) = map sig_of (filter (registrable lb sel) ns)"
  "snd (collect_sigs lb sel ns) =
     map NodeMetaName (filter (\<lambda>n. SelectorMatches lb sel (NodeLabels n) \<and> internal_ip (Addresses n) = []) ns)"
  by (induction ns) (auto simp: registrable_def sig_of_def Let_def split: prod.splits)

lemma nodesToSIGs_fst: "fst (nodesToSIGs lb ns sel) = sort_key Name (map sig_of (filter (registrable lb sel) ns))"
  by (simp add: nodesToSIGs_def case_prod_beta' collect_sigs_filter)

lemma Name_sig_of [simp]: "Name (sig_of n) = NodeMetaName n"
  by (simp add: sig_of_def node_sig_def)

lemma distinct_sort_key: "distinct (map f xs) \<Longrightarrow> distinct (map f (sort_key f xs))"
  by (simp only: distinct_map distinct_sort set_sort)

lemma distinct_sig_names:
  assumes "distinct (map NodeMetaName ns)"
  shows "distinct (map Name (fst (nodesToSIGs lb ns sel)))"
proof -
  have "map Name (map sig_of (filter (registrable lb sel) ns)) = map NodeMetaName (filter (registrable lb sel) ns)"
    by simp
  then have "distinct (map Name (map sig_of (filter (registrable lb sel) ns)))"
    using assms distinct_map_filter by metis
  then show ?thesis unfolding nodesToSIGs_fst by (rule distinct_sort_key)
qed

text \<open>With distinct node names the set depends on the nodes only, not on the order of the list.\<close>

lemma nodesToSIGs_same:
  assumes "set ns = set ns'" "distinct (map NodeMetaName ns)" "distinct (map NodeMetaName ns')"
  shows "fst (nodesToSIGs lb ns sel) = fst (nodesToSIGs lb ns' sel)"
proof -
  note d = distinct_sig_names [OF assms(2), of lb sel] distinct_sig_names [OF assms(3), of lb sel]
  have "set (fst (nodesToSIGs lb ns sel)) = set (fst (nodesToSIGs lb ns' sel))"
    using assms(1) by (simp add: nodesToSIGs_fst)
  moreover have "inj_on Name (set (fst (nodesToSIGs lb ns sel)))" using d(1) by (simp only: distinct_map)
  moreover have "sorted (map Name (fst (nodesToSIGs lb ns sel)))" "sorted (map Name (fst (nodesToSIGs lb ns' sel)))"
    by (simp_all add: nodesToSIGs_fst)
  ultimately show ?thesis using d by (intro map_sorted_distinct_set_unique [of Name]) simp_all
qed

lemma sig_body_nodes:
  assumes "distinct (map NodeMetaName ns)"
  shows "mget (sig_body (fst (nodesToSIGs lb ns sel))) k = Some s \<longleftrightarrow>
    (\<exists>n \<in> set ns. registrable lb sel n \<and> k = NodeMetaName n \<and> s = to_SIG (sig_of n))"
proof -
  let ?l = "fst (nodesToSIGs lb ns sel)"
  let ?kv = "map (\<lambda>n. (Name n, to_SIG n)) ?l"
  have "map fst ?kv = map Name ?l" by simp
  then have "distinct (map fst ?kv)" using distinct_sig_names [OF assms] by metis
  then have "map_of (rev ?kv) = map_of ?kv" "map_of ?kv k = Some s \<longleftrightarrow> (k, s) \<in> set ?kv"
    by (rule map_of_rev_distinct, rule map_of_eq_Some_iff)
  moreover have "mget (sig_body ?l) k = map_of (rev ?kv) k"
    by (simp add: sig_body_def mget_mputs split: option.split)
  ultimately have "mget (sig_body ?l) k = Some s \<longleftrightarrow> (k, s) \<in> set ?kv" by simp
  then show ?thesis by (auto simp: nodesToSIGs_fst image_iff)
qed

section \<open>Synchronisation with the service\<close>

lemma backendFor_http:
  assumes "backendFor kb sn w = Inr b" "SpecBackend (RegistrarCfg (Spec sn)) = ''http''"
  obtains h where "b = HTTPBackend h" "Endpoint h = SpecEndpoint (RegistrarCfg (Spec sn))"
  using assms by (auto simp: backendFor_def Let_def split: option.splits sum.splits)

lemma sync_failed_keeps:
  assumes "syncRegistrar lb kb net now sn w = ((st, True), w')"
  shows "RegisteredNodes st = RegisteredNodes (StatusRegistrar (SnStatus sn)) \<and>
    LastSyncTime st = LastSyncTime (StatusRegistrar (SnStatus sn))"
  using assms by (auto simp: syncRegistrar_def Let_def split: sum.splits prod.splits option.splits)

lemma sync_ok_cases:
  assumes "syncRegistrar lb kb net now sn w = ((st, False), w')"
  obtains nodes b sigs where "NodeList (ReadState kb w) = Inr nodes" "sigs = fst (nodesToSIGs lb nodes (NodeSelector (Spec sn)))"
    "backendFor kb sn w = Inr b" "Ensure net b sigs w = (None, w')" "RegisteredNodes st = int32 (int (length sigs))"
    "LastSyncTime st = Some now" "LastError st = []" "DesiredSIGs st = map desired_text sigs"
  using assms by (auto simp: syncRegistrar_def Let_def split: sum.splits prod.splits option.splits)

lemma sync_registers_ok:
  assumes "syncRegistrar lb kb (direct env reload srv (SpecEndpoint (RegistrarCfg (Spec sn)))) now sn w = ((st, False), w')"
    and "SpecBackend (RegistrarCfg (Spec sn)) = ''http''" "readable srv (FS w)"
    and "NodeList (ReadState kb w) = Inr nodes" "distinct (map NodeMetaName nodes)" "length nodes < 2 ^ 31"
    and "length (compact (enc_managed (sig_body (fst (nodesToSIGs lb nodes (NodeSelector (Spec sn))))))) \<le> maxBodyBytes"
  shows "(\<exists>m. managed srv (FS w') = Inr m \<and> (\<forall>k s. mget m k = Some s \<longleftrightarrow>
      (\<exists>n \<in> set nodes. registrable lb (NodeSelector (Spec sn)) n \<and> k = NodeMetaName n \<and> s = to_SIG (sig_of n)))) \<and>
    RegisteredNodes st = int (length (filter (registrable lb (NodeSelector (Spec sn))) nodes)) \<and>
    LastSyncTime st = Some now \<and> LastError st = []"
  using assms(1)
proof (cases rule: sync_ok_cases)
  case (1 nodes' b sigs)
  have sigs: "sigs = fst (nodesToSIGs lb nodes (NodeSelector (Spec sn)))" using 1 assms(4) by simp
  obtain h where h: "b = HTTPBackend h" "Endpoint h = SpecEndpoint (RegistrarCfg (Spec sn))"
    using backendFor_http [OF 1(3) assms(2)] by blast
  have "HTTP_Ensure (direct env reload srv (Endpoint h)) h sigs w = (None, w')"
    using 1(4) by (simp add: h Ensure_def)
  then have "managed srv (FS w') = Inr (sig_body sigs)"
    using ensure_registers_ok [where h = h and env = env and reload = reload, OF assms(3), of sigs] assms(7) by (simp add: sigs)
  moreover have "length sigs = length (filter (registrable lb (NodeSelector (Spec sn))) nodes)"
    by (simp add: sigs nodesToSIGs_fst)
  moreover have "int32 (int (length (filter (registrable lb (NodeSelector (Spec sn))) nodes))) =
      int (length (filter (registrable lb (NodeSelector (Spec sn))) nodes))"
    using le_less_trans [OF length_filter_le assms(6), of "registrable lb (NodeSelector (Spec sn))"] by (intro int32_id) simp_all
  ultimately show ?thesis using 1(5-7) sig_body_nodes [OF assms(5)] sigs by simp
qed

text \<open>
  C19. A synchronisation through the http backend, composed with the service on the AS side:
  when it succeeds, the managed entries of the topology are exactly the endpoints of the nodes
  that match the selector and have an internal address, and the status counts them; when it
  fails, the status keeps the last count and time of success.
\<close>

theorem sync_registers:
  assumes "syncRegistrar lb kb (direct env reload srv (SpecEndpoint (RegistrarCfg (Spec sn)))) now sn w = ((st, failed), w')"
    and "SpecBackend (RegistrarCfg (Spec sn)) = ''http''" "readable srv (FS w)"
    and "NodeList (ReadState kb w) = Inr nodes" "distinct (map NodeMetaName nodes)" "length nodes < 2 ^ 31"
    and "length (compact (enc_managed (sig_body (fst (nodesToSIGs lb nodes (NodeSelector (Spec sn))))))) \<le> maxBodyBytes"
  shows "if failed
    then RegisteredNodes st = RegisteredNodes (StatusRegistrar (SnStatus sn)) \<and>
      LastSyncTime st = LastSyncTime (StatusRegistrar (SnStatus sn))
    else (\<exists>m. managed srv (FS w') = Inr m \<and> (\<forall>k s. mget m k = Some s \<longleftrightarrow>
        (\<exists>n \<in> set nodes. registrable lb (NodeSelector (Spec sn)) n \<and> k = NodeMetaName n \<and> s = to_SIG (sig_of n)))) \<and>
      RegisteredNodes st = int (length (filter (registrable lb (NodeSelector (Spec sn))) nodes)) \<and>
      LastSyncTime st = Some now \<and> LastError st = []"
proof (cases failed)
  case True
  then show ?thesis using sync_failed_keeps [of lb kb _ now sn w st w'] assms(1) by simp
next
  case False
  then have "failed = False" by simp
  from sync_registers_ok [OF assms(1) [unfolded this] assms(2-7)] False show ?thesis by simp
qed

definition ex_http_sn :: ScionNetwork where
  "ex_http_sn = ex_sn\<lparr>Spec := ex_spec\<lparr>RegistrarCfg := \<lparr>SpecBackend = ''http'', SpecEndpoint = ''http://as:8642'', SpecCredentials = Some ''creds''\<rparr>\<rparr>\<rparr>"

definition ex_registrar_kube :: "(uval, world) kube" where
  "ex_registrar_kube =
     \<lparr>GetScionNetwork = (\<lambda>nm w. Inr ex_http_sn), UpdateScionNetwork = (\<lambda>sn w. (Inr sn, w)), StatusUpdate = (\<lambda>sn w. (None, w)),
      ReadState = (\<lambda>w. ex_reads ex_nodes), GetSecret = (\<lambda>nm w. Inr \<lparr>SecMeta = \<lparr>MetaName = nm, MetaNamespace = Namespace, MetaLabels = []\<rparr>, SecOwner = None,
        SecType = ''Opaque'', SecData = [(''token'', ''secret'')]\<rparr>),
      CreateOrUpdate = (\<lambda>ob f w. (None, w)), ListPods = (\<lambda>w. Inr []), GetDaemonSet = (\<lambda>w. Inl (ApiErr RNotFound []))\<rparr>"

lemma ex_sync:
  "fst (syncRegistrar ex_lib ex_registrar_kube (direct no_faults (\<lambda>_. None) ex_server ''http://as:8642'') 7 ex_http_sn ex_world) =
     (\<lparr>RegisteredNodes = 2, DesiredSIGs = [''n1=192.168.0.1:30256,192.168.0.1:30056'', ''n2=192.168.0.2:30256,192.168.0.2:30056''],
        LastSyncTime = Some 7, LastError = []\<rparr>, False)"
  by code_simp

theorem sync_registers_witness:
  "\<exists>st w' m. syncRegistrar ex_lib ex_registrar_kube (direct no_faults (\<lambda>_. None) ex_server ''http://as:8642'') 7 ex_http_sn ex_world =
     ((st, False), w') \<and> managed ex_server (FS w') = Inr m \<and> mget m ''n1'' \<noteq> None \<and> mget m ''n3'' = None"
proof -
  let ?sync = "syncRegistrar ex_lib ex_registrar_kube (direct no_faults (\<lambda>_. None) ex_server ''http://as:8642'') 7 ex_http_sn ex_world"
  obtain st w' where r: "?sync = ((st, False), w')"
    using ex_sync by (cases "fst ?sync"; cases ?sync) simp
  have spec: "SpecEndpoint (RegistrarCfg (Spec ex_http_sn)) = ''http://as:8642''" "SpecBackend (RegistrarCfg (Spec ex_http_sn)) = ''http''"
    "NodeSelector (Spec ex_http_sn) = []"
    by (simp_all add: ex_http_sn_def ex_sn_def ex_spec_def)
  have nodes: "NodeList (ReadState ex_registrar_kube ex_world) = Inr ex_nodes"
    by (simp add: ex_registrar_kube_def ex_reads_def)
  have d: "distinct (map NodeMetaName ex_nodes)" "length ex_nodes < 2 ^ 31"
    by (simp_all add: ex_nodes_def ex_node_def)
  have len: "length (compact (enc_managed (sig_body (fst (nodesToSIGs ex_lib ex_nodes (NodeSelector (Spec ex_http_sn))))))) \<le> maxBodyBytes"
    by code_simp
  obtain m where m: "managed ex_server (FS w') = Inr m"
    "\<forall>k s. mget m k = Some s \<longleftrightarrow> (\<exists>n \<in> set ex_nodes. registrable ex_lib [] n \<and> k = NodeMetaName n \<and> s = to_SIG (sig_of n))"
    using sync_registers [OF r [folded spec(1)] spec(2) ex_readable nodes d len] spec(3) by auto
  let ?n = "ex_node ''n1'' ''10.244.0.0/24'' ''192.168.0.1''"
  have "?n \<in> set ex_nodes" "registrable ex_lib [] ?n" "NodeMetaName ?n = ''n1''"
    by (simp_all add: ex_nodes_def ex_node_def registrable_def ex_lib_def)
  then have "mget m ''n1'' \<noteq> None" using m(2) [rule_format, of "''n1''" "to_SIG (sig_of ?n)"] by auto
  moreover have "\<forall>n \<in> set ex_nodes. NodeMetaName n \<noteq> ''n3''" by (simp add: ex_nodes_def ex_node_def)
  then have "mget m ''n3'' \<noteq> Some s" for s using m(2) by fastforce
  then have "mget m ''n3'' = None" by (cases "mget m ''n3''") auto
  ultimately show ?thesis using r m(1) by blast
qed

text \<open>
  The timeout the operator puts on one call exceeds the timeout of the client it calls.
\<close>

lemma registrarTimeout_exceeds: "http_client ok h = Inr c \<Longrightarrow> Timeout c < registrarTimeout"
  by (auto simp: http_client_def registrarTimeout_def Second_def split: if_splits)

end
