(* ===== verification/Reconcile.thy ===== *)
theory Reconcile
  imports Apply Registrar_Sync Json_Decode
begin

text \<open>
  The reconciler (\<open>controller/scionnetwork_controller.go\<close>): one call of \<open>Reconcile\<close> with its
  finalizer, the status it writes and the result that drives the next call, and the set-up of the
  manager (\<open>cmd/operator\<close>).

  A pass reads the cluster in one state. The clients, the network to the registrar and the
  discovery server are the fields of the record \<open>ctl\<close>. The world is the state of the API server
  and of everything else the calls reach; the gauge is beside it.
\<close>

section \<open>State\<close>

record ('o, 'w) ctl =
  Accessors :: "'o op_accessors"
  Lib :: lib
  Api :: "('o, 'w) kube"
  Crypto :: x509
  Registrars :: "'w Net"
  bootstrapHTTP :: "string \<Rightarrow> 'w \<Rightarrow> web_response result"
  Settings :: Reconciler

record Result =
  Requeue :: bool
  RequeueAfter :: int

definition no_requeue :: Result where
  "no_requeue = \<lparr>Requeue = False, RequeueAfter = 0\<rparr>"

definition after :: "int \<Rightarrow> Result" where
  "after d = \<lparr>Requeue = False, RequeueAfter = d\<rparr>"

definition registrarFinalizer :: string where
  "registrarFinalizer = ''scion.mkowalski.github.io/registrar-cleanup''"

definition deregistrationDeadline :: int where
  "deregistrationDeadline = 600 * second_ns"

definition unreadyGracePeriod :: int where
  "unreadyGracePeriod = 300 * second_ns"

section \<open>Deletion\<close>

definition deregister :: "('o, 'w) ctl \<Rightarrow> int \<Rightarrow> ScionNetwork \<Rightarrow> 'w \<Rightarrow> goerror option \<times> 'w" where
  "deregister op now sn w =
     (case backendFor (Api op) sn w of
        Inl e \<Rightarrow> (None, w)
      | Inr b \<Rightarrow>
          (case Ensure (Registrars op) b [] w of
             (None, w') \<Rightarrow> (None, w')
           | (Some e, w') \<Rightarrow>
               (if IsNotImplemented e then (None, w')
                else if (case SnDeletion sn of None \<Rightarrow> False | Some d \<Rightarrow> now - d > deregistrationDeadline) then (None, w')
                else (Some (Wrap ''deregister SIGs'' e), w'))))"

definition finalize :: "('o, 'w) ctl \<Rightarrow> int \<Rightarrow> ScionNetwork \<Rightarrow> 'w \<Rightarrow> Result result \<times> 'w" where
  "finalize op now sn w =
     (if \<not> ContainsFinalizer (Lib op) (SnFinalizers sn) registrarFinalizer then (Inr no_requeue, w)
      else (case deregister op now sn w of
          (Some e, w') \<Rightarrow> (Inl e, w')
        | (None, w') \<Rightarrow>
            (case UpdateScionNetwork (Api op)
                (sn\<lparr>SnFinalizers := RemoveFinalizer (Lib op) (SnFinalizers sn) registrarFinalizer\<rparr>) w' of
               (Inl e, w'') \<Rightarrow> (Inl e, w'')
             | (Inr sn', w'') \<Rightarrow> (Inr no_requeue, w''))))"

section \<open>Status\<close>

definition isdas_limit :: nat where
  "isdas_limit = 4 * 2 ^ 20"

definition discoverISDAS :: "('o, 'w) ctl \<Rightarrow> ScionNetwork \<Rightarrow> 'w \<Rightarrow> ScionNetwork" where
  "discoverISDAS op sn w =
     (if SpecMode (Bootstrap (Spec sn)) \<noteq> ''url'' \<or> StatusISDAS (SnStatus sn) \<noteq> [] then sn
      else (case bootstrapHTTP op (TrimRight (SpecDiscoveryURL (Bootstrap (Spec sn))) ''/'' @ ''/topology'') w of
          Inl e \<Rightarrow> sn
        | Inr resp \<Rightarrow>
            (if StatusCode resp \<noteq> 200 then sn
             else if length (Bytes resp) < isdas_limit \<and> ReadError resp \<noteq> None then sn
             else (case Unmarshal (dec_str_field ''isd_as'') (take isdas_limit (Bytes resp)) of
                 Inl e \<Rightarrow> sn
               | Inr ia \<Rightarrow> (if ia = [] then sn else sn\<lparr>SnStatus := (SnStatus sn)\<lparr>StatusISDAS := ia\<rparr>\<rparr>)))))"

definition set_condition :: "lib \<Rightarrow> Condition \<Rightarrow> ScionNetwork \<Rightarrow> ScionNetwork" where
  "set_condition lb c sn = sn\<lparr>SnStatus := (SnStatus sn)\<lparr>Conditions := SetStatusCondition lb (Conditions (SnStatus sn)) c\<rparr>\<rparr>"

definition apply_failed_condition :: "ScionNetwork \<Rightarrow> goerror \<Rightarrow> Condition" where
  "apply_failed_condition sn e =
     \<lparr>CondType = ''Degraded'', CondStatus = ConditionTrue, CondReason = ''ApplyFailed'', CondMessage = Error e,
      CondGeneration = SnGeneration sn\<rparr>"

definition markApplyFailed :: "('o, 'w) ctl \<Rightarrow> ScionNetwork \<Rightarrow> goerror \<Rightarrow> 'w \<Rightarrow> 'w" where
  "markApplyFailed op sn e w = snd (StatusUpdate (Api op) (set_condition (Lib op) (apply_failed_condition sn e) sn) w)"

fun podReady :: "(string \<times> ConditionStatus \<times> int) list \<Rightarrow> bool" where
  "podReady [] = False"
| "podReady ((ty, st, t) # cs) = (if ty = ''Ready'' then st = ConditionTrue else podReady cs)"

fun ready_transition :: "(string \<times> ConditionStatus \<times> int) list \<Rightarrow> int option" where
  "ready_transition [] = None"
| "ready_transition ((ty, st, t) # cs) = (if ty = ''Ready'' then Some t else ready_transition cs)"

definition unreadySince :: "Pod \<Rightarrow> int" where
  "unreadySince p = (case ready_transition (PodConditions p) of None \<Rightarrow> PodCreated p | Some t \<Rightarrow> t)"

fun scan_pods :: "int \<Rightarrow> int \<Rightarrow> string list \<Rightarrow> Pod list \<Rightarrow> int \<times> string list" where
  "scan_pods now ready degraded [] = (ready, degraded)"
| "scan_pods now ready degraded (p # ps) =
     (if podReady (PodConditions p) then scan_pods now (int32 (ready + 1)) degraded ps
      else if now - unreadySince p < unreadyGracePeriod then scan_pods now ready degraded ps
      else scan_pods now ready (degraded @ [if PodNode p = [] then PodName p else PodNode p]) ps)"

definition show_int :: "int \<Rightarrow> string" where
  "show_int n = (if n < 0 then CHR ''-'' # Itoa (nat (- n)) else Itoa (nat n))"

definition cond :: "ScionNetwork \<Rightarrow> string \<Rightarrow> bool \<Rightarrow> string \<Rightarrow> string \<Rightarrow> Condition" where
  "cond sn t on reason msg =
     \<lparr>CondType = t, CondStatus = (if on then ConditionTrue else ConditionFalse), CondReason = reason, CondMessage = msg,
      CondGeneration = SnGeneration sn\<rparr>"

text \<open>The DaemonSet's state: whether it is current and how many agents it wants.\<close>

definition ds_state :: "DaemonSetState result \<Rightarrow> Pod list \<Rightarrow> bool \<times> int" where
  "ds_state r pods =
     (case r of
        Inl e \<Rightarrow> (False, int32 (int (length pods)))
      | Inr ds \<Rightarrow> (DsObserved ds = DsGeneration ds, DsDesired ds))"

definition new_status ::
  "lib \<Rightarrow> int \<Rightarrow> ScionNetwork \<Rightarrow> RegistrarStatus \<Rightarrow> bool \<Rightarrow> podEgressPlatform \<Rightarrow> Pod list \<Rightarrow> DaemonSetState result \<Rightarrow>
   ScionNetwork \<times> bool \<times> bool" where
  "new_status lb now sn reg regFailed platform pods ds =
     (let (ready, found) = scan_pods now 0 [] pods;
          degraded = sort found;
          (dsCurrent, total) = ds_state ds pods;
          agentsAvailable = (total > 0 \<and> ready = total);
          available = (agentsAvailable \<and> PlatStatus platform \<noteq> ConditionFalse);
          progressing = (\<not> dsCurrent \<or> total = 0 \<or> ready < total);
          (isDegraded, reason, degradedMsg) = degradedReason (length degraded)
            (''nodes unready for over 5m0s: ['' @ Join degraded '' '' @ '']'') platform regFailed (LastError reg)
            (SpecBackend (RegistrarCfg (Spec sn)));
          counts = show_int ready @ ''/'' @ show_int total @ '' node agents ready'';
          blocked = (agentsAvailable \<and> PlatStatus platform = ConditionFalse);
          sn1 = sn\<lparr>SnStatus := (SnStatus sn)\<lparr>StatusNodes := \<lparr>SumReady = ready, SumTotal = total, SumDegraded = degraded\<rparr>,
            StatusRegistrar := reg\<rparr>\<rparr>;
          sn2 = set_condition lb (cond sn ''Available'' available
            (if blocked then PlatReason platform else ''NodeAgents'') (if blocked then PlatMessage platform else counts)) sn1;
          sn3 = set_condition lb (cond sn ''Progressing'' progressing ''Rollout'' counts) sn2;
          sn4 = set_condition lb (cond sn ''Degraded'' isDegraded reason degradedMsg) sn3
      in (sn4, available, isDegraded))"

definition updateStatus ::
  "('o, 'w) ctl \<Rightarrow> int \<Rightarrow> ScionNetwork \<Rightarrow> RegistrarStatus \<Rightarrow> bool \<Rightarrow> podEgressPlatform \<Rightarrow> 'w \<times> nat \<Rightarrow> bool result \<times> 'w \<times> nat" where
  "updateStatus op now sn reg regFailed platform s =
     (case s of (w, gauge) \<Rightarrow>
        (case ListPods (Api op) w of
           Inl e \<Rightarrow> (Inl e, w, gauge)
         | Inr pods \<Rightarrow>
             (case new_status (Lib op) now sn reg regFailed platform pods (GetDaemonSet (Api op) w) of (sn', available, isDegraded) \<Rightarrow>
                (case StatusUpdate (Api op) sn' w of
                   (Some e, w') \<Rightarrow> (Inl e, w', gauge)
                 | (None, w') \<Rightarrow> (Inr available, w', if isDegraded then 1 else 0)))))"

section \<open>One pass\<close>

definition ensure_finalizer :: "('o, 'w) ctl \<Rightarrow> ScionNetwork \<Rightarrow> 'w \<Rightarrow> ScionNetwork result \<times> 'w" where
  "ensure_finalizer op sn w =
     (if ContainsFinalizer (Lib op) (SnFinalizers sn) registrarFinalizer then (Inr sn, w)
      else UpdateScionNetwork (Api op) (sn\<lparr>SnFinalizers := AddFinalizer (Lib op) (SnFinalizers sn) registrarFinalizer\<rparr>) w)"

definition agent_image :: "('o, 'w) ctl \<Rightarrow> ScionNetwork \<Rightarrow> string" where
  "agent_image op sn = (if SpecAgentImage (Spec sn) = [] then AgentImage (Settings op) else SpecAgentImage (Spec sn))"

definition next_pass :: "bool \<Rightarrow> bool \<Rightarrow> podEgressPlatform \<Rightarrow> Result" where
  "next_pass regFailed available platform =
     (if regFailed then after (60 * second_ns)
      else if \<not> available then after (30 * second_ns)
      else if PlatStatus platform \<noteq> ConditionTrue then after (300 * second_ns)
      else no_requeue)"

definition reconcile_applied ::
  "('o, 'w) ctl \<Rightarrow> int \<Rightarrow> ScionNetwork \<Rightarrow> podEgressPlatform \<Rightarrow> 'w \<times> nat \<Rightarrow> Result result \<times> 'w \<times> nat" where
  "reconcile_applied op now sn platform s =
     (case s of (w, gauge) \<Rightarrow>
        (case syncRegistrar (Lib op) (Api op) (Registrars op) now sn w of
           ((regStatus, regFailed), w1) \<Rightarrow>
             (case updateStatus op now (discoverISDAS op sn w1) regStatus regFailed platform (w1, gauge) of
                (Inl e, s') \<Rightarrow> ((if api_is RConflict e then Inr \<lparr>Requeue = True, RequeueAfter = 0\<rparr> else Inl e), s')
              | (Inr available, s') \<Rightarrow> (Inr (next_pass regFailed available platform), s'))))"

definition reconcile_live :: "('o, 'w) ctl \<Rightarrow> int \<Rightarrow> ScionNetwork \<Rightarrow> 'w \<times> nat \<Rightarrow> Result result \<times> 'w \<times> nat" where
  "reconcile_live op now sn s =
     (case s of (w, gauge) \<Rightarrow>
        (case clusterForbiddenCIDRs (Accessors op) (ReadState (Api op) w) sn of
           Inl e \<Rightarrow> (Inl e, markApplyFailed op sn e w, gauge)
         | Inr (forbidden, openshift) \<Rightarrow>
             (case validateNodeIPAdvertisement (ReadState (Api op) w) sn of
                Some e \<Rightarrow> (Inl e, markApplyFailed op sn e w, gauge)
              | None \<Rightarrow>
                  (let platform = detectPodEgressPlatform (Accessors op) (ReadState (Api op) w)
                   in case apply_all (Lib op) (Api op) (Crypto op) (Settings op) now sn (agent_image op sn) forbidden openshift w of
                        (Some e, w1) \<Rightarrow> (Inl e, markApplyFailed op sn e w1, gauge)
                      | (None, w1) \<Rightarrow> reconcile_applied op now sn platform (w1, gauge)))))"

definition Reconcile :: "('o, 'w) ctl \<Rightarrow> int \<Rightarrow> string \<Rightarrow> 'w \<times> nat \<Rightarrow> Result result \<times> 'w \<times> nat" where
  "Reconcile op now nm s =
     (case s of (w, gauge) \<Rightarrow>
        (case GetScionNetwork (Api op) nm w of
           Inl e \<Rightarrow> ((if api_is RNotFound e then Inr no_requeue else Inl e), w, gauge)
         | Inr sn \<Rightarrow>
             (if SnDeletion sn \<noteq> None then (case finalize op now sn w of (r, w') \<Rightarrow> (r, w', gauge))
              else (case ensure_finalizer op sn w of
                  (Inl e, w') \<Rightarrow> (Inl e, w', gauge)
                | (Inr sn', w') \<Rightarrow> reconcile_live op now sn' (w', gauge)))))"

section \<open>Set-up\<close>

text \<open>
  The objects whose events start a pass: the resource itself, the DaemonSet by its owner, the
  others by the name of the singleton. Optional kinds are watched when the API server knows them at
  start-up.
\<close>

type_synonym group_kind = "string \<times> string \<times> string"

datatype watch = ForKind group_kind | OwnsKind group_kind | WatchesKind group_kind

definition enqueueCluster :: "object_key \<Rightarrow> string list" where
  "enqueueCluster k = [''cluster'']"

definition optionalWatch :: "(group_kind \<Rightarrow> goerror option) \<Rightarrow> group_kind \<Rightarrow> watch list" where
  "optionalWatch mapping kind = (if mapping kind \<noteq> None then [] else [WatchesKind kind])"

definition SetupWithManager :: "(group_kind \<Rightarrow> goerror option) \<Rightarrow> (watch list \<Rightarrow> goerror option) \<Rightarrow> goerror option" where
  "SetupWithManager mapping complete =
     complete ([ForKind (fst GroupVersion, snd GroupVersion, ''ScionNetwork''), OwnsKind (''apps'', ''v1'', ''DaemonSet''),
        WatchesKind ([], ''v1'', ''Node'')] @
       optionalWatch mapping (''operator.openshift.io'', ''v1'', ''Network'') @
       optionalWatch mapping (''k8s.ovn.org'', ''v1'', ''RouteAdvertisements''))"

record Manager =
  MetricsBind :: string
  HealthBind :: string
  LeaderElection :: bool
  LeaderElectionID :: string
  CachedNamespaces :: "(string \<times> string list) list"

definition manager_options :: Manager where
  "manager_options =
     \<lparr>MetricsBind = '':8080'', HealthBind = '':8081'', LeaderElection = True, LeaderElectionID = ''scion-operator-leader'',
      CachedNamespaces = [(''Secret'', [Namespace]), (''ConfigMap'', [Namespace])]\<rparr>"

text \<open>What the calls of \<open>main\<close> return, in the order they are made.\<close>

record main_calls =
  AgentImageEnv :: string
  AddClientGo :: "goerror option"
  AddTypes :: "goerror option"
  GetConfig :: "goerror option"
  DiscoveryClient :: "goerror option"
  SCCResources :: "goerror option"
  NewManager :: "Manager \<Rightarrow> goerror option"
  AddHealthz :: "goerror option"
  AddReadyz :: "goerror option"
  Setup :: "goerror option"
  Start :: "Reconciler \<Rightarrow> goerror option"

datatype main_end = Exit1 string | Finished Reconciler

definition exit_if :: "goerror option \<Rightarrow> string \<Rightarrow> main_end \<Rightarrow> main_end" where
  "exit_if r msg k = (case r of Some e \<Rightarrow> Exit1 msg | None \<Rightarrow> k)"

definition operator_main :: "main_calls \<Rightarrow> main_end" where
  "operator_main c =
     (if AgentImageEnv c = [] then Exit1 ''AGENT_IMAGE environment variable is required''
      else exit_if (AddClientGo c) ''add client-go scheme''
          (exit_if (AddTypes c) ''add v1alpha1 scheme''
          (exit_if (GetConfig c) ''get kubeconfig''
          (let sccAvail = (DiscoveryClient c = None \<and> SCCResources c = None);
               r = \<lparr>AgentImage = AgentImageEnv c, SCCAvail = sccAvail\<rparr>
           in exit_if (NewManager c manager_options) ''create manager''
             (exit_if (AddHealthz c) ''add healthz''
             (exit_if (AddReadyz c) ''add readyz''
             (exit_if (Setup c) ''setup ScionNetwork controller''
             (exit_if (Start c r) ''manager exited'' (Finished r)))))))))"

section \<open>What the calls leave alone\<close>

text \<open>
  \<open>R\<close> observes a part of the world. The network to the registrar does not reach the API server,
  and the API server does not reach what is registered.
\<close>

definition net_keeps :: "'w Net \<Rightarrow> ('w \<Rightarrow> 'r) \<Rightarrow> bool" where
  "net_keeps net R \<longleftrightarrow> (\<forall>c url req w. R (snd (Do net c url req w)) = R w)"

definition api_keeps :: "('o, 'w) kube \<Rightarrow> ('w \<Rightarrow> 'r) \<Rightarrow> bool" where
  "api_keeps kb R \<longleftrightarrow>
     (\<forall>sn w. R (snd (UpdateScionNetwork kb sn w)) = R w) \<and>
     (\<forall>sn w. R (snd (StatusUpdate kb sn w)) = R w) \<and>
     (\<forall>ob f w. R (snd (CreateOrUpdate kb ob f w)) = R w)"

lemma api_keepsD:
  assumes "api_keeps kb R"
  shows "R (snd (UpdateScionNetwork kb sn w)) = R w" "R (snd (StatusUpdate kb sn w)) = R w"
    "R (snd (CreateOrUpdate kb ob f w)) = R w"
  using assms by (simp_all add: api_keeps_def)

lemma Ensure_keeps:
  assumes "net_keeps net R"
  shows "R (snd (Ensure net b sigs w)) = R w"
proof -
  have "R (snd (HTTP_Ensure net h sigs w)) = R w" for h
    using assms unfolding net_keeps_def HTTP_Ensure_def Let_def
    by (auto split: option.splits sum.splits prod.splits Response.splits) (metis snd_conv)+
  then show ?thesis by (simp add: Ensure_def split: Backend.split)
qed

lemma syncRegistrar_keeps:
  assumes "net_keeps net R"
  shows "R (snd (syncRegistrar lb kb net now sn w)) = R w"
  using Ensure_keeps [OF assms]
  by (auto simp: syncRegistrar_def Let_def split: sum.splits prod.splits option.splits) (metis snd_conv)+

lemma deregister_keeps:
  assumes "net_keeps (Registrars op) R"
  shows "R (snd (deregister op now sn w)) = R w"
  using Ensure_keeps [OF assms]
  by (auto simp: deregister_def split: sum.splits prod.splits option.splits) (metis snd_conv)+

lemma apply_all_keeps:
  assumes "api_keeps kb R"
  shows "R (snd (apply_all lb kb x rc now sn img forb openshift w)) = R w"
proof -
  note k = api_keepsD(3) [OF assms]
  have "R (snd (ensureMetricsTLS lb kb x now sn v)) = R v" for v
    by (auto simp: ensureMetricsTLS_def Let_def applyObject_def k intro!: or_fail_keeps [where P = "\<lambda>w'. R w' = R v"] split: sum.splits)
  then show ?thesis
    unfolding apply_all_def
    by (intro or_fail_keeps [where P = "\<lambda>w'. R w' = R w"])
      (simp_all add: apply_namespace_def applyObjectNoOwner_def apply_tls_def apply_serviceaccount_def apply_clusterrole_def
        apply_binding_def apply_daemonset_def apply_scc_def applyObject_def Let_def k)
qed

lemma updateStatus_keeps:
  assumes "\<And>sn w. R (snd (StatusUpdate (Api op) sn w)) = R w"
  shows "R (fst (snd (updateStatus op now sn reg failed platform (w, g)))) = R w"
  using assms
  by (auto simp: updateStatus_def Let_def split: sum.splits prod.splits option.splits) (metis snd_conv)+

lemma markApplyFailed_keeps:
  assumes "\<And>sn w. R (snd (StatusUpdate (Api op) sn w)) = R w"
  shows "R (markApplyFailed op sn e w) = R w"
  using assms by (simp add: markApplyFailed_def)

lemma reconcile_applied_keeps:
  assumes "net_keeps (Registrars op) R" "\<And>sn w. R (snd (StatusUpdate (Api op) sn w)) = R w"
  shows "R (fst (snd (reconcile_applied op now sn platform (w, g)))) = R w"
proof -
  obtain st failed w1 where sync: "syncRegistrar (Lib op) (Api op) (Registrars op) now sn w = ((st, failed), w1)" by (metis prod.collapse)
  then have "R w1 = R w" using syncRegistrar_keeps [OF assms(1), of "Lib op" "Api op" now sn w] by simp
  then show ?thesis
    using updateStatus_keeps [of R op now "discoverISDAS op sn w1" st failed platform w1 g, OF assms(2)]
    by (auto simp: reconcile_applied_def sync split: sum.splits prod.splits)
qed

lemma reconcile_live_keeps:
  assumes "net_keeps (Registrars op) R" "\<And>sn w. R (snd (StatusUpdate (Api op) sn w)) = R w"
    and "\<And>sn img forb os w. R (snd (apply_all (Lib op) (Api op) (Crypto op) (Settings op) now sn img forb os w)) = R w"
  shows "R (fst (snd (reconcile_live op now sn (w, g)))) = R w"
  using reconcile_applied_keeps [OF assms(1,2)] assms(3) markApplyFailed_keeps [of R op, OF assms(2)]
  by (auto simp: reconcile_live_def Let_def split: sum.splits prod.splits option.splits) (metis snd_conv)+

section \<open>Deletion completes\<close>

definition released :: "'w view \<Rightarrow> 'w \<Rightarrow> bool" where
  "released vw w = (case Resource vw w of None \<Rightarrow> True | Some sn \<Rightarrow> registrarFinalizer \<notin> set (SnFinalizers sn))"

definition deleting :: "'w view \<Rightarrow> int \<Rightarrow> 'w \<Rightarrow> bool" where
  "deleting vw d w = (case Resource vw w of None \<Rightarrow> True | Some sn \<Rightarrow> SnDeletion sn = Some d)"

lemma finalize_cases:
  assumes "lib_ok (Lib op)"
  obtains (gone) "registrarFinalizer \<notin> set (SnFinalizers sn)" "finalize op now sn w = (Inr no_requeue, w)"
  | (retry) e w1 where "registrarFinalizer \<in> set (SnFinalizers sn)" "deregister op now sn w = (Some e, w1)"
      "finalize op now sn w = (Inl e, w1)"
  | (failed) e fs w1 w2 where "registrarFinalizer \<in> set (SnFinalizers sn)" "deregister op now sn w = (None, w1)"
      "set fs = set (SnFinalizers sn) - {registrarFinalizer}"
      "UpdateScionNetwork (Api op) (sn\<lparr>SnFinalizers := fs\<rparr>) w1 = (Inl e, w2)" "finalize op now sn w = (Inl e, w2)"
  | (updated) fs sn' w1 w2 where "registrarFinalizer \<in> set (SnFinalizers sn)" "deregister op now sn w = (None, w1)"
      "set fs = set (SnFinalizers sn) - {registrarFinalizer}"
      "UpdateScionNetwork (Api op) (sn\<lparr>SnFinalizers := fs\<rparr>) w1 = (Inr sn', w2)" "finalize op now sn w = (Inr no_requeue, w2)"
proof -
  note l = lib_okD(1,3) [OF assms]
  let ?fs = "RemoveFinalizer (Lib op) (SnFinalizers sn) registrarFinalizer"
  obtain de w1 where d: "deregister op now sn w = (de, w1)" by fastforce
  obtain u w2 where u: "UpdateScionNetwork (Api op) (sn\<lparr>SnFinalizers := ?fs\<rparr>) w1 = (u, w2)" by fastforce
  show thesis
  proof (cases "registrarFinalizer \<in> set (SnFinalizers sn)")
    case True
    with l have f: "finalize op now sn w = (case de of Some e \<Rightarrow> (Inl e, w1)
        | None \<Rightarrow> (case u of Inl e \<Rightarrow> (Inl e, w2) | Inr sn' \<Rightarrow> (Inr no_requeue, w2)))"
      by (cases de; cases u) (simp_all add: finalize_def d u)
    show thesis
    proof (cases de)
      case None
      then show thesis using failed [OF True _ l(2) ] updated [OF True _ l(2)] d u f by (cases u) auto
    qed (use retry [OF True] d f in auto)
  qed (use gone l in \<open>simp add: finalize_def\<close>)
qed

lemma deadline_passed: "SnDeletion sn = Some d \<Longrightarrow> d + deregistrationDeadline < now \<Longrightarrow> fst (deregister op now sn w) = None"
  by (auto simp: deregister_def split: sum.splits prod.splits option.splits)

text \<open>An API server that answers: reads find the resource and updates succeed.\<close>

definition api_answers :: "('o, 'w) kube \<Rightarrow> 'w view \<Rightarrow> string \<Rightarrow> bool" where
  "api_answers kb vw nm \<longleftrightarrow>
     (\<forall>w sn. Resource vw w = Some sn \<longrightarrow> GetScionNetwork kb nm w = Inr sn) \<and>
     (\<forall>sn w. is_ok (fst (UpdateScionNetwork kb sn w)))"

text \<open>
  Before the deadline the finalizer is released through the http backend only when the service on
  the AS side holds no managed entry any more.
\<close>

lemma deregister_empties:
  assumes "deregister op now sn w = (None, w')" "backendFor (Api op) sn w = Inr b"
    and "SpecBackend (RegistrarCfg (Spec sn)) = ''http''" "readable srv (FS w)"
    and "Registrars op = direct env reload srv (SpecEndpoint (RegistrarCfg (Spec sn)))"
    and "SnDeletion sn = Some d" "now \<le> d + deregistrationDeadline"
    and "\<And>e. fst (Ensure (Registrars op) b [] w) = Some e \<Longrightarrow> \<not> IsNotImplemented e"
  shows "managed srv (FS w') = Inr []"
proof -
  obtain h where h: "b = HTTPBackend h" "Endpoint h = SpecEndpoint (RegistrarCfg (Spec sn))"
    using backendFor_http [OF assms(2,3)] by blast
  have "Ensure (Registrars op) b [] w = (None, w')"
    using assms(1,2,6,7,8) by (auto simp: deregister_def split: prod.splits option.splits if_splits)
  then have "HTTP_Ensure (direct env reload srv (Endpoint h)) h [] w = (None, w')"
    by (simp add: h assms(5) Ensure_def)
  moreover have "length (compact (enc_managed (sig_body []))) \<le> maxBodyBytes" by code_simp
  ultimately show ?thesis
    using ensure_registers_ok [where h = h and env = env and reload = reload, OF assms(4), of "[]"]
    by (simp add: sig_body_def mputs_def)
qed

lemma written_released:
  assumes "written vw (sn\<lparr>SnFinalizers := fs\<rparr>) sn' w" "set fs = A - {registrarFinalizer}" "SnDeletion sn = Some d"
  shows "deleting vw d w" "released vw w"
proof -
  have r: "Resource vw w = Some sn' \<or> Resource vw w = None" "SnDeletion sn' = Some d" "SnFinalizers sn' = fs"
    using assms(1,3) unfolding written_def by auto
  then show "deleting vw d w" by (auto simp: deleting_def)
  have "registrarFinalizer \<notin> set (SnFinalizers sn')" using assms(2) r(3) by simp
  with r(1) show "released vw w" by (auto simp: released_def)
qed

lemma finalize_deleting:
  assumes ok: "kube_ok (Api op) vw" "lib_ok (Lib op)" "net_keeps (Registrars op) (Resource vw)"
    and sn: "Resource vw w = Some sn" "SnDeletion sn = Some d" and run: "finalize op t sn w = (r, w')"
  shows "deleting vw d w' \<and> (released vw w \<longrightarrow> released vw w') \<and>
    (api_answers (Api op) vw nm \<and> d + deregistrationDeadline < t \<longrightarrow> released vw w')"
proof -
  have keep: "Resource vw (snd (deregister op t sn w)) = Some sn" using deregister_keeps [OF ok(3)] sn(1) by simp
  show ?thesis
    using ok(2)
  proof (cases rule: finalize_cases [where op = op and now = t and sn = sn and w = w])
    case gone
    then show ?thesis using run sn by (simp add: released_def deleting_def)
  next
    case (retry e w1)
    then have "Resource vw w' = Some sn" using keep run by simp
    moreover have "\<not> d + deregistrationDeadline < t" using deadline_passed [OF sn(2), of t op w] retry(2) by auto
    ultimately show ?thesis using sn by (simp add: deleting_def released_def)
  next
    case (failed e fs w1 w2)
    then have "\<not> is_ok (fst (UpdateScionNetwork (Api op) (sn\<lparr>SnFinalizers := fs\<rparr>) w1))" by simp
    then have no: "\<not> api_answers (Api op) vw nm" unfolding api_answers_def by blast
    have "w' = w2" using failed(5) run by simp
    moreover have "Resource vw w2 = Some sn \<or> (\<exists>sn'. written vw (sn\<lparr>SnFinalizers := fs\<rparr>) sn' w2)"
      using kube_ok_update(4) [OF ok(1) failed(4)] keep failed(2) by simp
    ultimately show ?thesis
      using no sn written_released [OF _ failed(3) sn(2)] by (auto simp: deleting_def released_def)
  next
    case (updated fs sn' w1 w2)
    then show ?thesis using run written_released [OF kube_ok_update(3) [OF ok(1) updated(4)] updated(3) sn(2)] by simp
  qed
qed

lemma deletion_pass:
  assumes ok: "kube_ok (Api op) vw" "lib_ok (Lib op)" "net_keeps (Registrars op) (Resource vw)"
    and del: "deleting vw d w" and run: "Reconcile op t nm (w, g) = (r, w', g')"
  shows "deleting vw d w' \<and> (released vw w \<longrightarrow> released vw w') \<and>
    (api_answers (Api op) vw nm \<and> d + deregistrationDeadline < t \<longrightarrow> released vw w')"
proof (cases "GetScionNetwork (Api op) nm w")
  case (Inl e)
  then have "w' = w" using run by (simp add: Reconcile_def split: if_splits)
  moreover have "Resource vw w = None" if "api_answers (Api op) vw nm"
    using that Inl by (cases "Resource vw w") (simp_all add: api_answers_def)
  ultimately show ?thesis using del by (auto simp: released_def)
next
  case (Inr sn)
  then have sn: "Resource vw w = Some sn" by (rule kube_ok_update(1) [OF ok(1)])
  then have d: "SnDeletion sn = Some d" using del by (simp add: deleting_def)
  obtain r' where "finalize op t sn w = (r', w')" using run Inr d by (auto simp: Reconcile_def split: prod.splits)
  then show ?thesis using finalize_deleting [OF ok sn d] by blast
qed

text \<open>
  Passes at the given times, with other writers between them that do not touch the resource. The
  network to the registrar and the discovery server behave differently in every pass.
\<close>

inductive reconciles :: "'w view \<Rightarrow> ('o, 'w) ctl \<Rightarrow> string \<Rightarrow> 'w \<Rightarrow> int list \<Rightarrow> 'w \<Rightarrow> bool"
  for vw op nm w where
  no_pass: "reconciles vw op nm w [] w"
| pass: "reconciles vw op nm w ts w1 \<Longrightarrow> net_keeps net (Resource vw) \<Longrightarrow>
    Reconcile (op\<lparr>Registrars := net, bootstrapHTTP := http\<rparr>) t nm (w1, g) = (r, w2, g') \<Longrightarrow> reconciles vw op nm w (ts @ [t]) w2"
| other_write: "reconciles vw op nm w ts w1 \<Longrightarrow> Resource vw w2 = Resource vw w1 \<Longrightarrow> reconciles vw op nm w ts w2"

inductive_cases reconciles_NilE: "reconciles vw op nm w [] w'"

lemma reconciles_deleting:
  assumes "reconciles vw op nm w ts w'" "kube_ok (Api op) vw" "lib_ok (Lib op)" "deleting vw d w"
  shows "deleting vw d w' \<and> (api_answers (Api op) vw nm \<and> (\<exists>t \<in> set ts. d + deregistrationDeadline < t) \<longrightarrow> released vw w')"
  using assms(1)
proof (induction rule: reconciles.induct)
  case (pass ts w1 net http t g r w2 g')
  let ?op = "op\<lparr>Registrars := net, bootstrapHTTP := http\<rparr>"
  have "deleting vw d w2 \<and> (released vw w1 \<longrightarrow> released vw w2) \<and>
      (api_answers (Api ?op) vw nm \<and> d + deregistrationDeadline < t \<longrightarrow> released vw w2)"
    by (rule deletion_pass [OF _ _ _ _ pass.hyps(3)]) (use assms(2,3) pass in simp_all)
  with pass.IH show ?case by auto
next
  case (other_write ts w1 w2)
  then show ?case by (simp add: deleting_def released_def)
qed (use assms(4) in simp)

section \<open>Registration needs the finalizer\<close>

definition finalizers :: "'w view \<Rightarrow> 'w \<Rightarrow> string list option" where
  "finalizers vw w = map_option SnFinalizers (Resource vw w)"

lemma finalizers_kept:
  assumes "kube_ok (Api op) vw" "net_keeps (Registrars op) (Resource vw)"
  shows "finalizers vw (fst (snd (reconcile_live op now sn (w, g)))) = finalizers vw w"
proof (rule reconcile_live_keeps)
  show "net_keeps (Registrars op) (finalizers vw)" using assms(2) by (simp add: net_keeps_def finalizers_def)
qed (simp_all add: finalizers_def kube_ok_status(2) [OF assms(1)] apply_all_resource [OF assms(1)])

lemma ensure_finalizer_ok:
  assumes "kube_ok (Api op) vw" "lib_ok (Lib op)" "Resource vw w = Some sn" "SnDeletion sn = None"
    and "ensure_finalizer op sn w = (Inr sn', w')"
  shows "Resource vw w' = Some sn'" "registrarFinalizer \<in> set (SnFinalizers sn')" "Spec sn' = Spec sn" "SnName sn' = SnName sn"
    "SnDeletion sn' = None" "Stored vw w' = Stored vw w"
proof -
  have "Resource vw w' = Some sn' \<and> registrarFinalizer \<in> set (SnFinalizers sn') \<and> Spec sn' = Spec sn \<and> SnName sn' = SnName sn \<and>
    SnDeletion sn' = None \<and> Stored vw w' = Stored vw w"
  proof (cases "registrarFinalizer \<in> set (SnFinalizers sn)")
    case True
    then show ?thesis using assms by (simp add: ensure_finalizer_def lib_okD(1) [OF assms(2)])
  next
    case False
    let ?sn = "sn\<lparr>SnFinalizers := AddFinalizer (Lib op) (SnFinalizers sn) registrarFinalizer\<rparr>"
    have u: "UpdateScionNetwork (Api op) ?sn w = (Inr sn', w')"
      using assms(5) False by (simp add: ensure_finalizer_def lib_okD(1) [OF assms(2)])
    have "Stored vw w' = Stored vw w" using kube_ok_update(2) [OF assms(1), of ?sn w] u by simp
    with kube_ok_update(3) [OF assms(1) u] assms(4) lib_okD(2) [OF assms(2)] show ?thesis by (simp add: written_def)
  qed
  then show "Resource vw w' = Some sn'" "registrarFinalizer \<in> set (SnFinalizers sn')" "Spec sn' = Spec sn" "SnName sn' = SnName sn"
    "SnDeletion sn' = None" "Stored vw w' = Stored vw w" by simp_all
qed

lemma ensure_finalizer_keeps: "api_keeps (Api op) R \<Longrightarrow> R (snd (ensure_finalizer op sn w)) = R w"
  by (simp add: ensure_finalizer_def api_keepsD)

lemma finalize_observed:
  assumes "api_keeps (Api op) R"
  shows "R (snd (finalize op now sn w)) = R w \<or> (\<exists>b. R (snd (finalize op now sn w)) = R (snd (Ensure (Registrars op) b [] w)))"
proof -
  let ?u = "\<lambda>v. UpdateScionNetwork (Api op) (sn\<lparr>SnFinalizers := RemoveFinalizer (Lib op) (SnFinalizers sn) registrarFinalizer\<rparr>) v"
  have "R (snd (finalize op now sn w)) = R w \<or> R (snd (finalize op now sn w)) = R (snd (deregister op now sn w))"
    using api_keepsD(1) [OF assms, of "sn\<lparr>SnFinalizers := RemoveFinalizer (Lib op) (SnFinalizers sn) registrarFinalizer\<rparr>" "snd (deregister op now sn w)"]
    by (auto simp: finalize_def split: prod.splits option.splits sum.splits)
  moreover have "snd (deregister op now sn w) = w \<or> (\<exists>b. snd (deregister op now sn w) = snd (Ensure (Registrars op) b [] w))"
    by (auto simp: deregister_def split: prod.splits option.splits sum.splits) (metis snd_conv)+
  ultimately show ?thesis by metis
qed

lemma registration_guarded_ok:
  assumes ok: "kube_ok (Api op) vw" "lib_ok (Lib op)" "api_keeps (Api op) R" "net_keeps (Registrars op) (Resource vw)"
    and run: "Reconcile op now nm (w, g) = (r, w', g')" and changed: "R w' \<noteq> R w"
  shows "(\<exists>sn b. Resource vw w = Some sn \<and> SnDeletion sn \<noteq> None \<and> R w' = R (snd (Ensure (Registrars op) b [] w))) \<or>
    (\<exists>sn. Resource vw w' = Some sn \<and> registrarFinalizer \<in> set (SnFinalizers sn))"
proof (cases "GetScionNetwork (Api op) nm w")
  case (Inl e)
  then show ?thesis using run changed by (simp add: Reconcile_def split: if_splits)
next
  case (Inr sn)
  then have sn: "Resource vw w = Some sn" by (rule kube_ok_update(1) [OF ok(1)])
  show ?thesis
  proof (cases "SnDeletion sn")
    case None
    obtain fr w1 where fin: "ensure_finalizer op sn w = (fr, w1)" by fastforce
    have "R w1 = R w" using ensure_finalizer_keeps [OF ok(3), of sn w] fin by simp
    with changed run Inr None fin obtain sn' where sn': "fr = Inr sn'" "reconcile_live op now sn' (w1, g) = (r, w', g')"
      by (cases fr) (auto simp: Reconcile_def)
    from finalizers_kept [OF ok(1,4), of now sn' w1 g] sn'(2) ensure_finalizer_ok(1,2) [OF ok(1,2) sn None fin [unfolded sn'(1)]]
    show ?thesis by (auto simp: finalizers_def)
  next
    case (Some d)
    then have "snd (finalize op now sn w) = w'" using run Inr by (auto simp: Reconcile_def split: prod.splits)
    with finalize_observed [OF ok(3), of now sn w] changed sn Some show ?thesis by auto
  qed
qed

section \<open>Failures of the checks\<close>

definition status_of :: "'w view \<Rightarrow> 'w \<Rightarrow> ScionNetworkStatus option" where
  "status_of vw w = map_option SnStatus (Resource vw w)"

lemmas status_written = kube_ok_status(3) [folded status_of_def]

lemma find_cond_set [simp]:
  assumes "lib_ok lb"
  shows "find_cond (CondType c) (Conditions (SnStatus (set_condition lb c sn))) = Some c"
    and "t \<noteq> CondType c \<Longrightarrow> find_cond t (Conditions (SnStatus (set_condition lb c sn))) = find_cond t (Conditions (SnStatus sn))"
  by (simp_all add: set_condition_def lib_okD [OF assms])

lemma CondType_apply_failed [simp]: "CondType (apply_failed_condition sn e) = ''Degraded''"
  by (simp add: apply_failed_condition_def)

lemma markApplyFailed_status:
  assumes "kube_ok (Api op) vw" "lib_ok (Lib op)"
    and "fst (StatusUpdate (Api op) (set_condition (Lib op) (apply_failed_condition sn e) sn) w) = None"
  shows "\<exists>st. status_of vw (markApplyFailed op sn e w) = Some st \<and>
    find_cond ''Degraded'' (Conditions st) = Some (apply_failed_condition sn e)"
proof -
  let ?sn = "set_condition (Lib op) (apply_failed_condition sn e) sn"
  have "StatusUpdate (Api op) ?sn w = (None, markApplyFailed op sn e w)"
    using assms(3) by (simp add: markApplyFailed_def prod_eq_iff)
  from status_written [OF assms(1) this] show ?thesis
    by (intro exI [of _ "SnStatus ?sn"] conjI) (simp_all add: find_cond_set(1) [OF assms(2), of "apply_failed_condition sn e" sn, simplified])
qed

text \<open>The check of the deny list and of the node addresses that comes before any write.\<close>

definition pass_check :: "('o, 'w) ctl \<Rightarrow> ScionNetwork \<Rightarrow> 'w \<Rightarrow> goerror option" where
  "pass_check op sn w =
     (case clusterForbiddenCIDRs (Accessors op) (ReadState (Api op) w) sn of
        Inl e \<Rightarrow> Some e
      | Inr p \<Rightarrow> validateNodeIPAdvertisement (ReadState (Api op) w) sn)"

lemma fails_closed_ok:
  assumes "kube_ok (Api op) vw" "lib_ok (Lib op)" "GetScionNetwork (Api op) nm w = Inr sn" "SnDeletion sn = None"
    and "registrarFinalizer \<in> set (SnFinalizers sn)" "pass_check op sn w = Some e"
  shows "\<exists>w'. Reconcile op now nm (w, g) = (Inl e, w', g) \<and> Stored vw w' = Stored vw w \<and>
    (fst (StatusUpdate (Api op) (set_condition (Lib op) (apply_failed_condition sn e) sn) w) = None \<longrightarrow>
     (\<exists>st. status_of vw w' = Some st \<and>
        find_cond ''Degraded'' (Conditions st) = Some (apply_failed_condition sn e)))"
proof -
  have "Reconcile op now nm (w, g) = (Inl e, markApplyFailed op sn e w, g)"
    using assms(3-6) lib_okD(1) [OF assms(2)]
    by (auto simp: Reconcile_def ensure_finalizer_def reconcile_live_def pass_check_def split: sum.splits prod.splits)
  moreover have "Stored vw (markApplyFailed op sn e w) = Stored vw w"
    by (simp add: markApplyFailed_def kube_ok_status(1) [OF assms(1)])
  ultimately show ?thesis
    by (intro exI [of _ "markApplyFailed op sn e w"] conjI impI) (simp_all add: markApplyFailed_status [OF assms(1,2)])
qed

section \<open>The status\<close>

definition stale_pod :: "int \<Rightarrow> Pod \<Rightarrow> bool" where
  "stale_pod now p \<longleftrightarrow> \<not> podReady (PodConditions p) \<and> unreadyGracePeriod \<le> now - unreadySince p"

definition pod_label :: "Pod \<Rightarrow> string" where
  "pod_label p = (if PodNode p = [] then PodName p else PodNode p)"

lemma scan_pods_eq:
  assumes "0 \<le> ready" "ready + int (length ps) < 2 ^ 31"
  shows "scan_pods now ready degraded ps =
    (ready + int (length (filter (\<lambda>p. podReady (PodConditions p)) ps)), degraded @ map pod_label (filter (stale_pod now) ps))"
  using assms
proof (induction ps arbitrary: ready degraded)
  case (Cons p ps)
  have "int32 (ready + 1) = ready + 1" using Cons.prems by (intro int32_id) simp_all
  then show ?case using Cons by (auto simp: stale_pod_def pod_label_def)
qed simp

text \<open>The verdicts, from the pods, the DaemonSet, the platform and the registrar.\<close>

definition all_ready :: "Pod list \<Rightarrow> int \<Rightarrow> bool" where
  "all_ready pods desired \<longleftrightarrow> 0 < desired \<and> int (length (filter (\<lambda>p. podReady (PodConditions p)) pods)) = desired"

definition is_degraded :: "int \<Rightarrow> Pod list \<Rightarrow> podEgressPlatform \<Rightarrow> bool \<Rightarrow> string \<Rightarrow> bool" where
  "is_degraded now pods platform regFailed backend \<longleftrightarrow>
     list_ex (stale_pod now) pods \<or> PlatStatus platform = ConditionFalse \<or> regFailed \<and> backend \<noteq> [] \<and> backend \<noteq> ''manual''"

lemma degradedReason_fst:
  "fst (degradedReason (length (sort (map pod_label (filter (stale_pod now) pods)))) m platform regFailed err backend) =
     is_degraded now pods platform regFailed backend"
  by (auto simp: degradedReason_def is_degraded_def Let_def list_ex_iff filter_empty_conv)

definition cond_on :: "string \<Rightarrow> ScionNetworkStatus \<Rightarrow> bool \<Rightarrow> bool" where
  "cond_on t st b \<longleftrightarrow> (\<exists>c. find_cond t (Conditions st) = Some c \<and> CondStatus c = (if b then ConditionTrue else ConditionFalse))"

lemma cond_simps [simp]: "CondType (cond sn t b r m) = t" "CondStatus (cond sn t b r m) = (if b then ConditionTrue else ConditionFalse)"
  by (simp_all add: cond_def)

lemma set_condition_fields [simp]:
  "StatusNodes (SnStatus (set_condition lb c sn)) = StatusNodes (SnStatus sn)"
  "StatusRegistrar (SnStatus (set_condition lb c sn)) = StatusRegistrar (SnStatus sn)"
  "StatusISDAS (SnStatus (set_condition lb c sn)) = StatusISDAS (SnStatus sn)"
  by (simp_all add: set_condition_def)

lemma new_status_conds:
  assumes "lib_ok lb" "new_status lb now sn reg regFailed platform pods ds = (sn', available, degraded)"
  shows "cond_on ''Available'' (SnStatus sn') available" "cond_on ''Degraded'' (SnStatus sn') degraded"
  using find_cond_set [OF assms(1)] find_cond_set(1) [OF assms(1), of "cond sn ''Available'' _ _ _"]
    find_cond_set(1) [OF assms(1), of "cond sn ''Degraded'' _ _ _"] assms(2)
  by (auto simp: new_status_def Let_def cond_on_def split: prod.splits)

lemma new_status_ok:
  assumes "lib_ok lb" "new_status lb now sn reg regFailed platform pods ds = (sn', available, degraded)"
    and "length pods < 2 ^ 31" "ds_state ds pods = (current, desired)"
  shows "available = (all_ready pods desired \<and> PlatStatus platform \<noteq> ConditionFalse)"
    and "degraded = is_degraded now pods platform regFailed (SpecBackend (RegistrarCfg (Spec sn)))"
    and "cond_on ''Progressing'' (SnStatus sn') (\<not> current \<or> desired = 0 \<or> SumReady (StatusNodes (SnStatus sn')) < desired)"
    and "StatusNodes (SnStatus sn') = \<lparr>SumReady = int (length (filter (\<lambda>p. podReady (PodConditions p)) pods)), SumTotal = desired,
      SumDegraded = sort (map pod_label (filter (stale_pod now) pods))\<rparr>"
    and "StatusRegistrar (SnStatus sn') = reg"
proof -
  let ?n = "int (length (filter (\<lambda>p. podReady (PodConditions p)) pods))"
  let ?l = "sort (map pod_label (filter (stale_pod now) pods))"
  have scan: "scan_pods now 0 [] pods = (?n, map pod_label (filter (stale_pod now) pods))"
    using scan_pods_eq [of 0 pods now "[]"] assms(3) by simp
  obtain d rs msg where deg: "degradedReason (length ?l) (''nodes unready for over 5m0s: ['' @ Join ?l '' '' @ '']'')
      platform regFailed (LastError reg) (SpecBackend (RegistrarCfg (Spec sn))) = (d, rs, msg)"
    using prod_cases3 by blast
  have d: "d = is_degraded now pods platform regFailed (SpecBackend (RegistrarCfg (Spec sn)))"
    using degradedReason_fst [of now pods _ platform regFailed "LastError reg"] deg by (metis fst_conv)
  note new = assms(2) [unfolded new_status_def scan assms(4) Let_def prod.case deg, symmetric]
  note c = find_cond_set [OF assms(1)]
  show "available = (all_ready pods desired \<and> PlatStatus platform \<noteq> ConditionFalse)"
    "degraded = is_degraded now pods platform regFailed (SpecBackend (RegistrarCfg (Spec sn)))"
    "StatusNodes (SnStatus sn') = \<lparr>SumReady = ?n, SumTotal = desired, SumDegraded = ?l\<rparr>" "StatusRegistrar (SnStatus sn') = reg"
    using new d by (auto simp: all_ready_def)
  show "cond_on ''Progressing'' (SnStatus sn') (\<not> current \<or> desired = 0 \<or> SumReady (StatusNodes (SnStatus sn')) < desired)"
    using new c(1) [of "cond sn ''Progressing'' _ _ _"] by (simp add: cond_on_def c(2))
qed

lemma updateStatus_ok:
  assumes "kube_ok (Api op) vw" "lib_ok (Lib op)" "updateStatus op now sn reg regFailed platform (w, g) = (Inr available, w', g')"
    and "ListPods (Api op) w = Inr pods" "length pods < 2 ^ 31" "ds_state (GetDaemonSet (Api op) w) pods = (current, desired)"
  shows "\<exists>st. status_of vw w' = Some st \<and>
    available = (all_ready pods desired \<and> PlatStatus platform \<noteq> ConditionFalse) \<and>
    g' = (if is_degraded now pods platform regFailed (SpecBackend (RegistrarCfg (Spec sn))) then 1 else 0) \<and>
    cond_on ''Available'' st available \<and> cond_on ''Degraded'' st (g' = 1) \<and>
    cond_on ''Progressing'' st (\<not> current \<or> desired = 0 \<or> SumReady (StatusNodes st) < desired) \<and>
    StatusNodes st = \<lparr>SumReady = int (length (filter (\<lambda>p. podReady (PodConditions p)) pods)), SumTotal = desired,
      SumDegraded = sort (map pod_label (filter (stale_pod now) pods))\<rparr> \<and>
    StatusRegistrar st = reg"
proof -
  obtain sn' av deg where n: "new_status (Lib op) now sn reg regFailed platform pods (GetDaemonSet (Api op) w) = (sn', av, deg)"
    using prod_cases3 by blast
  from assms(3,4) n have u: "StatusUpdate (Api op) sn' w = (None, w')" "available = av" "g' = (if deg then 1 else 0)"
    by (auto simp: updateStatus_def split: prod.splits option.splits)
  then have "(g' = 1) = deg" by simp
  with status_written [OF assms(1) u(1)] new_status_conds [OF assms(2) n] new_status_ok [OF assms(2) n assms(5,6)] u(2,3) show ?thesis by (intro exI [of _ "SnStatus sn'"]) (simp only: simp_thms)
qed

lemma updateStatus_conds:
  assumes "kube_ok (Api op) vw" "lib_ok (Lib op)" "updateStatus op now sn reg regFailed platform (w, g) = (Inr available, w', g')"
  shows "\<exists>st. status_of vw w' = Some st \<and> cond_on ''Available'' st available \<and> cond_on ''Degraded'' st (g' = 1)"
proof -
  obtain pods where pods: "ListPods (Api op) w = Inr pods"
    using assms(3) by (cases "ListPods (Api op) w") (simp_all add: updateStatus_def)
  obtain sn' av deg where n: "new_status (Lib op) now sn reg regFailed platform pods (GetDaemonSet (Api op) w) = (sn', av, deg)"
    using prod_cases3 by blast
  from assms(3) pods n have u: "StatusUpdate (Api op) sn' w = (None, w')" "available = av" "g' = (if deg then 1 else 0)"
    by (auto simp: updateStatus_def split: prod.splits option.splits)
  then have "(g' = 1) = deg" by simp
  with status_written [OF assms(1) u(1)] new_status_conds [OF assms(2) n] u(2) show ?thesis
    by (intro exI [of _ "SnStatus sn'"]) (simp only: simp_thms)
qed

section \<open>A pass without error\<close>

lemma next_pass_quiet: "next_pass regFailed available platform = no_requeue \<longleftrightarrow>
    \<not> regFailed \<and> available \<and> PlatStatus platform = ConditionTrue"
  by (simp add: next_pass_def no_requeue_def after_def second_ns_def)

lemma applied_quiet:
  assumes "kube_ok (Api op) vw" "lib_ok (Lib op)" "reconcile_applied op now sn platform (w, g) = (Inr no_requeue, w', g')"
  shows "PlatStatus platform = ConditionTrue \<and> snd (fst (syncRegistrar (Lib op) (Api op) (Registrars op) now sn w)) = False \<and>
    (\<exists>st. status_of vw w' = Some st \<and> cond_on ''Available'' st True)"
proof -
  obtain st failed w1 where sync: "syncRegistrar (Lib op) (Api op) (Registrars op) now sn w = ((st, failed), w1)" by (metis prod.collapse)
  obtain ur s' where up: "updateStatus op now (discoverISDAS op sn w1) st failed platform (w1, g) = (ur, s')" by (rule prod.exhaust)
  have "\<lparr>Requeue = True, RequeueAfter = 0\<rparr> \<noteq> no_requeue" by (simp add: no_requeue_def)
  with assms(3) sync up obtain available where a: "ur = Inr available" "next_pass failed available platform = no_requeue" "s' = (w', g')"
    by (cases ur) (auto simp: reconcile_applied_def split: if_splits)
  then show ?thesis using updateStatus_conds [OF assms(1,2) up [unfolded a(1,3)]] by (auto simp: next_pass_quiet sync)
qed

lemma live_cases:
  assumes "reconcile_live op now sn (w, g) = (Inr res, w', g')"
  obtains forb os w1 where "clusterForbiddenCIDRs (Accessors op) (ReadState (Api op) w) sn = Inr (forb, os)"
    "validateNodeIPAdvertisement (ReadState (Api op) w) sn = None"
    "apply_all (Lib op) (Api op) (Crypto op) (Settings op) now sn (agent_image op sn) forb os w = (None, w1)"
    "reconcile_applied op now sn (detectPodEgressPlatform (Accessors op) (ReadState (Api op) w)) (w1, g) = (Inr res, w', g')"
  using assms by (auto simp: reconcile_live_def Let_def split: sum.splits prod.splits option.splits)

lemma same_spec:
  assumes "Spec sn' = Spec sn"
  shows "clusterForbiddenCIDRs acc rd sn' = clusterForbiddenCIDRs acc rd sn"
    "validateNodeIPAdvertisement rd sn' = validateNodeIPAdvertisement rd sn"
    "DaemonSet sn' img forb tls = DaemonSet sn img forb tls" "agent_image op sn' = agent_image op sn"
  by (simp_all add: clusterForbiddenCIDRs_def validateNodeIPAdvertisement_def Let_def DaemonSet_def agent_image_def assms)

text \<open>The world in which a pass over a live resource reads the cluster.\<close>

definition read_world :: "('o, 'w) ctl \<Rightarrow> ScionNetwork \<Rightarrow> 'w \<Rightarrow> 'w" where
  "read_world op sn w = snd (ensure_finalizer op sn w)"

lemma reconcile_installs_ok:
  assumes ok: "kube_ok (Api op) vw" "lib_ok (Lib op)" "x509_ok (Crypto op)" "net_keeps (Registrars op) (Stored vw)"
    and sn: "GetScionNetwork (Api op) nm w = Inr sn" "SnDeletion sn = None"
    and run: "Reconcile op now nm (w, g) = (Inr res, w', g')"
  shows "\<exists>forb os ds. clusterForbiddenCIDRs (Accessors op) (ReadState (Api op) (read_world op sn w)) sn = Inr (forb, os) \<and>
    validateNodeIPAdvertisement (ReadState (Api op) (read_world op sn w)) sn = None \<and>
    Stored vw w' (''DaemonSet'', Namespace, agentName) = Some ds \<and>
    ObjBody ds = ObjBody (DaemonSet sn (agent_image op sn) forb True) \<and> Owner ds = Some (SnName sn) \<and>
    (res = no_requeue \<longrightarrow>
      PlatStatus (detectPodEgressPlatform (Accessors op) (ReadState (Api op) (read_world op sn w))) = ConditionTrue \<and>
      (\<exists>st. status_of vw w' = Some st \<and> cond_on ''Available'' st True))"
proof -
  have res: "Resource vw w = Some sn" using sn(1) by (rule kube_ok_update(1) [OF ok(1)])
  obtain fr w0 where fin: "ensure_finalizer op sn w = (fr, w0)" by fastforce
  with run sn obtain sn' where sn': "fr = Inr sn'" "reconcile_live op now sn' (w0, g) = (Inr res, w', g')"
    by (cases fr) (auto simp: Reconcile_def)
  note f = ensure_finalizer_ok(3,4) [OF ok(1,2) res sn(2) fin [unfolded sn'(1)]]
  note same = same_spec [OF f(1)]
  have w0: "read_world op sn w = w0" by (simp add: read_world_def fin)
  from sn'(2) show ?thesis
  proof (rule live_cases)
    fix forb os w1
    assume l: "clusterForbiddenCIDRs (Accessors op) (ReadState (Api op) w0) sn' = Inr (forb, os)"
      "validateNodeIPAdvertisement (ReadState (Api op) w0) sn' = None"
      "apply_all (Lib op) (Api op) (Crypto op) (Settings op) now sn' (agent_image op sn') forb os w0 = (None, w1)"
      "reconcile_applied op now sn' (detectPodEgressPlatform (Accessors op) (ReadState (Api op) w0)) (w1, g) = (Inr res, w', g')"
    have "Stored vw w' = Stored vw w1"
      using reconcile_applied_keeps [OF ok(4), of now sn' "detectPodEgressPlatform (Accessors op) (ReadState (Api op) w0)" w1 g] l(4)
        kube_ok_status(1) [OF ok(1)] by simp
    with apply_installs_ok(1) [OF ok(1-3) l(3)] l(1,2) applied_quiet [OF ok(1,2), of now sn' _ w1 g w' g'] l(4)
    show ?thesis by (auto simp: w0 same f(2))
  qed
qed

section \<open>A controller as an example\<close>

text \<open>A registrar that records what it is sent, and one that cannot be reached.\<close>

definition ex_recorder :: "kworld Net" where
  "ex_recorder =
     \<lparr>pem_ok = (\<lambda>_. True), url_error = (\<lambda>_. None),
      Do = (\<lambda>c url r w. (Inr (Response 204 []), w\<lparr>ExPuts := ExPuts w @ [Body r]\<rparr>))\<rparr>"

definition ex_down :: "kworld Net" where
  "ex_down = \<lparr>pem_ok = (\<lambda>_. True), url_error = (\<lambda>_. None), Do = (\<lambda>c url r w. (Inl (Err ''connection refused''), w))\<rparr>"

definition ex_ctl :: "kworld Net \<Rightarrow> (uval, kworld) ctl" where
  "ex_ctl net =
     \<lparr>Accessors = ex_op_accessors, Lib = ex_lib, Api = ex_kube, Crypto = ex_x509, Registrars = net,
      bootstrapHTTP = (\<lambda>url w. Inl (Err ''no route'')), Settings = \<lparr>AgentImage = ''img'', SCCAvail = False\<rparr>\<rparr>"

definition ex_open_sn :: ScionNetwork where
  "ex_open_sn = ex_sn\<lparr>Spec := ex_spec\<lparr>RegistrarCfg := \<lparr>SpecBackend = ''http'', SpecEndpoint = ''http://as:8642'', SpecCredentials = None\<rparr>\<rparr>\<rparr>"

definition ex_pod :: "string \<Rightarrow> ConditionStatus \<Rightarrow> Pod" where
  "ex_pod node st = \<lparr>PodName = ''scion-node-agent-'' @ node, PodNode = node, PodConditions = [(''Ready'', st, 0)], PodCreated = 0\<rparr>"

definition ex_kworld :: "ScionNetwork \<Rightarrow> Pod list \<Rightarrow> kworld" where
  "ex_kworld sn pods =
     \<lparr>ExObjects = [], ExResource = Some sn, ExNodes = ex_nodes, ExPods = pods,
      ExDaemonSet = Inr \<lparr>DsGeneration = 1, DsObserved = 1, DsDesired = 2\<rparr>, ExPuts = []\<rparr>"

lemma ex_nets:
  "net_keeps ex_recorder (Resource ex_view)" "net_keeps ex_recorder (Stored ex_view)"
  "net_keeps ex_down (Resource ex_view)" "net_keeps ex_down (Stored ex_view)"
  by (simp_all add: net_keeps_def ex_recorder_def ex_down_def ex_view_def)

lemma ex_api_keeps: "api_keeps ex_kube ExPuts"
  by (auto simp: api_keeps_def ex_kube_def split: option.splits sum.splits)

lemma ex_api_answers: "api_answers ex_kube ex_view nm"
  by (simp add: api_answers_def ex_kube_def ex_view_def)

lemma ex_ctl_simps [simp]:
  "Api (ex_ctl net) = ex_kube" "Lib (ex_ctl net) = ex_lib" "Crypto (ex_ctl net) = ex_x509" "Registrars (ex_ctl net) = net"
  by (simp_all add: ex_ctl_def)

section \<open>Theorems\<close>

text \<open>
  C7. Deletion is never blocked for ever. Whatever the registrar answers, and whatever other
  writers do to other objects, once the API server takes updates and a pass runs later than ten
  minutes after the deletion timestamp, the finalizer is gone and stays gone.
\<close>

theorem deletion_completes:
  assumes "reconciles vw op nm w ts w'" "kube_ok (Api op) vw" "lib_ok (Lib op)" "api_answers (Api op) vw nm"
    and "Resource vw w = Some sn" "SnDeletion sn = Some d" "t \<in> set ts" "d + deregistrationDeadline < t"
  shows "released vw w'"
proof -
  have "deleting vw d w" using assms(5,6) by (simp add: deleting_def)
  with reconciles_deleting [OF assms(1-3)] assms(4,7,8) show ?thesis by blast
qed

definition ex_deleted :: ScionNetwork where
  "ex_deleted = ex_open_sn\<lparr>SnDeletion := Some 0, SnFinalizers := [registrarFinalizer, ''other'']\<rparr>"

theorem deletion_completes_witness:
  "\<exists>w'. reconciles ex_view (ex_ctl ex_down) ''cluster'' (ex_kworld ex_deleted []) [700 * second_ns] w' \<and> released ex_view w' \<and>
    fst (Reconcile (ex_ctl ex_down) (500 * second_ns) ''cluster'' (ex_kworld ex_deleted [], 0)) \<noteq> Inr no_requeue"
proof -
  let ?op = "(ex_ctl ex_down)\<lparr>Registrars := ex_down, bootstrapHTTP := (\<lambda>url w. Inl (Err ''no route''))\<rparr>"
  obtain r w' g' where run: "Reconcile ?op (700 * second_ns) ''cluster'' (ex_kworld ex_deleted [], 0) = (r, w', g')"
    using prod_cases3 by blast
  have pass: "reconciles ex_view (ex_ctl ex_down) ''cluster'' (ex_kworld ex_deleted []) ([] @ [700 * second_ns]) w'"
    by (rule reconciles.pass [OF reconciles.no_pass ex_nets(3) run])
  have sn: "Resource ex_view (ex_kworld ex_deleted []) = Some ex_deleted" "SnDeletion ex_deleted = Some 0"
    by (simp_all add: ex_view_def ex_kworld_def ex_deleted_def)
  have "released ex_view w'"
    by (rule deletion_completes [OF pass _ _ _ sn, of "700 * second_ns"])
      (simp_all add: ex_kube_ok ex_lib_ok ex_api_answers deregistrationDeadline_def second_ns_def)
  moreover have "fst (Reconcile (ex_ctl ex_down) (500 * second_ns) ''cluster'' (ex_kworld ex_deleted [], 0)) \<noteq> Inr no_requeue" by code_simp
  ultimately show ?thesis using pass by auto
qed

text \<open>
  C10. Nothing is registered on the AS side without the finalizer that undoes it. When a pass
  changes what is registered, either the resource is being deleted and the change is the one that
  sending the empty set makes, or the stored resource carries the finalizer.
\<close>

theorem registration_guarded:
  assumes "kube_ok (Api op) vw" "lib_ok (Lib op)" "api_keeps (Api op) R" "net_keeps (Registrars op) (Resource vw)"
    and "Reconcile op now nm (w, g) = (r, w', g')" "R w' \<noteq> R w"
  shows "(\<exists>sn b. Resource vw w = Some sn \<and> SnDeletion sn \<noteq> None \<and> R w' = R (snd (Ensure (Registrars op) b [] w))) \<or>
    (\<exists>sn. Resource vw w' = Some sn \<and> registrarFinalizer \<in> set (SnFinalizers sn))"
  by (rule registration_guarded_ok [OF assms])

lemma ex_registers:
  "ExPuts (fst (snd (Reconcile (ex_ctl ex_recorder) 0 ''cluster'' (ex_kworld ex_open_sn [], 0)))) \<noteq> ExPuts (ex_kworld ex_open_sn [])"
  by code_simp

theorem registration_guarded_witness:
  "\<exists>r w' g'. Reconcile (ex_ctl ex_recorder) 0 ''cluster'' (ex_kworld ex_open_sn [], 0) = (r, w', g') \<and> ExPuts w' \<noteq> [] \<and>
    (\<exists>sn. Resource ex_view w' = Some sn \<and> registrarFinalizer \<in> set (SnFinalizers sn))"
proof -
  obtain r w' g' where run: "Reconcile (ex_ctl ex_recorder) 0 ''cluster'' (ex_kworld ex_open_sn [], 0) = (r, w', g')"
    using prod_cases3 by blast
  have puts: "ExPuts w' \<noteq> ExPuts (ex_kworld ex_open_sn [])" using ex_registers run by simp
  have none: "\<nexists>sn. Resource ex_view (ex_kworld ex_open_sn []) = Some sn \<and> SnDeletion sn \<noteq> None"
    by (simp add: ex_view_def ex_kworld_def ex_open_sn_def ex_sn_def)
  have "(\<exists>sn b. Resource ex_view (ex_kworld ex_open_sn []) = Some sn \<and> SnDeletion sn \<noteq> None \<and>
        ExPuts w' = ExPuts (snd (Ensure (Registrars (ex_ctl ex_recorder)) b [] (ex_kworld ex_open_sn [])))) \<or>
      (\<exists>sn. Resource ex_view w' = Some sn \<and> registrarFinalizer \<in> set (SnFinalizers sn))"
    by (rule registration_guarded [OF _ _ _ _ run puts]) (simp_all add: ex_kube_ok ex_lib_ok ex_api_keeps ex_nets)
  with none run puts show ?thesis by (auto simp: ex_kworld_def)
qed

text \<open>
  C3. A pass fails closed. When the deny list cannot be computed or a node address lies in the
  underlay, the pass returns that error, no managed object changes, and the stored status says
  Degraded with the error, provided it could be written.
\<close>

theorem reconcile_fails_closed:
  assumes "kube_ok (Api op) vw" "lib_ok (Lib op)" "GetScionNetwork (Api op) nm w = Inr sn" "SnDeletion sn = None"
    and "registrarFinalizer \<in> set (SnFinalizers sn)" "pass_check op sn w = Some e"
  shows "\<exists>w'. Reconcile op now nm (w, g) = (Inl e, w', g) \<and> Stored vw w' = Stored vw w \<and>
    (fst (StatusUpdate (Api op) (set_condition (Lib op) (apply_failed_condition sn e) sn) w) = None \<longrightarrow>
     (\<exists>st. status_of vw w' = Some st \<and> find_cond ''Degraded'' (Conditions st) = Some (apply_failed_condition sn e)))"
  by (rule fails_closed_ok [OF assms])

definition ex_bad_sn :: ScionNetwork where
  "ex_bad_sn = ex_open_sn\<lparr>SnFinalizers := [registrarFinalizer],
     Spec := ex_spec\<lparr>AcceptPolicy := \<lparr>SpecISDASes = [''1-ff00:0:110''], SpecForbiddenCIDRs = [''10.0.0.0/33''], SpecUnderlayCIDRs = []\<rparr>\<rparr>\<rparr>"

lemma ex_bad: "pass_check (ex_ctl ex_down) ex_bad_sn (ex_kworld ex_bad_sn []) \<noteq> None"
  "fst (StatusUpdate ex_kube sn (ex_kworld ex_bad_sn [])) = None"
  by code_simp (simp add: ex_kube_def ex_kworld_def)

theorem reconcile_fails_closed_witness:
  "\<exists>e w'. Reconcile (ex_ctl ex_down) 0 ''cluster'' (ex_kworld ex_bad_sn [], 0) = (Inl e, w', 0) \<and>
    Stored ex_view w' = Stored ex_view (ex_kworld ex_bad_sn []) \<and>
    (\<exists>st. status_of ex_view w' = Some st \<and> cond_on ''Degraded'' st True)"
proof -
  obtain e where e: "pass_check (ex_ctl ex_down) ex_bad_sn (ex_kworld ex_bad_sn []) = Some e" using ex_bad(1) by blast
  have "\<exists>w'. Reconcile (ex_ctl ex_down) 0 ''cluster'' (ex_kworld ex_bad_sn [], 0) = (Inl e, w', 0) \<and>
      Stored ex_view w' = Stored ex_view (ex_kworld ex_bad_sn []) \<and>
      (fst (StatusUpdate (Api (ex_ctl ex_down)) (set_condition (Lib (ex_ctl ex_down)) (apply_failed_condition ex_bad_sn e) ex_bad_sn) (ex_kworld ex_bad_sn [])) = None \<longrightarrow>
       (\<exists>st. status_of ex_view w' = Some st \<and> find_cond ''Degraded'' (Conditions st) = Some (apply_failed_condition ex_bad_sn e)))"
    by (rule reconcile_fails_closed [OF _ _ _ _ _ e])
      (simp_all add: ex_kube_ok ex_lib_ok, simp_all add: ex_kube_def ex_kworld_def ex_bad_sn_def ex_open_sn_def ex_sn_def)
  then show ?thesis using ex_bad(2) by (auto simp: cond_on_def apply_failed_condition_def)
qed

text \<open>
  The gauge is not set on that path: the stored status says Degraded while the gauge keeps its
  value, which is 0 at start-up.
\<close>

lemma gauge_misses_apply_failure:
  "\<exists>e w' st. Reconcile (ex_ctl ex_down) 0 ''cluster'' (ex_kworld ex_bad_sn [], 0) = (Inl e, w', 0) \<and>
    status_of ex_view w' = Some st \<and> cond_on ''Degraded'' st True"
proof -
  obtain e where e: "pass_check (ex_ctl ex_down) ex_bad_sn (ex_kworld ex_bad_sn []) = Some e" using ex_bad(1) by blast
  have "\<exists>w'. Reconcile (ex_ctl ex_down) 0 ''cluster'' (ex_kworld ex_bad_sn [], 0) = (Inl e, w', 0) \<and>
      Stored ex_view w' = Stored ex_view (ex_kworld ex_bad_sn []) \<and>
      (fst (StatusUpdate (Api (ex_ctl ex_down)) (set_condition (Lib (ex_ctl ex_down)) (apply_failed_condition ex_bad_sn e) ex_bad_sn) (ex_kworld ex_bad_sn [])) = None \<longrightarrow>
       (\<exists>st. status_of ex_view w' = Some st \<and> find_cond ''Degraded'' (Conditions st) = Some (apply_failed_condition ex_bad_sn e)))"
    by (rule fails_closed_ok [OF _ _ _ _ _ e])
      (simp_all add: ex_kube_ok ex_lib_ok, simp_all add: ex_kube_def ex_kworld_def ex_bad_sn_def ex_open_sn_def ex_sn_def)
  then show ?thesis using ex_bad(2) by (auto simp: cond_on_def apply_failed_condition_def)
qed

text \<open>
  C14. The status a pass writes agrees with the cluster it read. Available is True exactly when
  every agent the DaemonSet wants is ready and the platform is not known to drop the source
  addresses, which is also what the pass acts on; Degraded is True exactly when a pod has been
  unready for the grace period, the platform is unsuitable or a backend other than manual failed;
  and the gauge is 1 exactly when the stored Degraded condition is True.
\<close>

theorem status_agrees:
  assumes "kube_ok (Api op) vw" "lib_ok (Lib op)" "updateStatus op now sn reg regFailed platform (w, g) = (Inr available, w', g')"
    and "ListPods (Api op) w = Inr pods" "length pods < 2 ^ 31" "ds_state (GetDaemonSet (Api op) w) pods = (current, desired)"
  shows "\<exists>st. status_of vw w' = Some st \<and>
    available = (all_ready pods desired \<and> PlatStatus platform \<noteq> ConditionFalse) \<and>
    g' = (if is_degraded now pods platform regFailed (SpecBackend (RegistrarCfg (Spec sn))) then 1 else 0) \<and>
    cond_on ''Available'' st available \<and> cond_on ''Degraded'' st (g' = 1) \<and>
    cond_on ''Progressing'' st (\<not> current \<or> desired = 0 \<or> SumReady (StatusNodes st) < desired) \<and>
    StatusNodes st = \<lparr>SumReady = int (length (filter (\<lambda>p. podReady (PodConditions p)) pods)), SumTotal = desired,
      SumDegraded = sort (map pod_label (filter (stale_pod now) pods))\<rparr> \<and>
    StatusRegistrar st = reg"
  by (rule updateStatus_ok [OF assms])

definition ex_pods :: "Pod list" where
  "ex_pods = [ex_pod ''n1'' ConditionTrue, ex_pod ''n2'' ConditionFalse]"

definition ex_platform :: podEgressPlatform where
  "ex_platform = \<lparr>PlatStatus = ConditionUnknown, PlatReason = ''PlatformUnverified'', PlatMessage = []\<rparr>"

theorem status_agrees_witness:
  "\<exists>w' st. updateStatus (ex_ctl ex_down) (400 * second_ns) ex_open_sn (StatusRegistrar ex_status) False ex_platform (ex_kworld ex_open_sn ex_pods, 0) =
      (Inr False, w', 1) \<and> status_of ex_view w' = Some st \<and> cond_on ''Degraded'' st True \<and> SumDegraded (StatusNodes st) = [''n2'']"
proof -
  let ?w = "ex_kworld ex_open_sn ex_pods"
  let ?up = "updateStatus (ex_ctl ex_down) (400 * second_ns) ex_open_sn (StatusRegistrar ex_status) False ex_platform (?w, 0)"
  have up: "fst ?up = Inr False" "snd (snd ?up) = 1"
    "sort (map pod_label (filter (stale_pod (400 * second_ns)) ex_pods)) = [''n2'']"
    by code_simp+
  obtain w' where w': "?up = (Inr False, w', 1)" using up(1,2) by (metis prod.collapse)
  have a: "kube_ok (Api (ex_ctl ex_down)) ex_view" "lib_ok (Lib (ex_ctl ex_down))" "ListPods (Api (ex_ctl ex_down)) ?w = Inr ex_pods"
    "length ex_pods < 2 ^ 31" "ds_state (GetDaemonSet (Api (ex_ctl ex_down)) ?w) ex_pods = (True, 2)"
    by (simp_all add: ex_kube_ok ex_lib_ok) (simp_all add: ex_kube_def ex_kworld_def ex_pods_def ds_state_def)
  from status_agrees [OF a(1,2) w' a(3-5)] up(3) w' show ?thesis by auto
qed


lemma ex_reconcile: "fst (Reconcile (ex_ctl ex_recorder) 0 ''cluster'' (ex_kworld ex_open_sn ex_pods, 0)) = Inr (after (30 * second_ns))"
  by code_simp


section \<open>Start-up of the operator\<close>

text \<open>
  The operator starts with the image from its environment, and with the constraints only if
  discovery succeeded; every failed call of \<open>main\<close> ends the process with status 1.
\<close>

lemma operator_main_finished:
  "operator_main c = Finished r \<longleftrightarrow>
     r = \<lparr>AgentImage = AgentImageEnv c, SCCAvail = (DiscoveryClient c = None \<and> SCCResources c = None)\<rparr> \<and>
     AgentImageEnv c \<noteq> [] \<and> AddClientGo c = None \<and> AddTypes c = None \<and> GetConfig c = None \<and>
     NewManager c manager_options = None \<and> AddHealthz c = None \<and> AddReadyz c = None \<and> Setup c = None \<and> Start c r = None"
  by (auto simp: operator_main_def exit_if_def Let_def split: option.splits)

end
