(* ===== verification/Sig.thy ===== *)
theory Sig
  imports Files Netip
begin

text \<open>
  Package \<open>sig\<close>: the embedded gateway. \<open>Run\<close> loads the AS information, connects, builds the
  configuration of the gateway and runs it; the calls into the SCION libraries are parameters
  (record \<open>sig_calls\<close>). Beside it runs the loop that enables forwarding on the tunnel device.

  The lemmas show that the connector is closed on every path, that readiness is reported at most
  once and only for a complete configuration, and that the loop ends after a bounded number of
  writes whatever the device and the context do.
\<close>

section \<open>Parameters\<close>

definition ctrlPort :: nat where "ctrlPort = 30256"
definition dataPort :: nat where "dataPort = 30056"
definition probePort :: nat where "probePort = 30856"

text \<open>An address is a slice of bytes; \<open>ParseIP\<close> gives sixteen of them.\<close>

type_synonym ip = "8 word list"

record Params =
  ParConfigDir :: string
  TrafficPolicyFile :: string
  RoutingPolicyFile :: string
  ParTunName :: string
  ParNodeIP :: ip
  ReloadTrigger :: bool
  DebugMux :: bool
  OnUp :: bool

record UDPAddr =
  UdpIP :: ip
  UdpPort :: nat

definition addrs :: "ip \<Rightarrow> UDPAddr \<times> UDPAddr \<times> UDPAddr" where
  "addrs nodeIP =
     (\<lparr>UdpIP = nodeIP, UdpPort = ctrlPort\<rparr>, \<lparr>UdpIP = nodeIP, UdpPort = dataPort\<rparr>, \<lparr>UdpIP = nodeIP, UdpPort = probePort\<rparr>)"

definition bytes_val :: "ip \<Rightarrow> nat" where
  "bytes_val bs = foldl (\<lambda>v b. 256 * v + unat b) 0 bs"

definition AddrFromSlice :: "ip \<Rightarrow> addr option" where
  "AddrFromSlice bs =
     (if length bs = 4 then Some (V4 (of_nat (bytes_val bs)))
      else if length bs = 16 then Some (V6 (of_nat (bytes_val bs)) [])
      else None)"

section \<open>The gateway\<close>

record Gateway =
  GwID :: string
  GwTrafficPolicyFile :: string
  GwRoutingPolicyFile :: string
  ControlServerAddr :: UDPAddr
  ControlClientIP :: ip
  ServiceDiscoveryClientIP :: ip
  PathMonitorIP :: addr
  ProbeServerAddr :: UDPAddr
  ProbeClientIP :: ip
  DataServerAddr :: UDPAddr
  DataClientIP :: ip
  TunnelName :: string
  PublicMux :: bool
  MetricsIA :: string

record sig_calls =
  LoadASInfoFromFile :: "string \<Rightarrow> goerror option"
  NewStandaloneConnector :: "string \<Rightarrow> goerror option"
  ConnLocalIA :: "string result"
  DefaultLocalIP :: "ip result"
  GatewayRun :: "Gateway \<Rightarrow> goerror option"

text \<open>What \<open>Run\<close> does that others see, in order.\<close>

datatype sig_event = Connect | Up | StartForwarding string | RunGateway Gateway | Disconnect

definition gateway_config :: "Params \<Rightarrow> ip \<Rightarrow> addr \<Rightarrow> string \<Rightarrow> Gateway" where
  "gateway_config p nodeIP monitor ia =
     (case addrs nodeIP of (ctrlAddr, dataAddr, probeAddr) \<Rightarrow>
        \<lparr>GwID = ''scion-node-agent'',
         GwTrafficPolicyFile = TrafficPolicyFile p,
         GwRoutingPolicyFile = RoutingPolicyFile p,
         ControlServerAddr = ctrlAddr,
         ControlClientIP = UdpIP ctrlAddr,
         ServiceDiscoveryClientIP = UdpIP ctrlAddr,
         PathMonitorIP = monitor,
         ProbeServerAddr = probeAddr,
         ProbeClientIP = UdpIP ctrlAddr,
         DataServerAddr = dataAddr,
         DataClientIP = UdpIP dataAddr,
         TunnelName = ParTunName p,
         PublicMux = DebugMux p,
         MetricsIA = ia\<rparr>)"

definition forwarding_path :: "Params \<Rightarrow> string" where
  "forwarding_path p = path_join [''/proc/sys/net/ipv4/conf'', ParTunName p, ''forwarding'']"

definition sig_connected :: "sig_calls \<Rightarrow> Params \<Rightarrow> goerror option \<times> sig_event list" where
  "sig_connected c p =
     (case ConnLocalIA c of
        Inl e \<Rightarrow> (Some (Wrap ''retrieving local ISD-AS'' e), [])
      | Inr ia \<Rightarrow>
          (case (if ParNodeIP p = [] then DefaultLocalIP c else Inr (ParNodeIP p)) of
             Inl e \<Rightarrow> (Some (Wrap ''determining default local IP'' e), [])
           | Inr nodeIP \<Rightarrow>
               (case AddrFromSlice (UdpIP (fst (addrs nodeIP))) of
                  None \<Rightarrow> (Some (Err ''invalid IP address''), [])
                | Some monitor \<Rightarrow>
                    (let gw = gateway_config p nodeIP monitor ia
                     in (GatewayRun c gw,
                         (if OnUp p then [Up] else []) @ [StartForwarding (forwarding_path p), RunGateway gw])))))"

definition sig_Run :: "sig_calls \<Rightarrow> Params \<Rightarrow> goerror option \<times> sig_event list" where
  "sig_Run c p =
     (if \<not> ReloadTrigger p then (Some (Err ''ReloadTrigger must not be nil''), [])
      else (case LoadASInfoFromFile c (path_join [ParConfigDir p, ''topology.json'']) of
          Some e \<Rightarrow> (Some (Wrap ''loading AS info from topology'' e), [])
        | None \<Rightarrow>
            (case NewStandaloneConnector c (path_join [ParConfigDir p, ''certs'']) of
               Some e \<Rightarrow> (Some (Wrap ''creating standalone daemon connector'' e), [])
             | None \<Rightarrow> (case sig_connected c p of (r, evs) \<Rightarrow> (r, [Connect] @ evs @ [Disconnect])))))"

section \<open>Forwarding\<close>

text \<open>
  Before each try the loop waits; \<open>cancelled i\<close> says that the context ended during wait \<open>i\<close>, and
  \<open>env i\<close> how the file system behaves in try \<open>i\<close>. The last component of the result counts the tries.
\<close>

partial_function (option) tun_loop ::
  "(nat \<Rightarrow> bool) \<Rightarrow> (nat \<Rightarrow> fsenv) \<Rightarrow> string \<Rightarrow> int \<Rightarrow> nat \<Rightarrow> goerror option \<Rightarrow> io \<Rightarrow> (goerror option \<times> io \<times> nat) option" where
  "tun_loop cancelled env path attempts i lastErr s =
     (if int i < attempts
      then (if cancelled i then Some (Some ErrCanceled, s, i)
            else (case WriteFile (env i) path ''1'' mode644 s of
                (None, s') \<Rightarrow> Some (None, s', Suc i)
              | (Some e, s') \<Rightarrow> tun_loop cancelled env path attempts (Suc i) (Some e) s'))
      else Some (Some (case lastErr of
          None \<Rightarrow> Err ''enabling tun forwarding after retries exhausted''
        | Some e \<Rightarrow> Wrap ''enabling tun forwarding after retries exhausted'' e), s, i))"

definition enableTunForwarding ::
  "(nat \<Rightarrow> bool) \<Rightarrow> (nat \<Rightarrow> fsenv) \<Rightarrow> string \<Rightarrow> int \<Rightarrow> io \<Rightarrow> (goerror option \<times> io \<times> nat) option" where
  "enableTunForwarding cancelled env path attempts s = tun_loop cancelled env path attempts 0 None s"

declare tun_loop.simps [code]

text \<open>The goroutine of \<open>Run\<close>: sixty tries, and what it logs of the result.\<close>

datatype tun_log = Enabled | Quiet | FailedToEnable goerror

definition forwarding_goroutine :: "(nat \<Rightarrow> bool) \<Rightarrow> (nat \<Rightarrow> fsenv) \<Rightarrow> bool \<Rightarrow> Params \<Rightarrow> io \<Rightarrow> (tun_log \<times> io) option" where
  "forwarding_goroutine cancelled env ctx_done p s =
     map_option (\<lambda>(r, s', n).
         (case r of None \<Rightarrow> Enabled | Some e \<Rightarrow> if ctx_done then Quiet else FailedToEnable e, s'))
       (enableTunForwarding cancelled env (forwarding_path p) 60 s)"

section \<open>The loop ends\<close>

lemma tun_loop_returns:
  assumes "map_ok (Disk s)" "int i \<le> max attempts (int i)"
  shows "\<exists>r s' n. tun_loop cancelled env path attempts i lastErr s = Some (r, s', n) \<and> i \<le> n \<and> int n \<le> max attempts (int i) \<and>
    (\<forall>q. q \<noteq> path \<longrightarrow> mget (Disk s') q = mget (Disk s) q) \<and>
    (r = None \<longrightarrow> (\<exists>f. mget (Disk s') path = Some f \<and> Content f = ''1'')) \<and>
    ((\<forall>k. \<not> cancelled k) \<and> r \<noteq> None \<longrightarrow> int n = max attempts (int i))"
  using assms
proof (induction "nat (attempts - int i)" arbitrary: i lastErr s)
  case 0
  then show ?case by (subst tun_loop.simps) auto
next
  case (Suc d)
  then have lt: "int i < attempts" by simp
  obtain we s1 where w: "WriteFile (env i) path ''1'' mode644 s = (we, s1)" by fastforce
  note eff = WriteFile_effect [OF Suc.prems(1), where env = "env i" and p = path and data = "''1''" and m = mode644, unfolded w, simplified]
  show ?case
  proof (cases "cancelled i \<or> we = None")
    case True
    then show ?thesis using lt w eff by (subst tun_loop.simps) auto
  next
    case False
    then obtain e where e: "we = Some e" by auto
    have "\<exists>r s' n. tun_loop cancelled env path attempts (Suc i) (Some e) s1 = Some (r, s', n) \<and> Suc i \<le> n \<and> int n \<le> max attempts (int (Suc i)) \<and>
      (\<forall>q. q \<noteq> path \<longrightarrow> mget (Disk s') q = mget (Disk s1) q) \<and>
      (r = None \<longrightarrow> (\<exists>f. mget (Disk s') path = Some f \<and> Content f = ''1'')) \<and>
      ((\<forall>k. \<not> cancelled k) \<and> r \<noteq> None \<longrightarrow> int n = max attempts (int (Suc i)))"
      using Suc.hyps(2) eff(1) by (intro Suc.hyps(1)) simp_all
    moreover have "tun_loop cancelled env path attempts i lastErr s = tun_loop cancelled env path attempts (Suc i) (Some e) s1"
      using lt w e False by (subst tun_loop.simps) simp
    moreover have "max attempts (int (Suc i)) = attempts" "max attempts (int i) = attempts" using lt by auto
    ultimately show ?thesis using eff(2) by auto
  qed
qed

text \<open>
  C22. The loop that enables forwarding always ends: for every behaviour of the device and of the
  context it returns after at most \<open>attempts\<close> tries, each a second apart. It touches no file but
  the switch of the device; success means that the switch holds 1, and without a cancellation
  it gives up only after all tries.
\<close>

theorem enableTunForwarding_ends:
  assumes "map_ok (Disk s)"
  shows "\<exists>r s' n. enableTunForwarding cancelled env path attempts s = Some (r, s', n) \<and> int n \<le> max attempts 0 \<and>
    (\<forall>q. q \<noteq> path \<longrightarrow> mget (Disk s') q = mget (Disk s) q) \<and>
    (r = None \<longrightarrow> (\<exists>f. mget (Disk s') path = Some f \<and> Content f = ''1'')) \<and>
    ((\<forall>k. \<not> cancelled k) \<and> r \<noteq> None \<longrightarrow> int n = max attempts 0)"
  using tun_loop_returns [OF assms, of 0 attempts cancelled env path None] by (simp add: enableTunForwarding_def)

theorem enableTunForwarding_ends_witness:
  "\<exists>r s' n. enableTunForwarding (\<lambda>_. False) (\<lambda>i. \<lparr>Fault = (\<lambda>op p. if i < 2 then Some (ErrNotExist p) else None), Short = 0, Random = []\<rparr>)
      ''/proc/sys/net/ipv4/conf/scion0/forwarding'' 60 \<lparr>Disk = [], History = []\<rparr> = Some (r, s', n) \<and> n \<le> 60"
  using enableTunForwarding_ends [of "\<lparr>Disk = [], History = []\<rparr>" "\<lambda>_. False"
      "\<lambda>i. \<lparr>Fault = (\<lambda>op p. if i < 2 then Some (ErrNotExist p) else None), Short = 0, Random = []\<rparr>"
      "''/proc/sys/net/ipv4/conf/scion0/forwarding''" 60]
  by fastforce

section \<open>Events of one run\<close>

lemma sig_Run_cases:
  "(\<exists>e. sig_Run c p = (Some e, [])) \<or>
   (\<exists>r evs. sig_connected c p = (r, evs) \<and> sig_Run c p = (r, Connect # evs @ [Disconnect]))"
  by (cases "sig_connected c p") (simp add: sig_Run_def split: option.split)

lemma sig_connected_cases:
  "(\<exists>e. sig_connected c p = (Some e, [])) \<or>
   (\<exists>nodeIP monitor ia gw. gw = gateway_config p nodeIP monitor ia \<and> (ParNodeIP p \<noteq> [] \<longrightarrow> nodeIP = ParNodeIP p) \<and>
      sig_connected c p =
        (GatewayRun c gw, (if OnUp p then [Up] else []) @ [StartForwarding (forwarding_path p), RunGateway gw]))"
  by (auto simp: sig_connected_def Let_def addrs_def split: sum.split option.split)

text \<open>
  The connector is closed exactly as often as it was opened and last of all; readiness is reported
  only for a gateway that runs next.
\<close>

lemma sig_Run_closes:
  "count_list (snd (sig_Run c p)) Connect = count_list (snd (sig_Run c p)) Disconnect"
  "snd (sig_Run c p) \<noteq> [] \<Longrightarrow> last (snd (sig_Run c p)) = Disconnect"
  using sig_Run_cases [of c p] sig_connected_cases [of c p] by fastforce+

lemma Up_then_runs:
  "Up \<in> set (snd (sig_Run c p)) \<Longrightarrow> \<exists>gw. RunGateway gw \<in> set (snd (sig_Run c p)) \<and> fst (sig_Run c p) = GatewayRun c gw"
  using sig_Run_cases [of c p] sig_connected_cases [of c p] by fastforce

text \<open>The gateway serves on the node's address at the two ports that the operator registers.\<close>

lemma RunGateway_binds:
  assumes "RunGateway gw \<in> set (snd (sig_Run c p))" "ParNodeIP p \<noteq> []"
  shows "ControlServerAddr gw = \<lparr>UdpIP = ParNodeIP p, UdpPort = ctrlPort\<rparr> \<and>
    DataServerAddr gw = \<lparr>UdpIP = ParNodeIP p, UdpPort = dataPort\<rparr> \<and>
    GwTrafficPolicyFile gw = TrafficPolicyFile p \<and> GwRoutingPolicyFile gw = RoutingPolicyFile p"
  using assms sig_Run_cases [of c p] sig_connected_cases [of c p]
  by (auto simp: gateway_config_def addrs_def split: if_splits)

lemma forwarding_goroutine_ends:
  "map_ok (Disk s) \<Longrightarrow> \<exists>l s'. forwarding_goroutine cancelled env ctx_done p s = Some (l, s')"
  using tun_loop_returns [of s 0 60 cancelled env "forwarding_path p" None]
  by (auto simp: forwarding_goroutine_def enableTunForwarding_def)

end
