(* ===== verification/Daemonapi.thy ===== *)
theory Daemonapi
  imports Files "HOL-Library.Multiset" "HOL-Library.Sublist"
begin

text \<open>
  Package \<open>daemonapi\<close>: the sciond API inside the agent. Modelled are the check of the cached
  databases before the start (\<open>resetStaleTrustCache\<close>), the tolerant registration of a metric
  (\<open>registerOrReuse\<close>) and the life cycle of \<open>Run\<close>: which resources it acquires, which call can fail
  where, and what its deferred calls release. The databases, the trust engine, the gRPC server and the metrics registry
  are library code; their results are parameters.

  The lemmas show that the check deletes nothing but the six cache files, and those only after a
  write conflict, and that \<open>Run\<close> releases on every path what it acquired, in a fixed order.
\<close>

section \<open>The check of the caches\<close>

text \<open>\<open>os.Remove\<close>, with its error.\<close>

definition os_Remove :: "fsenv \<Rightarrow> string \<Rightarrow> io \<Rightarrow> outcome" where
  "os_Remove env p =
     guarded env OpRemove p (\<lambda>s.
       if mget (Disk s) p = None then (Some (ErrNotExist p), s)
       else (None, mutate (mdel_if (\<lambda>q. q = p) (Disk s)) s))"

text \<open>The trust database: each call has a result and may change the files of the database.\<close>

record trust_store =
  OpenTrust :: "string \<Rightarrow> io \<Rightarrow> outcome"
  LoadTRCs :: "string \<Rightarrow> string \<Rightarrow> io \<Rightarrow> outcome"
  CloseTrust :: "string \<Rightarrow> io \<Rightarrow> outcome"

definition cache_files :: "string \<Rightarrow> string list" where
  "cache_files stateDir =
     [path_join [stateDir, base @ sfx]. base \<leftarrow> [''sd.trust.db'', ''sd.path.db''], sfx \<leftarrow> ['''', ''-wal'', ''-shm'']]"

fun remove_stale :: "fsenv \<Rightarrow> string list \<Rightarrow> io \<Rightarrow> outcome" where
  "remove_stale env [] s = (None, s)"
| "remove_stale env (p # ps) s =
     (case os_Remove env p s of
        (None, s') \<Rightarrow> remove_stale env ps s'
      | (Some e, s') \<Rightarrow> if IsNotExist e then remove_stale env ps s' else (Some (Wrap ''removing stale daemon cache'' e), s'))"

definition resetStaleTrustCache :: "fsenv \<Rightarrow> trust_store \<Rightarrow> string \<Rightarrow> string \<Rightarrow> io \<Rightarrow> outcome" where
  "resetStaleTrustCache env st certsDir stateDir s =
     (let db = path_join [stateDir, ''sd.trust.db''] in
      case OpenTrust st db s of
        (Some e, s1) \<Rightarrow> (Some (Wrap ''opening trust cache for preflight'' e), s1)
      | (None, s1) \<Rightarrow>
          (case LoadTRCs st certsDir db s1 of (loadErr, s2) \<Rightarrow>
           case CloseTrust st db s2 of (closeErr, s3) \<Rightarrow>
             (case loadErr of
                None \<Rightarrow> (map_option (Wrap ''closing trust cache after preflight'') closeErr, s3)
              | Some e \<Rightarrow>
                  if \<not> IsWriteFailed e then (Some (Wrap ''preflight TRC load'' e), s3)
                  else remove_stale env (cache_files stateDir) s3)))"

section \<open>Registration of a metric\<close>

text \<open>
  The registry's answer: the collector is new, an equal one exists, or another error. \<open>asC\<close> is
  the type assertion on the existing collector; where it fails the code panics (None).
\<close>

datatype 'k registration = Registered | AlreadyRegistered 'k | RegisterFailed goerror

definition registerOrReuse :: "('c \<Rightarrow> 'k registration) \<Rightarrow> ('k \<Rightarrow> 'c option) \<Rightarrow> 'c \<Rightarrow> ('c \<times> goerror option) option" where
  "registerOrReuse reg asC c =
     (case reg c of
        Registered \<Rightarrow> Some (c, None)
      | AlreadyRegistered k \<Rightarrow> map_option (\<lambda>c'. (c', None)) (asC k)
      | RegisterFailed e \<Rightarrow> Some (c, Some e))"

text \<open>The counters of the topology loader, each a metric with its labels.\<close>

record LoaderMetrics =
  ValidationErrors :: "string \<times> (string \<times> string) list"
  ReadErrors :: "string \<times> (string \<times> string) list"
  LastUpdate :: "string \<times> (string \<times> string) list"
  Updates :: "string \<times> (string \<times> string) list"

definition loaderMetrics :: "string \<Rightarrow> string \<Rightarrow> LoaderMetrics" where
  "loaderMetrics labelResult success =
     (let updates = ''topology_updates_total'' in
      \<lparr>ValidationErrors = (updates, [(labelResult, ''err_validate'')]),
       ReadErrors = (updates, [(labelResult, ''err_read'')]),
       LastUpdate = (''topology_last_update_time'', []),
       Updates = (updates, [(labelResult, success)])\<rparr>)"

section \<open>The life cycle\<close>

definition queryInterval :: int where "queryInterval = 5 * 60"

text \<open>The resolver serves control services only (their addresses in text); every other kind is a panic.\<close>

definition SvcResolver :: "('svc \<Rightarrow> 'svc) \<Rightarrow> 'svc \<Rightarrow> ('svc \<Rightarrow> string) \<Rightarrow> string list \<Rightarrow> 'svc \<Rightarrow> string list result" where
  "SvcResolver svcBase svcCS show_svc controlServices dst =
     (if svcBase dst \<noteq> svcCS
      then Inl (ErrPanic (''unsupported address type, possible implementation error: '' @ show_svc (svcBase dst)))
      else Inr controlServices)"

text \<open>One round of the loader task: what it logs.\<close>

datatype trc_log = LoadingFailed goerror | LoadedTRCs "string list"

definition trc_loader_task :: "string list \<Rightarrow> goerror option \<Rightarrow> trc_log list" where
  "trc_loader_task loaded e =
     (case e of None \<Rightarrow> [] | Some e' \<Rightarrow> [LoadingFailed e']) @ (if loaded \<noteq> [] then [LoadedTRCs loaded] else [])"

datatype resource = Context | Group | RevCache | PathDB | Cleaner | RcCleaner | TrustDB | TrcLoaderTask

datatype daemon_event = Acquire resource | Release resource | StartTopology | Serve string | StopOnDone

record ('c, 'k) daemon_calls =
  TopologyLoader :: "string \<Rightarrow> goerror option"
  NewPathStorage :: "string \<Rightarrow> goerror option"
  NewTrustStorage :: "string \<Rightarrow> goerror option"
  RegisterCounter :: "'c \<Rightarrow> 'k registration"
  AsCounter :: "'k \<Rightarrow> 'c option"
  QueriesTotal :: 'c
  NewEngine :: "string \<Rightarrow> 'c \<Rightarrow> goerror option"
  Listen :: "string \<Rightarrow> goerror option"
  GroupWait :: "goerror option"

type_synonym daemon_run = "goerror option \<times> daemon_event list"

definition fails :: "string \<Rightarrow> goerror \<Rightarrow> daemon_run" where
  "fails msg e = (Some (Wrap msg e), [])"

definition emits :: "daemon_event list \<Rightarrow> daemon_run \<Rightarrow> daemon_run" where
  "emits evs r = (fst r, evs @ snd r)"

text \<open>\<open>defers x r\<close>: the deferred call that releases \<open>x\<close> runs after \<open>r\<close>, whatever its result.\<close>

definition defers :: "resource \<Rightarrow> daemon_run \<Rightarrow> daemon_run" where
  "defers x r = (fst r, snd r @ [Release x])"

text \<open>The deferred wait keeps the first error.\<close>

definition reaps :: "goerror option \<Rightarrow> daemon_run \<Rightarrow> daemon_run" where
  "reaps werr r = (case fst r of None \<Rightarrow> werr | Some e \<Rightarrow> Some e, snd r @ [Release Group])"

definition daemon_serve :: "('c, 'k) daemon_calls \<Rightarrow> string \<Rightarrow> daemon_run" where
  "daemon_serve c listenAddr = (GroupWait c, [Serve listenAddr, StopOnDone])"

definition daemon_listen :: "('c, 'k) daemon_calls \<Rightarrow> string \<Rightarrow> daemon_run" where
  "daemon_listen c listenAddr =
     emits [Acquire TrcLoaderTask] (defers TrcLoaderTask
       (case Listen c listenAddr of
          Some e \<Rightarrow> fails ''listening'' e
        | None \<Rightarrow> daemon_serve c listenAddr))"

definition daemon_trust :: "('c, 'k) daemon_calls \<Rightarrow> string \<Rightarrow> string \<Rightarrow> string \<Rightarrow> daemon_run" where
  "daemon_trust c configDir stateDir listenAddr =
     (case NewTrustStorage c (path_join [stateDir, ''sd.trust.db'']) of
        Some e \<Rightarrow> fails ''initializing trust database'' e
      | None \<Rightarrow>
          emits [Acquire TrustDB] (defers TrustDB
            (case registerOrReuse (RegisterCounter c) (AsCounter c) (QueriesTotal c) of
               None \<Rightarrow> (Some (ErrPanic ''interface conversion''), [])
             | Some (queriesTotal, Some rerr) \<Rightarrow> fails ''registering trust DB metrics'' rerr
             | Some (queriesTotal, None) \<Rightarrow>
                 (case NewEngine c (path_join [configDir, ''certs'']) queriesTotal of
                    Some e \<Rightarrow> fails ''creating trust engine'' e
                  | None \<Rightarrow> daemon_listen c listenAddr))))"

definition daemon_storage :: "('c, 'k) daemon_calls \<Rightarrow> string \<Rightarrow> string \<Rightarrow> string \<Rightarrow> daemon_run" where
  "daemon_storage c configDir stateDir listenAddr =
     emits [Acquire RevCache]
       (case NewPathStorage c (path_join [stateDir, ''sd.path.db'']) of
          Some e \<Rightarrow> fails ''initializing path storage'' e
        | None \<Rightarrow>
            emits [Acquire PathDB] (defers PathDB (defers RevCache
              (emits [Acquire Cleaner] (defers Cleaner
                (emits [Acquire RcCleaner] (defers RcCleaner
                  (daemon_trust c configDir stateDir listenAddr))))))))"

definition daemon_Run ::
  "fsenv \<Rightarrow> trust_store \<Rightarrow> ('c, 'k) daemon_calls \<Rightarrow> string \<Rightarrow> string \<Rightarrow> string \<Rightarrow> io \<Rightarrow> daemon_run \<times> io" where
  "daemon_Run env st c configDir stateDir listenAddr s =
     (case resetStaleTrustCache env st (path_join [configDir, ''certs'']) stateDir s of
        (Some e, s') \<Rightarrow> ((Some e, []), s')
      | (None, s') \<Rightarrow>
          (case TopologyLoader c (path_join [configDir, ''topology.json'']) of
             Some e \<Rightarrow> fails ''creating topology loader'' e
           | None \<Rightarrow>
               emits [Acquire Context] (defers Context
                 (emits [Acquire Group] (reaps (GroupWait c)
                   (emits [StartTopology] (daemon_storage c configDir stateDir listenAddr))))), s'))"

lemmas daemon_defs =
  daemon_Run_def daemon_storage_def daemon_trust_def daemon_listen_def daemon_serve_def
  emits_def defers_def reaps_def fails_def

section \<open>Only caches are deleted\<close>

definition removes_only :: "string set \<Rightarrow> io \<Rightarrow> io \<Rightarrow> bool" where
  "removes_only A s t = (map_ok (Disk t) \<and> (\<forall>q. mget (Disk t) q = mget (Disk s) q \<or> (q \<in> A \<and> mget (Disk t) q = None)))"

lemma removes_only_refl: "map_ok (Disk s) \<Longrightarrow> removes_only A s s"
  by (simp add: removes_only_def)

lemma removes_only_trans: "removes_only A s t \<Longrightarrow> removes_only A t u \<Longrightarrow> removes_only A s u"
  unfolding removes_only_def by metis

text \<open>A database call changes files of the trust database only.\<close>

definition db_only :: "string \<Rightarrow> (io \<Rightarrow> outcome) \<Rightarrow> bool" where
  "db_only stateDir f =
     (\<forall>s. map_ok (Disk s) \<longrightarrow> map_ok (Disk (snd (f s))) \<and>
       (\<forall>q. q \<notin> set (cache_files stateDir) \<longrightarrow> mget (Disk (snd (f s))) q = mget (Disk s) q))"

definition store_ok :: "string \<Rightarrow> trust_store \<Rightarrow> bool" where
  "store_ok stateDir st =
     (\<forall>certs. let db = path_join [stateDir, ''sd.trust.db''] in
        db_only stateDir (OpenTrust st db) \<and> db_only stateDir (LoadTRCs st certs db) \<and> db_only stateDir (CloseTrust st db))"

lemma removes_onlyD: "removes_only A s t \<Longrightarrow> q \<notin> A \<Longrightarrow> mget (Disk t) q = mget (Disk s) q"
  unfolding removes_only_def by metis

lemma os_Remove_effect:
  assumes "map_ok (Disk s)" "p \<in> A"
  shows "removes_only A s (snd (os_Remove env p s))"
    and "fst (os_Remove env p s) = None \<Longrightarrow> mget (Disk (snd (os_Remove env p s))) p = None"
  using assms by (auto simp: os_Remove_def guarded_def removes_only_def mutate_def mget_mdel_if map_ok_mdel_if split: option.splits)

lemma os_Remove_missing:
  assumes "fst (os_Remove env p s) = Some e" "IsNotExist e" "\<forall>e. Fault env OpRemove p = Some e \<longrightarrow> \<not> IsNotExist e"
  shows "mget (Disk (snd (os_Remove env p s))) p = None"
  using assms by (auto simp: os_Remove_def guarded_def split: option.splits if_splits)

lemma remove_stale_step:
  "remove_stale env (p # ps) s =
     (if fst (os_Remove env p s) = None \<or> IsNotExist (the (fst (os_Remove env p s)))
      then remove_stale env ps (snd (os_Remove env p s))
      else (Some (Wrap ''removing stale daemon cache'' (the (fst (os_Remove env p s)))), snd (os_Remove env p s)))"
  by (simp split: prod.split option.split)

declare remove_stale.simps(2) [simp del]

lemma remove_stale_only:
  assumes "map_ok (Disk s)" "set ps \<subseteq> A"
  shows "removes_only A s (snd (remove_stale env ps s))"
  using assms
proof (induction ps arbitrary: s)
  case (Cons p ps)
  have step: "removes_only A s (snd (os_Remove env p s))" using Cons.prems by (intro os_Remove_effect) auto
  then have ok: "map_ok (Disk (snd (os_Remove env p s)))" by (simp add: removes_only_def)
  show ?case
    using step removes_only_trans [OF step Cons.IH [OF ok]] Cons.prems(2) by (simp add: remove_stale_step)
qed (simp add: removes_only_refl)

lemma remove_stale_all:
  assumes "map_ok (Disk s)" "fst (remove_stale env ps s) = None" "q \<in> set ps"
    and "\<forall>p e. Fault env OpRemove p = Some e \<longrightarrow> \<not> IsNotExist e"
  shows "mget (Disk (snd (remove_stale env ps s))) q = None"
  using assms(1-3)
proof (induction ps arbitrary: s)
  case (Cons p ps)
  let ?t = "snd (os_Remove env p s)"
  have go: "fst (os_Remove env p s) = None \<or> IsNotExist (the (fst (os_Remove env p s)))"
    using Cons.prems(2) by (auto simp: remove_stale_step split: if_splits)
  then have eq: "remove_stale env (p # ps) s = remove_stale env ps ?t" by (simp add: remove_stale_step)
  have ok: "map_ok (Disk ?t)" using os_Remove_effect(1) [OF Cons.prems(1), of p "{p}"] by (simp add: removes_only_def)
  have gone: "mget (Disk ?t) p = None"
    using go os_Remove_effect(2) [OF Cons.prems(1), of p "{p}" env] os_Remove_missing [of env p s] assms(4)
    by (cases "fst (os_Remove env p s)") auto
  show ?case
  proof (cases "q \<in> set ps")
    case True
    then show ?thesis using Cons.IH [OF ok] Cons.prems(2) eq by simp
  next
    case False
    then have "q = p" using Cons.prems(3) by simp
    moreover have "removes_only (set ps) ?t (snd (remove_stale env ps ?t))" by (rule remove_stale_only [OF ok]) simp
    ultimately show ?thesis using gone eq unfolding removes_only_def by metis
  qed
qed simp

lemma db_onlyD:
  assumes "db_only stateDir f" "map_ok (Disk s)"
  shows "map_ok (Disk (snd (f s)))" "q \<notin> set (cache_files stateDir) \<Longrightarrow> mget (Disk (snd (f s))) q = mget (Disk s) q"
  using assms unfolding db_only_def by blast+

text \<open>The check up to the deletion: the three database calls, with the errors of the load and of the close.\<close>

definition preflight :: "trust_store \<Rightarrow> string \<Rightarrow> string \<Rightarrow> io \<Rightarrow> goerror option \<times> outcome" where
  "preflight st certsDir stateDir s =
     (let db = path_join [stateDir, ''sd.trust.db'']; s1 = snd (OpenTrust st db s); l = LoadTRCs st certsDir db s1
      in (fst l, CloseTrust st db (snd l)))"

definition opens :: "trust_store \<Rightarrow> string \<Rightarrow> io \<Rightarrow> bool" where
  "opens st stateDir s = (fst (OpenTrust st (path_join [stateDir, ''sd.trust.db'']) s) = None)"

lemma preflight_only:
  assumes "store_ok stateDir st" "map_ok (Disk s)"
  shows "map_ok (Disk (snd (snd (preflight st certsDir stateDir s))))"
    and "q \<notin> set (cache_files stateDir) \<Longrightarrow> mget (Disk (snd (snd (preflight st certsDir stateDir s)))) q = mget (Disk s) q"
proof -
  let ?db = "path_join [stateDir, ''sd.trust.db'']"
  have laws: "db_only stateDir (OpenTrust st ?db)" "db_only stateDir (LoadTRCs st certsDir ?db)" "db_only stateDir (CloseTrust st ?db)"
    using assms(1) by (auto simp: store_ok_def Let_def)
  note o1 = db_onlyD [OF laws(1) assms(2)]
  note l1 = db_onlyD [OF laws(2) o1(1)]
  note c1 = db_onlyD [OF laws(3) l1(1)]
  show "map_ok (Disk (snd (snd (preflight st certsDir stateDir s))))" using c1(1) by (simp add: preflight_def Let_def)
  show "q \<notin> set (cache_files stateDir) \<Longrightarrow> mget (Disk (snd (snd (preflight st certsDir stateDir s)))) q = mget (Disk s) q"
    using o1(2) l1(2) c1(2) by (simp add: preflight_def Let_def)
qed

lemma reset_by_preflight:
  "resetStaleTrustCache env st certsDir stateDir s =
     (if \<not> opens st stateDir s
      then (map_option (Wrap ''opening trust cache for preflight'') (fst (OpenTrust st (path_join [stateDir, ''sd.trust.db'']) s)),
            snd (OpenTrust st (path_join [stateDir, ''sd.trust.db'']) s))
      else case preflight st certsDir stateDir s of
          (None, closeErr, t) \<Rightarrow> (map_option (Wrap ''closing trust cache after preflight'') closeErr, t)
        | (Some e, closeErr, t) \<Rightarrow> if IsWriteFailed e then remove_stale env (cache_files stateDir) t else (Some (Wrap ''preflight TRC load'' e), t))"
  by (auto simp: resetStaleTrustCache_def preflight_def opens_def Let_def split: prod.splits option.splits)

text \<open>
  C23. The check before the start never touches a file outside the six files of the two cache
  databases. It deletes them only when loading the trust anchors failed with a write conflict; if it
  then succeeds, all six are gone, so that the daemon starts from the bootstrapped anchors. Any other load error
  is returned with the files as the database calls left them.
\<close>

theorem stale_cache_reset:
  assumes "store_ok stateDir st" "map_ok (Disk s)" "opens st stateDir s"
    and "\<forall>p e. Fault env OpRemove p = Some e \<longrightarrow> \<not> IsNotExist e"
    and "preflight st certsDir stateDir s = (loadErr, closeErr, t)" "resetStaleTrustCache env st certsDir stateDir s = (r, s')"
  shows "(\<forall>q. q \<notin> set (cache_files stateDir) \<longrightarrow> mget (Disk s') q = mget (Disk s) q) \<and>
    (case loadErr of
       None \<Rightarrow> s' = t \<and> r = map_option (Wrap ''closing trust cache after preflight'') closeErr
     | Some e \<Rightarrow> if IsWriteFailed e then r = None \<longrightarrow> list_all (\<lambda>p. mget (Disk s') p = None) (cache_files stateDir)
                 else s' = t \<and> r = Some (Wrap ''preflight TRC load'' e))"
proof -
  have t: "map_ok (Disk t)" "\<And>q. q \<notin> set (cache_files stateDir) \<Longrightarrow> mget (Disk t) q = mget (Disk s) q"
    using preflight_only [OF assms(1,2), where certsDir = certsDir] assms(5) by simp_all
  consider "loadErr = None" "s' = t" "r = map_option (Wrap ''closing trust cache after preflight'') closeErr"
    | e where "loadErr = Some e" "\<not> IsWriteFailed e" "s' = t" "r = Some (Wrap ''preflight TRC load'' e)"
    | e where "loadErr = Some e" "IsWriteFailed e" "remove_stale env (cache_files stateDir) t = (r, s')"
    using assms(3,5,6) reset_by_preflight [of env st certsDir stateDir s] by (auto split: option.splits if_splits)
  then show ?thesis
  proof cases
    case 3
    have "removes_only (set (cache_files stateDir)) t s'"
      using remove_stale_only [OF t(1) subset_refl, where env = env and ps = "cache_files stateDir"] 3(3) by simp
    moreover have "r = None \<Longrightarrow> list_all (\<lambda>p. mget (Disk s') p = None) (cache_files stateDir)"
      using remove_stale_all [OF t(1) _ _ assms(4), where ps = "cache_files stateDir"] 3(3) by (simp add: list_all_iff)
    ultimately show ?thesis using 3(1,2) t(2) by (simp add: removes_onlyD)
  qed (use t(2) in auto)
qed

definition ex_store :: trust_store where
  "ex_store = \<lparr>OpenTrust = (\<lambda>db s. (None, s)), LoadTRCs = (\<lambda>certs db s. (Some (ErrWriteFailed ''inserting TRC''), s)), CloseTrust = (\<lambda>db s. (None, s))\<rparr>"

definition ex_cache :: io where
  "ex_cache = \<lparr>Disk = [(''/state/sd.path.db'', \<lparr>Content = ''p'', Mode = mode644\<rparr>), (''/state/sd.trust.db'', \<lparr>Content = ''t'', Mode = mode644\<rparr>)], History = []\<rparr>"

definition ex_env :: fsenv where
  "ex_env = \<lparr>Fault = (\<lambda>op p. None), Short = 0, Random = []\<rparr>"

lemma ex_store_ok: "store_ok d ex_store"
  by (simp add: store_ok_def db_only_def ex_store_def)

theorem stale_cache_reset_witness:
  "fst (resetStaleTrustCache ex_env ex_store ''/certs'' ''/state'' ex_cache) = None \<and>
   list_all (\<lambda>p. mget (Disk (snd (resetStaleTrustCache ex_env ex_store ''/certs'' ''/state'' ex_cache))) p = None) (cache_files ''/state'')"
proof -
  have r: "fst (resetStaleTrustCache ex_env ex_store ''/certs'' ''/state'' ex_cache) = None" by code_simp
  have p: "preflight ex_store ''/certs'' ''/state'' ex_cache = (Some (ErrWriteFailed ''inserting TRC''), None, ex_cache)"
    by (simp add: preflight_def ex_store_def)
  have w: "IsWriteFailed (ErrWriteFailed ''inserting TRC'')" by code_simp
  have m: "map_ok (Disk ex_cache)" by code_simp
  have o: "opens ex_store ''/state'' ex_cache" by (simp add: opens_def ex_store_def)
  show ?thesis
    using stale_cache_reset [OF ex_store_ok m o _ p, of ex_env] r w
    by (cases "resetStaleTrustCache ex_env ex_store ''/certs'' ''/state'' ex_cache") (simp add: ex_env_def)
qed

section \<open>Release on every path\<close>

definition acquired :: "daemon_event list \<Rightarrow> resource list" where
  "acquired evs = List.map_filter (\<lambda>ev. case ev of Acquire x \<Rightarrow> Some x | _ \<Rightarrow> None) evs"

definition released :: "daemon_event list \<Rightarrow> resource list" where
  "released evs = List.map_filter (\<lambda>ev. case ev of Release x \<Rightarrow> Some x | _ \<Rightarrow> None) evs"

definition release_order :: "resource list" where
  "release_order = [TrcLoaderTask, TrustDB, RcCleaner, Cleaner, RevCache, PathDB, Group, Context]"

lemma events_append [simp]:
  "acquired (xs @ ys) = acquired xs @ acquired ys" "released (xs @ ys) = released xs @ released ys"
  by (simp_all add: acquired_def released_def map_filter_def)

lemma events_cons [simp]:
  "acquired [] = []" "acquired (Acquire x # evs) = x # acquired evs" "acquired (Release x # evs) = acquired evs"
  "acquired (StartTopology # evs) = acquired evs" "acquired (Serve a # evs) = acquired evs" "acquired (StopOnDone # evs) = acquired evs"
  "released [] = []" "released (Acquire x # evs) = released evs" "released (Release x # evs) = x # released evs"
  "released (StartTopology # evs) = released evs" "released (Serve a # evs) = released evs" "released (StopOnDone # evs) = released evs"
  by (simp_all add: acquired_def released_def map_filter_def)

lemma daemon_trust_releases:
  "mset (released (snd (daemon_trust c configDir stateDir listenAddr))) = mset (acquired (snd (daemon_trust c configDir stateDir listenAddr)))"
  "subseq (released (snd (daemon_trust c configDir stateDir listenAddr))) [TrcLoaderTask, TrustDB]"
  by (auto simp: daemon_defs split: option.split)

text \<open>
  Once the path database is open, every resource is released exactly as often as it was acquired
  and in the fixed order: tasks before the databases they use, the goroutines last.
\<close>

lemma daemon_Run_releases:
  assumes "daemon_Run env st c configDir stateDir listenAddr s = ((r, evs), s')"
    and "NewPathStorage c (path_join [stateDir, ''sd.path.db'']) = None"
  shows "mset (released evs) = mset (acquired evs)" "subseq (released evs) release_order"
proof -
  note trust = daemon_trust_releases [of c configDir stateDir listenAddr]
  have order: "subseq ([TrcLoaderTask, TrustDB] @ [RcCleaner, Cleaner, RevCache, PathDB, Group, Context]) release_order"
    by (simp add: release_order_def)
  consider "evs = []"
    | "evs = [Acquire Context, Acquire Group, StartTopology, Acquire RevCache, Acquire PathDB, Acquire Cleaner, Acquire RcCleaner] @
        snd (daemon_trust c configDir stateDir listenAddr) @ map Release [RcCleaner, Cleaner, RevCache, PathDB, Group, Context]"
    using assms
    by (auto simp: daemon_Run_def daemon_storage_def emits_def defers_def reaps_def fails_def split: prod.splits option.splits)
  note shape = this
  show "mset (released evs) = mset (acquired evs)" using shape trust(1) by cases auto
  show "subseq (released evs) release_order"
  proof (cases rule: shape)
    case 2
    then show ?thesis
      using subseq_order.trans [OF list_emb_append_mono [OF trust(2) subseq_order.refl] order] by simp
  qed simp
qed

text \<open>If the path database fails to open, the revocation cache acquired just before stays open.\<close>

lemma revcache_left_open:
  assumes "resetStaleTrustCache env st (path_join [configDir, ''certs'']) stateDir s = (None, s')"
    and "TopologyLoader c (path_join [configDir, ''topology.json'']) = None"
    and "NewPathStorage c (path_join [stateDir, ''sd.path.db'']) = Some e"
  shows "RevCache \<in> set (acquired (snd (fst (daemon_Run env st c configDir stateDir listenAddr s))))"
    and "RevCache \<notin> set (released (snd (fst (daemon_Run env st c configDir stateDir listenAddr s))))"
  using assms by (simp_all add: daemon_defs)

text \<open>An error that stops the start is the one returned, whatever the goroutines answer later.\<close>

lemma daemon_Run_first_error:
  assumes "resetStaleTrustCache env st (path_join [configDir, ''certs'']) stateDir s = (None, s')"
    and "TopologyLoader c (path_join [configDir, ''topology.json'']) = None"
    and "fst (daemon_storage c configDir stateDir listenAddr) = Some e"
  shows "fst (fst (daemon_Run env st c configDir stateDir listenAddr s)) = Some e"
  using assms by (simp add: daemon_Run_def emits_def defers_def reaps_def)

end
