(* ===== verification/Deployment.thy ===== *)
theory Deployment
  imports Agent Reconcile Sig Daemonapi
begin

text \<open>
  The two programs together: the environment that the operator renders into the DaemonSet is the
  configuration that the agent reads, the deny list of the cluster becomes the routing policy of
  every node, and the endpoints that the operator registers are the sockets that the gateway binds.
\<close>

section \<open>What the agent starts\<close>

definition daemonAPIAddr :: string where
  "daemonAPIAddr = ''127.0.0.1:30255''"

text \<open>\<open>net.ParseIP\<close> gives sixteen bytes, for an IPv4 address the mapped form.\<close>

fun To16 :: "addr \<Rightarrow> ip" where
  "To16 (V4 x) = replicate 10 0 @ [255, 255] @ As4 x"
| "To16 (V6 x z) = map (\<lambda>i. ucast (drop_bit (120 - 8 * i) x)) [0..<16]"

definition gateway_params :: "agent \<Rightarrow> Params" where
  "gateway_params a =
     \<lparr>ParConfigDir = confDir (Cfg a), TrafficPolicyFile = trafficPolicyFile (Cfg a), RoutingPolicyFile = routingPolicyFile (Cfg a),
      ParTunName = TunName (Cfg a), ParNodeIP = To16 (NodeIP a), ReloadTrigger = True, DebugMux = True, OnUp = True\<rparr>"

text \<open>
  The goroutine of the daemon API waits until the gateway was constructed (\<open>up\<close>) or the context
  ends. None: it is not started.
\<close>

definition start_daemon ::
  "fsenv \<Rightarrow> trust_store \<Rightarrow> ('c, 'k) daemon_calls \<Rightarrow> Config \<Rightarrow> bool \<Rightarrow> io \<Rightarrow> (daemon_run \<times> io) option" where
  "start_daemon env st c cfg up s =
     (if \<not> EnableDaemonAPI cfg then None
      else if up then Some (daemon_Run env st c (confDir cfg) (StateDir cfg) daemonAPIAddr s)
      else Some ((Some ErrCanceled, []), s))"

text \<open>
  The metrics server: with TLS it waits for the mounted files and needs the API server for the
  reviews; a regular shutdown (\<open>http.ErrServerClosed\<close>) is no error. \<open>serve\<close> is the result of the
  listener, with or without TLS.
\<close>

definition server_end :: "(goerror \<Rightarrow> bool) \<Rightarrow> goerror \<Rightarrow> goerror option" where
  "server_end closed e = (if closed e then None else Some e)"

definition metrics_server ::
  "(goerror \<Rightarrow> bool) \<Rightarrow> 'o cluster \<Rightarrow> Config \<Rightarrow> goerror option \<Rightarrow> (bool \<Rightarrow> goerror) \<Rightarrow> goerror option" where
  "metrics_server closed cl cfg waited serve =
     (if MetricsTLSCert cfg \<noteq> []
      then (case waited of
          Some e \<Rightarrow> Some e
        | None \<Rightarrow>
            (case InClusterConfig cl of
               Some e \<Rightarrow> Some (Wrap ''in-cluster config for metrics auth'' e)
             | None \<Rightarrow> (case NewForConfig cl of Some e \<Rightarrow> Some e | None \<Rightarrow> server_end closed (serve True))))
      else server_end closed (serve False))"

definition agent_main :: "goerror option \<Rightarrow> goerror option \<Rightarrow> nat" where
  "agent_main log_setup run = (if log_setup \<noteq> None then 1 else if run \<noteq> None then 1 else 0)"

section \<open>The environment\<close>

text \<open>The environment of the first container of a DaemonSet.\<close>

definition container_env :: "object \<Rightarrow> EnvVar list" where
  "container_env ob = (case ObjBody ob of DaemonSetBody ds \<Rightarrow> ConEnv (hd (PodContainers (DsPod ds))) | _ \<Rightarrow> [])"

lemma container_env_DaemonSet:
  "ObjBody ob = ObjBody (DaemonSet sn img forb tls) \<Longrightarrow> container_env ob = agent_env (Spec sn) forb tls"
  by (simp add: container_env_def DaemonSet_def agent_container_def)

lemma pod_env_agent:
  fixes spec forb node
  defines "ev \<equiv> pod_env node (agent_env spec forb True)"
  shows "ev ''NODE_NAME'' = node" "ev ''SCION_BOOTSTRAP_MODE'' = SpecMode (Bootstrap spec)"
    "ev ''SCION_DISCOVERY_URL'' = SpecDiscoveryURL (Bootstrap spec)" "ev ''SCION_DNS_DOMAIN'' = SpecDNSDomain (Bootstrap spec)"
    "ev ''SCION_DHCP_INTERFACE'' = SpecDHCPInterface (Bootstrap spec)"
    "ev ''SCION_REFRESH_INTERVAL'' = SpecRefreshInterval (Bootstrap spec)" "ev ''SCION_TUN_NAME'' = SpecTunName (Dataplane spec)"
    "ev ''SCION_ACCEPT_ISD_ASES'' = Join (SpecISDASes (AcceptPolicy spec)) '',''" "ev ''SCION_FORBIDDEN_CIDRS'' = Join forb '',''"
    "ev ''SCION_ADVERTISE_POD_CIDR'' = boolStr (boolOr (AdvPodCIDR (Advertisement spec)) True)"
    "ev ''SCION_ADVERTISE_NODE_IP'' = boolStr (boolOr (AdvNodeIP (Advertisement spec)) False)"
    "ev ''SCION_METRICS_TLS_CERT'' = metricsTLSDir @ ''/tls.crt''" "ev ''SCION_METRICS_TLS_KEY'' = metricsTLSDir @ ''/tls.key''"
    "ev ''SCION_STATE_DIR'' = []" "ev ''SCION_ENABLE_DAEMON_API'' = []" "ev ''SCION_METRICS_ADDR'' = []" "ev ''SCION_LOCAL_PREFIXES'' = []"
  by (simp_all add: ev_def pod_env_def agent_env_def env_var_def)

definition list_item :: "string \<Rightarrow> bool" where
  "list_item s \<longleftrightarrow> word_ok s \<and> CHR '','' \<notin> set s"

lemma split_Join_items: "list_all list_item xs \<Longrightarrow> split (Join xs '','') = xs"
proof (cases "xs = []")
  case False
  assume ok: "list_all list_item xs"
  then have "Split (Join xs '','') CHR '','' = xs" using False by (intro Split_Join) (auto simp: list_all_iff list_item_def)
  moreover have "map TrimSpace xs = xs" "filter (\<lambda>p. p \<noteq> []) xs = xs"
    using ok by (auto simp: list_all_iff list_item_def word_ok_def intro!: map_idI TrimSpace_noop)
  ultimately show ?thesis by (simp add: split_def)
qed (simp add: split_def TrimSpace_noop)

lemma v4_items: "list_all v4_cidr cs \<Longrightarrow> list_all list_item cs"
  using v4_cidr_word by (simp add: list_all_iff list_item_def)

text \<open>The operator prints a list into a variable and the agent reads it back.\<close>

interpretation env_list: text_codec "\<lambda>xs. Join xs '',''" "\<lambda>s. Some (split s)" "list_all list_item"
  by unfold_locales (simp add: split_Join_items)

text \<open>The environment, and with it the pods, changes exactly when the deny list changes.\<close>

lemma env_changes_with_ranges:
  assumes "list_all v4_cidr forb" "list_all v4_cidr forb'"
  shows "agent_env spec forb tls = agent_env spec forb' tls \<longleftrightarrow> forb = forb'"
  using env_list.print_inject [OF v4_items [OF assms(1)] v4_items [OF assms(2)]] by (auto simp: agent_env_def env_var_def)

lemma getenvBool_boolStr: "env k = boolStr b \<Longrightarrow> getenvBool env k def = b"
  by (cases b) (simp_all add: getenvBool_def boolStr_def FormatBool_def ParseBool_def)

lemma pod_config:
  assumes "FromEnv frac (pod_env node (agent_env spec forb True)) = Inr c"
  shows "split (CfgForbiddenCIDRs c) = split (Join forb '','')" "StateDir c = ''/var/lib/scion-node-agent''"
  using FromEnv_fields [OF assms] by (auto simp: env_config_def pod_env_agent getenv_def)

section \<open>From the cluster to the routing policy\<close>

lemma deny_list_v4:
  assumes "clusterForbiddenCIDRs acc rd sn = Inr (forb, os)"
  shows "list_all v4_cidr forb" "(\<exists>f \<in> set forb. cidr_has f x) \<longleftrightarrow> (\<exists>f \<in> set (cluster_ranges acc rd sn). cidr_has f x)"
  using deny_list_content(3) [OF assms] cidr_has_v4 by (auto simp: list_all_iff)

lemma startup_from_env: "startup frac acc o0 s = (Inr a, s') \<Longrightarrow> FromEnv frac (Environ o0) = Inr (Cfg a)"
  by (auto simp: startup_def Let_def split: sum.splits prod.splits option.splits if_splits)

section \<open>Endpoints\<close>

text \<open>
  What a reader of a registered \<open>host:port\<close> gets (\<open>net.SplitHostPort\<close> with \<open>netip.ParseAddr\<close>): the
  host may hold no further colon unless it stands in brackets.
\<close>

definition endpoint :: "string \<Rightarrow> (addr \<times> string) option" where
  "endpoint s =
     (case Split s CHR '':'' of
        [host, port] \<Rightarrow> (case ParseAddr host of Inl e \<Rightarrow> None | Inr a \<Rightarrow> Some (a, port))
      | _ \<Rightarrow> None)"

lemma Itoa_no_colon: "CHR '':'' \<notin> set (Itoa n)"
  using Itoa_digits [of n] by (auto simp: list_all_iff is_digit_def)

lemma endpoint_v4:
  assumes "ParseAddr host = Inr (V4 x)"
  shows "endpoint (host @ '':'' @ Itoa n) = Some (V4 x, Itoa n)"
proof -
  have "CHR '':'' \<notin> set host" using ParseAddr_V4_chars [OF assms, of "CHR '':''"] by (auto simp: is_digit_def)
  then have "Split (host @ '':'' @ Itoa n) CHR '':'' = [host, Itoa n]"
    using Split_append [of "CHR '':''" host "Itoa n"] Split_nosep [OF Itoa_no_colon] by simp
  with assms show ?thesis by (simp add: endpoint_def)
qed

lemma startup_node:
  "startup frac acc o0 s = (Inr a, s') \<Longrightarrow>
     nodeInfo acc (Cluster o0) (Environ o0) (Cfg a) = Inr (Info a, Dynamic a) \<and> ParseIP (InternalIP (Info a)) = Some (NodeIP a)"
  by (auto simp: startup_def Let_def split: sum.splits prod.splits option.splits if_splits)

lemma nodeInfo_api:
  assumes "env ''SCION_LOCAL_PREFIXES'' = []" "nodeInfo acc cl env cfg = Inr (info, dyn)" "GetNode cl (NodeName cfg) = Inr nd"
  shows "InternalIP info = internal_ip (Addresses nd)"
  using assms
  by (auto simp: nodeInfo_def GetNodeInfo_def Let_def with_cidrs_def split: sum.splits option.splits if_splits)

lemma pod_node_ip:
  assumes "startup frac acc o0 s = (Inr a, s')" "Environ o0 = pod_env node (agent_env spec forb True)"
    and "GetNode (Cluster o0) node = Inr (Node.truncate n)"
  shows "ParseIP (internal_ip (Addresses n)) = Some (NodeIP a)"
proof -
  have "NodeName (Cfg a) = node"
    using FromEnv_fields [OF startup_from_env [OF assms(1)]] by (auto simp: env_config_def assms(2) pod_env_agent)
  moreover have "Environ o0 ''SCION_LOCAL_PREFIXES'' = []" by (simp add: assms(2) pod_env_agent)
  ultimately have "InternalIP (Info a) = internal_ip (Addresses (Node.truncate n))"
    using nodeInfo_api startup_node [OF assms(1)] assms(3) by metis
  then show ?thesis using startup_node [OF assms(1)] by (simp add: Node.truncate_def)
qed

text \<open>An IPv6 node address is registered without brackets, so that no reader can split the text.\<close>

lemma Split_length: "length (Split s c) = Suc (count_list s c)"
  by (induction s) (auto split: list.splits)

lemma ipv6_endpoint_unreadable:
  assumes "CHR '':'' \<in> set (internal_ip (Addresses n))"
  shows "endpoint (NodeCtrlAddr (sig_of n)) = None" "endpoint (NodeDataAddr (sig_of n)) = None"
proof -
  have "endpoint (internal_ip (Addresses n) @ '':'' @ p) = None" for p
  proof -
    have "0 < count_list (internal_ip (Addresses n)) CHR '':''" using assms count_list_0_iff by fastforce
    then have "length (Split (internal_ip (Addresses n) @ '':'' @ p) CHR '':'') > 2" by (simp add: Split_length)
    then show ?thesis by (auto simp: endpoint_def split: list.split)
  qed
  then show "endpoint (NodeCtrlAddr (sig_of n)) = None" "endpoint (NodeDataAddr (sig_of n)) = None"
    by (simp_all add: sig_of_def node_sig_def)
qed

text \<open>In a pod of the DaemonSet the metrics port is never served without TLS: the serving call is the one with TLS or none.\<close>

lemma pod_serves_tls:
  assumes "FromEnv frac (pod_env node (agent_env spec forb True)) = Inr cfg"
  shows "metrics_server closed cl cfg waited serve = metrics_server closed cl cfg waited (\<lambda>_. serve True)"
  using FromEnv_fields [OF assms] by (auto simp: metrics_server_def env_config_def pod_env_agent metricsTLSDir_def)

text \<open>
  The daemon API runs only after the gateway was constructed, which is when its \<open>OnUp\<close> fires;
  then the gateway's collector is registered first and the daemon reuses it.
\<close>

lemma daemon_after_gateway:
  assumes "start_daemon env st c cfg (Up \<in> set (snd (sig_Run k (gateway_params a)))) s = Some ((None, evs), s')"
  shows "\<exists>gw. RunGateway gw \<in> set (snd (sig_Run k (gateway_params a)))"
  using assms Up_then_runs [of k "gateway_params a"] by (auto simp: start_daemon_def split: if_splits)

section \<open>A deployment\<close>

definition ex_deploy_sn :: ScionNetwork where
  "ex_deploy_sn = ex_open_sn\<lparr>Spec := (Spec ex_open_sn)\<lparr>Bootstrap := (Bootstrap ex_spec)\<lparr>SpecDiscoveryURL := ''http://192.0.2.1:8041''\<rparr>\<rparr>\<rparr>"

definition ex_ranges :: "string list" where
  "ex_ranges = [''10.244.0.0/24'', ''10.244.1.0/24'', ''10.64.0.0/16'', ''10.96.0.0/12'', ''128.0.0.0/1'', ''172.16.0.0/12'']"

definition ex_pod_env :: environ where
  "ex_pod_env = pod_env ''n1'' (agent_env (Spec ex_deploy_sn) ex_ranges True)"

definition ex_pod_cluster :: "unit cluster" where
  "ex_pod_cluster = ex_cluster\<lparr>GetNode := (\<lambda>_. Inr (Node.truncate (hd ex_nodes)))\<rparr>"

definition ex_pod_outside :: "unit outside" where
  "ex_pod_outside = \<lparr>Environ = ex_pod_env, Cluster = ex_pod_cluster, FsCalls = ex_fs, FirstRound = ex_round ''good''\<rparr>"

definition ex_pod_cfg :: Config where
  "ex_pod_cfg = (env_config ex_pod_env)\<lparr>RefreshInterval := 3600 * 10 ^ 9\<rparr>"

definition ex_pod_info :: NodeInfo where
  "ex_pod_info = \<lparr>PodCIDRs = [''10.244.0.0/24'', ''fd00::/64''], InternalIP = ''192.168.0.1''\<rparr>"

lemma ex_pod_steps:
  "FromEnv (\<lambda>_ _ _. 0) ex_pod_env = Inr ex_pod_cfg"
  "nodeInfo ex_accessors ex_pod_cluster ex_pod_env ex_pod_cfg = Inr (ex_pod_info, True)"
  "ParseIP (InternalIP ex_pod_info) \<noteq> None"
  "confDir ex_pod_cfg = ex_dir" "StateDir ex_pod_cfg = ''/var/lib/scion-node-agent''"
  "NewDiscoverer (BootstrapMode ex_pod_cfg) (DiscoveryURL ex_pod_cfg) (DNSDomain ex_pod_cfg) (DHCPInterface ex_pod_cfg) = Inr (URLDiscoverer ''http://192.0.2.1:8041'')"
  "split (CfgAcceptISDASes ex_pod_cfg) = [''1-ff00:0:110'']"
  "split (CfgForbiddenCIDRs ex_pod_cfg) = ex_ranges" "list_all v4_cidr ex_ranges"
  by code_simp+

lemma ex_pod_startup: "\<exists>a s. startup (\<lambda>_ _ _. 0) ex_accessors ex_pod_outside (Files ex_refresh) = (Inr a, s) \<and> Cfg a = ex_pod_cfg"
proof -
  let ?inp = "policy_of ''1-ff00:0:110'' ex_pod_info ex_pod_cfg"
  have "is_ok (prepare ?inp)"
    using ex_pod_steps(9) by (simp add: prepare_succeeds policy_of_def ex_pod_steps list_all_iff) (simp add: ex_ranges_def)
  then obtain ps where p: "prepare ?inp = Inr ps" by (cases "prepare ?inp") auto
  obtain s where r: "renderPolicies ex_fs ?inp (trafficPolicyFile ex_pod_cfg) (routingPolicyFile ex_pod_cfg) ex_fetched = (None, s)"
    using renderPolicies_succeeds [OF p ex_fs_write_ok] by blast
  obtain ip where ip: "ParseIP (InternalIP ex_pod_info) = Some ip" using ex_pod_steps(3) by auto
  have sel: "Environ ex_pod_outside = ex_pod_env" "Cluster ex_pod_outside = ex_pod_cluster" "FsCalls ex_pod_outside = ex_fs"
    "FirstRound ex_pod_outside = ex_round ''good''" by (simp_all add: ex_pod_outside_def)
  show ?thesis
    by (simp add: startup_def sel ex_pod_steps(1,2,4,6) ip ex_fetch policyInput_def MkdirAll_def r)
qed

lemma ex_pass: "fst (Reconcile (ex_ctl ex_recorder) 0 ''cluster'' (ex_kworld ex_deploy_sn ex_pods, 0)) = Inr (after (30 * second_ns))"
  by code_simp

lemma ex_pass_ranges:
  "clusterForbiddenCIDRs (Accessors (ex_ctl ex_recorder))
     (ReadState (Api (ex_ctl ex_recorder)) (read_world (ex_ctl ex_recorder) ex_deploy_sn (ex_kworld ex_deploy_sn ex_pods))) ex_deploy_sn = Inr (ex_ranges, False)"
  by code_simp

lemma ex_room: "list_all (\<lambda>c. \<not> cidr_has c 0) ex_ranges"
  by code_simp

lemma ex_pass_pod:
  assumes "Reconcile (ex_ctl ex_recorder) 0 ''cluster'' (ex_kworld ex_deploy_sn ex_pods, 0) = (Inr res, w', g')"
  shows "\<exists>ds. Stored ex_view w' (''DaemonSet'', Namespace, agentName) = Some ds \<and> Environ ex_pod_outside = pod_env ''n1'' (container_env ds)"
    and "GetScionNetwork (Api (ex_ctl ex_recorder)) ''cluster'' (ex_kworld ex_deploy_sn ex_pods) = Inr ex_deploy_sn" "SnDeletion ex_deploy_sn = None"
proof -
  show g: "GetScionNetwork (Api (ex_ctl ex_recorder)) ''cluster'' (ex_kworld ex_deploy_sn ex_pods) = Inr ex_deploy_sn" "SnDeletion ex_deploy_sn = None"
    by (simp_all add: ex_kube_def ex_kworld_def ex_deploy_sn_def ex_open_sn_def ex_sn_def)
  from reconcile_installs_ok [OF _ _ _ _ g assms, of ex_view]
  obtain ds where "Stored ex_view w' (''DaemonSet'', Namespace, agentName) = Some ds"
    "ObjBody ds = ObjBody (DaemonSet ex_deploy_sn (agent_image (ex_ctl ex_recorder) ex_deploy_sn) ex_ranges True)"
    unfolding ex_pass_ranges by (auto simp: ex_kube_ok ex_lib_ok ex_x509_ok ex_nets)
  then show "\<exists>ds. Stored ex_view w' (''DaemonSet'', Namespace, agentName) = Some ds \<and> Environ ex_pod_outside = pod_env ''n1'' (container_env ds)"
    by (auto simp: container_env_DaemonSet ex_pod_outside_def ex_pod_env_def)
qed

definition ex_sig_calls :: sig_calls where
  "ex_sig_calls = \<lparr>LoadASInfoFromFile = (\<lambda>_. None), NewStandaloneConnector = (\<lambda>_. None), ConnLocalIA = Inr ''1-ff00:0:110'',
     DefaultLocalIP = Inl (Err ''none''), GatewayRun = (\<lambda>_. None)\<rparr>"

lemma ex_gateway_runs:
  "ParNodeIP p = To16 (V4 x) \<Longrightarrow> ReloadTrigger p \<Longrightarrow> \<exists>gw. RunGateway gw \<in> set (snd (sig_Run ex_sig_calls p))"
  by (simp add: sig_Run_def sig_connected_def ex_sig_calls_def addrs_def AddrFromSlice_def As4_def)

end
